(* ===== verification/Kas_Prelude.thy ===== *)
theory Kas_Prelude
  imports Main "HOL-Library.Word" "HOL-Library.Char_ord" "HOL-Library.List_Lexorder"
    "HOL-Library.Product_Lexorder" "HOL-Library.Option_ord" "HOL-Library.Code_Target_Nat"
begin

text \<open>
  Shared vocabulary of the development: machine integers at the widths the Rust code uses, the
  operations of Rust's standard library the sources call on them and on strings, a result type
  for code that may panic, and the generic run of an operation stream.

  A Rust \<open>String\<close> is UTF-8, and every comparison, length and prefix test the code makes on it is
  a byte operation: a \<^typ>\<open>string\<close> here is that byte sequence, one \<^typ>\<open>char\<close> per byte, and the
  orders of \<open>Char_ord\<close> and \<open>List_Lexorder\<close> are \<open>str\<close>'s \<open>Ord\<close>.
\<close>

named_theorems u64_simps \<open>unat-level equations of the fixed-width operations\<close>
named_theorems state_defs \<open>definitions of the state-changing operations\<close>

section \<open>Machine integers\<close>

type_synonym u8 = "8 word"
type_synonym u32 = "32 word"
type_synonym u64 = "64 word"

text \<open>An \<open>i64\<close> is an \<^typ>\<open>int\<close> in \<open>[-2^63, 2^63)\<close>; every place that could leave the range writes
  the cast or the saturation out. A \<open>usize\<close> index or length is a \<^typ>\<open>nat\<close>.\<close>

type_synonym i64 = int
type_synonym i32 = int

definition i64_max :: int where "i64_max = 9223372036854775807"
definition i64_min :: int where "i64_min = - 9223372036854775808"

definition checked_add :: "u64 \<Rightarrow> u64 \<Rightarrow> u64 option" where
  "checked_add a b = (if unat a + unat b < 2 ^ 64 then Some (a + b) else None)"

definition u64_saturating_sub :: "u64 \<Rightarrow> u64 \<Rightarrow> u64" where
  "u64_saturating_sub a b = (if b \<le> a then a - b else 0)"

definition u64_saturating_add :: "u64 \<Rightarrow> u64 \<Rightarrow> u64" where
  "u64_saturating_add a b = (if unat a + unat b < 2 ^ 64 then a + b else - 1)"

text \<open>The cast \<open>x as i64\<close> of a \<open>u64\<close>, and \<open>x as u64\<close> of an \<open>i64\<close>: both reinterpret the bits.\<close>

definition u64_as_i64 :: "u64 \<Rightarrow> i64" where
  "u64_as_i64 w = sint w"

definition i64_as_u64 :: "i64 \<Rightarrow> u64" where
  "i64_as_u64 i = word_of_int i"

definition u32_as_i32 :: "u32 \<Rightarrow> i32" where
  "u32_as_i32 w = sint w"

definition i64_saturating_sub :: "i64 \<Rightarrow> i64 \<Rightarrow> i64" where
  "i64_saturating_sub a b = max i64_min (min i64_max (a - b))"

text \<open>\<open>i64::try_from(u64).ok()\<close>.\<close>

definition i64_try_from_u64 :: "u64 \<Rightarrow> i64 option" where
  "i64_try_from_u64 w = (if uint w \<le> i64_max then Some (uint w) else None)"

lemma checked_add_Some [u64_simps]:
  "checked_add a b = Some c \<Longrightarrow> unat c = unat a + unat b"
  by (auto simp: checked_add_def unat_word_ariths split: if_splits)

lemma checked_add_None_iff [u64_simps]:
  "checked_add a b = None \<longleftrightarrow> 2 ^ 64 \<le> unat a + unat b"
  by (auto simp: checked_add_def)

lemma unat_saturating_sub [u64_simps]: "unat (u64_saturating_sub a b) = unat a - unat b"
  by (auto simp: u64_saturating_sub_def unat_sub word_le_nat_alt)

lemma unat_saturating_add [u64_simps]:
  "unat (u64_saturating_add a b) = min (2 ^ 64 - 1) (unat a + unat b)"
proof -
  have "unat (- 1 :: u64) = 2 ^ 64 - 1"
    by (simp add: unat_eq_nat_uint unsigned_minus_1_eq_mask mask_eq_exp_minus_1)
  then show ?thesis
    by (auto simp: u64_saturating_add_def unat_word_ariths)
qed

lemma u64_bound: "unat (w :: u64) < 2 ^ 64"
  by (rule order_less_le_trans [OF unsigned_less]) simp

lemma unat_add_no_wrap:
  fixes a b :: u64
  shows "unat a + unat b < 2 ^ 64 \<Longrightarrow> unat (a + b) = unat a + unat b"
  by (simp add: unat_word_ariths)

lemma unat_sub_no_wrap:
  fixes a b :: u64
  shows "b \<le> a \<Longrightarrow> unat (a - b) = unat a - unat b"
  by (simp add: unat_sub)

lemma u64_as_i64_inverse [simp]: "i64_as_u64 (u64_as_i64 w) = w"
  by (simp add: i64_as_u64_def u64_as_i64_def)

lemma u64_as_i64_small: "unat w < 2 ^ 63 \<Longrightarrow> u64_as_i64 w = int (unat w)"
proof -
  assume small: "unat w < 2 ^ 63"
  have u: "uint w < 2 ^ 63"
    using small by (metis of_nat_less_iff of_nat_numeral of_nat_power uint_nat)
  have "signed_take_bit 63 (uint w) = uint w"
    by (rule signed_take_bit_int_eq_self [OF _ u]) (rule order_trans [OF _ uint_ge_0], simp)
  then have "sint w = uint w"
    by (simp add: sint_uint)
  then show ?thesis unfolding u64_as_i64_def uint_nat by (rule trans) (rule refl)
qed

lemma u64_as_i64_inj: "u64_as_i64 a = u64_as_i64 b \<longleftrightarrow> a = b"
  by (metis u64_as_i64_inverse)

text \<open>\<open>u32::to_le_bytes\<close> and \<open>to_be_bytes\<close>.\<close>

definition u32_to_le_bytes :: "u32 \<Rightarrow> u8 list" where
  "u32_to_le_bytes w = map (\<lambda>k. ucast (drop_bit (8 * k) w)) [0, 1, 2, 3]"

definition u32_to_be_bytes :: "u32 \<Rightarrow> u8 list" where
  "u32_to_be_bytes w = rev (u32_to_le_bytes w)"

lemma length_u32_bytes [simp]:
  "length (u32_to_le_bytes w) = 4" "length (u32_to_be_bytes w) = 4"
  by (simp_all add: u32_to_le_bytes_def u32_to_be_bytes_def)

lemma u32_to_le_bytes_inject [simp]: "u32_to_le_bytes a = u32_to_le_bytes b \<longleftrightarrow> a = b"
proof
  assume eq: "u32_to_le_bytes a = u32_to_le_bytes b"
  show "a = b"
  proof (rule bit_word_eqI)
    fix n assume "n < LENGTH(32)"
    then have "n div 8 < 4" by simp
    then have "n div 8 = 0 \<or> n div 8 = 1 \<or> n div 8 = 2 \<or> n div 8 = 3" by linarith
    then have "ucast (drop_bit (8 * (n div 8)) a) = (ucast (drop_bit (8 * (n div 8)) b) :: u8)"
      using eq by (elim disjE) (simp_all add: u32_to_le_bytes_def)
    then have "bit (ucast (drop_bit (8 * (n div 8)) a) :: u8) (n mod 8) =
        bit (ucast (drop_bit (8 * (n div 8)) b) :: u8) (n mod 8)"
      by simp
    moreover have "8 * (n div 8) + n mod 8 = n" by simp
    ultimately show "bit a n \<longleftrightarrow> bit b n"
      by (simp add: bit_ucast_iff bit_drop_bit_eq del: mult_div_mod_eq)
  qed
qed simp

lemma u32_to_be_bytes_inject [simp]: "u32_to_be_bytes a = u32_to_be_bytes b \<longleftrightarrow> a = b"
  by (simp add: u32_to_be_bytes_def)

section \<open>Panics\<close>

text \<open>The result of code that returns or panics (an index or slice out of range, an \<open>expect\<close> on
  \<open>Err\<close>): a panic is a value of its own, never an unspecified term.\<close>

datatype 'a run = Panics | Returns 'a

fun run_bind :: "'a run \<Rightarrow> ('a \<Rightarrow> 'b run) \<Rightarrow> 'b run" where
  "run_bind Panics f = Panics"
| "run_bind (Returns x) f = f x"

fun run_map :: "('a \<Rightarrow> 'b) \<Rightarrow> 'a run \<Rightarrow> 'b run" where
  "run_map f Panics = Panics"
| "run_map f (Returns x) = Returns (f x)"

text \<open>\<open>Option::expect\<close> and \<open>Result::expect\<close>.\<close>

fun expect :: "'a option \<Rightarrow> 'a run" where
  "expect None = Panics"
| "expect (Some x) = Returns x"

text \<open>The slice \<open>&xs[from..from + len]\<close>: it panics past the end.\<close>

definition slice :: "'a list \<Rightarrow> nat \<Rightarrow> nat \<Rightarrow> 'a list run" where
  "slice xs off len = (if off + len \<le> length xs then Returns (take len (drop off xs)) else Panics)"

lemma run_bind_Returns_iff:
  "run_bind m f = Returns y \<longleftrightarrow> (\<exists>x. m = Returns x \<and> f x = Returns y)"
  by (cases m) auto

lemma run_map_Returns_iff: "run_map f m = Returns y \<longleftrightarrow> (\<exists>x. m = Returns x \<and> y = f x)"
  by (cases m) auto

lemma slice_Returns_iff:
  "slice xs off len = Returns ys \<longleftrightarrow> off + len \<le> length xs \<and> ys = take len (drop off xs)"
  by (auto simp: slice_def)

lemma slice_in_bounds: "off + len \<le> length xs \<Longrightarrow> slice xs off len = Returns (take len (drop off xs))"
  by (simp add: slice_def)

lemma upt_Suc_map: "[0..<Suc n] = 0 # map Suc [0..<n]"
  by (metis map_Suc_upt upt_conv_Cons zero_less_Suc)

section \<open>Strings and bytes\<close>

definition byte_of_char :: "char \<Rightarrow> u8" where
  "byte_of_char c = word_of_nat (of_char c)"

text \<open>\<open>str::as_bytes\<close>.\<close>

definition as_bytes :: "string \<Rightarrow> u8 list" where
  "as_bytes s = map byte_of_char s"

definition is_ascii_digit :: "char \<Rightarrow> bool" where
  "is_ascii_digit c \<longleftrightarrow> CHR ''0'' \<le> c \<and> c \<le> CHR ''9''"

definition is_ascii_lowercase :: "char \<Rightarrow> bool" where
  "is_ascii_lowercase c \<longleftrightarrow> CHR ''a'' \<le> c \<and> c \<le> CHR ''z''"

definition is_ascii_uppercase :: "char \<Rightarrow> bool" where
  "is_ascii_uppercase c \<longleftrightarrow> CHR ''A'' \<le> c \<and> c \<le> CHR ''Z''"

definition is_ascii :: "string \<Rightarrow> bool" where
  "is_ascii s \<longleftrightarrow> list_all (\<lambda>c. (of_char c :: nat) < 128) s"

definition char_to_ascii_lowercase :: "char \<Rightarrow> char" where
  "char_to_ascii_lowercase c =
     (if is_ascii_uppercase c then char_of (of_char c + 32 :: nat) else c)"

definition to_ascii_lowercase :: "string \<Rightarrow> string" where
  "to_ascii_lowercase s = map char_to_ascii_lowercase s"

lemma of_char_less_256: "(of_char c :: nat) < 256"
  by simp

lemma byte_of_char_inject [simp]: "byte_of_char c = byte_of_char d \<longleftrightarrow> c = d"
proof
  assume "byte_of_char c = byte_of_char d"
  then have "unat (word_of_nat (of_char c) :: u8) = unat (word_of_nat (of_char d) :: u8)"
    by (simp add: byte_of_char_def)
  then have "(of_char c :: nat) = of_char d"
    by (simp add: unat_of_nat)
  then show "c = d" by simp
qed simp

lemma as_bytes_inject [simp]: "as_bytes s = as_bytes t \<longleftrightarrow> s = t"
  by (simp add: as_bytes_def inj_map_eq_map inj_def)

lemma length_as_bytes [simp]: "length (as_bytes s) = length s"
  by (simp add: as_bytes_def)

section \<open>Decimal text\<close>

definition digit_value :: "char \<Rightarrow> nat" where
  "digit_value c = of_char c - 48"

definition digit_char :: "nat \<Rightarrow> char" where
  "digit_char n = char_of (48 + n)"

text \<open>\<open>str::parse::<u64>\<close>: an optional leading \<open>+\<close>, then at least one decimal digit, each step a
  checked multiply and a checked add.\<close>

fun parse_digits :: "string \<Rightarrow> u64 \<Rightarrow> u64 option" where
  "parse_digits [] acc = Some acc"
| "parse_digits (c # cs) acc =
     (if is_ascii_digit c \<and> unat acc * 10 + digit_value c < 2 ^ 64
      then parse_digits cs (word_of_nat (unat acc * 10 + digit_value c))
      else None)"

definition rust_parse_u64 :: "string \<Rightarrow> u64 option" where
  "rust_parse_u64 s =
     (case s of
        [] \<Rightarrow> None
      | c # cs \<Rightarrow> if c = CHR ''+'' then (if cs = [] then None else parse_digits cs 0)
                  else parse_digits s 0)"

text \<open>\<open>u64::to_string\<close>.\<close>

fun nat_to_string :: "nat \<Rightarrow> string" where
  "nat_to_string n =
     (if n < 10 then [digit_char n] else nat_to_string (n div 10) @ [digit_char (n mod 10)])"

declare nat_to_string.simps [simp del]

definition u64_to_string :: "u64 \<Rightarrow> string" where
  "u64_to_string w = nat_to_string (unat w)"

lemma of_char_digit_char: "n < 10 \<Longrightarrow> (of_char (digit_char n) :: nat) = 48 + n"
  by (simp add: digit_char_def)

lemma digit_value_char [simp]: "n < 10 \<Longrightarrow> digit_value (digit_char n) = n"
  by (simp add: digit_value_def of_char_digit_char)

lemma is_ascii_digit_alt: "is_ascii_digit c \<longleftrightarrow> 48 \<le> (of_char c :: nat) \<and> (of_char c :: nat) \<le> 57"
  by (simp add: is_ascii_digit_def less_eq_char_def)

lemma is_ascii_digit_char [simp]: "n < 10 \<Longrightarrow> is_ascii_digit (digit_char n)"
  by (simp add: is_ascii_digit_alt of_char_digit_char)

lemma digit_value_less: "is_ascii_digit c \<Longrightarrow> digit_value c < 10"
  by (auto simp: is_ascii_digit_alt digit_value_def)

lemma parse_digits_snoc:
  "parse_digits (cs @ [c]) acc =
     (case parse_digits cs acc of None \<Rightarrow> None | Some a \<Rightarrow> parse_digits [c] a)"
  by (induction cs arbitrary: acc) auto

lemma parse_nat_to_string:
  "n < 2 ^ 64 \<Longrightarrow> parse_digits (nat_to_string n) 0 = Some (word_of_nat n)"
proof (induction n rule: nat_to_string.induct)
  case (1 n)
  show ?case
  proof (cases "n < 10")
    case True
    then show ?thesis by (simp add: nat_to_string.simps [of n])
  next
    case False
    then have "parse_digits (nat_to_string (n div 10)) 0 = Some (word_of_nat (n div 10))"
      using 1 by auto
    moreover have "unat (word_of_nat (n div 10) :: u64) = n div 10"
      using 1(2) by (simp add: unat_of_nat)
    ultimately show ?thesis
      using False 1(2) by (simp add: nat_to_string.simps [of n] parse_digits_snoc)
  qed
qed

lemma nat_to_string_digits: "list_all is_ascii_digit (nat_to_string n) \<and> nat_to_string n \<noteq> []"
proof (induction n rule: nat_to_string.induct)
  case (1 n)
  then show ?case
    by (cases "n < 10") (simp_all add: nat_to_string.simps [of n])
qed

lemma rust_parse_u64_to_string [simp]: "rust_parse_u64 (u64_to_string w) = Some w"
proof -
  have d: "list_all is_ascii_digit (u64_to_string w)" "u64_to_string w \<noteq> []"
    by (simp_all add: u64_to_string_def nat_to_string_digits)
  then obtain c cs where c: "u64_to_string w = c # cs" "is_ascii_digit c"
    by (cases "u64_to_string w") auto
  then have "c \<noteq> CHR ''+''"
    by (auto simp: is_ascii_digit_alt)
  then show ?thesis
    using parse_nat_to_string [of "unat w"] c unsigned_less [of w]
    by (simp add: rust_parse_u64_def u64_to_string_def del: parse_digits.simps)
qed

lemma u64_to_string_inject [simp]: "u64_to_string a = u64_to_string b \<longleftrightarrow> a = b"
  by (metis option.inject rust_parse_u64_to_string)

section \<open>Runs of an operation stream\<close>

text \<open>An operation of a ledger takes the state to the next one and reports an outcome. \<open>run_ops\<close>
  is the state after a stream, \<open>journal\<close> the operations of the stream the ledger accepted: the rows
  the node persists.\<close>

fun run_ops :: "('s \<Rightarrow> 'o \<Rightarrow> 's \<times> 'r) \<Rightarrow> 's \<Rightarrow> 'o list \<Rightarrow> 's" where
  "run_ops step s [] = s"
| "run_ops step s (x # xs) = run_ops step (fst (step s x)) xs"

fun journal :: "('s \<Rightarrow> 'o \<Rightarrow> 's \<times> 'r) \<Rightarrow> ('r \<Rightarrow> bool) \<Rightarrow> 's \<Rightarrow> 'o list \<Rightarrow> 'o list" where
  "journal step acc s [] = []"
| "journal step acc s (x # xs) =
     (if acc (snd (step s x)) then x # journal step acc (fst (step s x)) xs
      else journal step acc (fst (step s x)) xs)"

lemma run_ops_append: "run_ops step s (xs @ ys) = run_ops step (run_ops step s xs) ys"
  by (induction xs arbitrary: s) auto

lemma journal_append:
  "journal step acc s (xs @ ys) = journal step acc s xs @ journal step acc (run_ops step s xs) ys"
  by (induction xs arbitrary: s) auto

lemma length_journal: "length (journal step acc s xs) \<le> length xs"
  by (induction xs arbitrary: s) (auto intro: le_SucI)

text \<open>The contract of a ledger: an operation it does not accept leaves its state alone, and every
  operation keeps its invariant.\<close>

locale op_ledger =
  fixes step :: "'s \<Rightarrow> 'o \<Rightarrow> 's \<times> 'r"
    and acc :: "'r \<Rightarrow> bool"
    and inv :: "'s \<Rightarrow> bool"
  assumes rejected_unchanged: "\<not> acc (snd (step s x)) \<Longrightarrow> fst (step s x) = s"
    and inv_step: "inv s \<Longrightarrow> inv (fst (step s x))"
begin

lemma inv_run: "inv s \<Longrightarrow> inv (run_ops step s xs)"
  by (induction xs arbitrary: s) (auto simp: inv_step)

lemma run_journal: "run_ops step s (journal step acc s xs) = run_ops step s xs"
  by (induction xs arbitrary: s) (auto simp: rejected_unchanged)

lemma journal_journal: "journal step acc s (journal step acc s xs) = journal step acc s xs"
  by (induction xs arbitrary: s) (auto simp: rejected_unchanged)

text \<open>Deleting a suffix of the journal leaves rows that are all accepted again.\<close>

lemma journal_prefix:
  assumes "journal step acc s xs = ys @ zs"
  shows "journal step acc s ys = ys"
proof -
  let ?l = "journal step acc s ys" and ?r = "journal step acc (run_ops step s ys) zs"
  have eq: "?l @ ?r = ys @ zs"
    using journal_journal [of s xs] unfolding assms by (simp add: journal_append)
  have "length ?l + length ?r = length ys + length zs"
    using arg_cong [OF eq, of length] by simp
  moreover have "length ?l \<le> length ys" "length ?r \<le> length zs"
    by (rule length_journal)+
  ultimately have "length ?l = length ys"
    by linarith
  with eq show ?thesis by simp
qed

end

end
