(* ===== verification/Ordered_Map.thy ===== *)
theory Ordered_Map
  imports Kas_Prelude
begin

text \<open>
  Rust's \<open>BTreeMap\<close> and \<open>BTreeSet\<close>. A map is the list of its entries in iteration order, which is
  the order of the keys; \<open>get\<close> is \<^const>\<open>map_of\<close>. The laws the components rely on are the locale
  \<open>ordered_map\<close>, with the sums over the values that the ledger invariants need; the theory
  interprets it on the sorted entry lists.
\<close>

section \<open>The interface\<close>

locale ordered_map =
  fixes get :: "'m \<Rightarrow> 'k \<Rightarrow> 'v option"
    and ins :: "'k \<Rightarrow> 'v \<Rightarrow> 'm \<Rightarrow> 'm"
    and del :: "'k \<Rightarrow> 'm \<Rightarrow> 'm"
    and entries :: "'m \<Rightarrow> ('k \<times> 'v) list"
    and ok :: "'m \<Rightarrow> bool"
  assumes get_ins: "get (ins k v m) j = (if j = k then Some v else get m j)"
    and get_del: "get (del k m) j = (if j = k then None else get m j)"
    and ok_ins: "ok m \<Longrightarrow> ok (ins k v m)"
    and ok_del: "ok m \<Longrightarrow> ok (del k m)"
    and entries_distinct: "ok m \<Longrightarrow> distinct (map fst (entries m))"
    and entries_get: "ok m \<Longrightarrow> map_of (entries m) = get m"
    and ext: "ok m \<Longrightarrow> ok n \<Longrightarrow> get m = get n \<Longrightarrow> m = n"
begin

definition total :: "('v \<Rightarrow> nat) \<Rightarrow> 'm \<Rightarrow> nat" where
  "total f m = sum_list (map (f \<circ> snd) (entries m))"

definition at :: "('v \<Rightarrow> nat) \<Rightarrow> 'm \<Rightarrow> 'k \<Rightarrow> nat" where
  "at f m k = (case get m k of None \<Rightarrow> 0 | Some v \<Rightarrow> f v)"

lemma dom_entries: "ok m \<Longrightarrow> dom (get m) = set (map fst (entries m))"
  using dom_map_of_conv_image_fst [of "entries m"] by (simp add: entries_get)

lemma finite_dom: "ok m \<Longrightarrow> finite (dom (get m))"
  by (simp add: dom_entries)

lemma total_at: "ok m \<Longrightarrow> total f m = (\<Sum>k \<in> dom (get m). at f m k)"
proof -
  assume ok: "ok m"
  have "sum_list (map (f \<circ> snd) (entries m)) =
    sum_list (map (at f m) (map fst (entries m)))"
    unfolding map_map
    by (rule arg_cong [where f = sum_list], rule map_cong [OF refl])
      (auto simp: at_def entries_get [OF ok, symmetric]
        map_of_is_SomeI [OF entries_distinct [OF ok]])
  also have "\<dots> = (\<Sum>k \<in> set (map fst (entries m)). at f m k)"
    by (rule sum_list_distinct_conv_sum_set [OF entries_distinct [OF ok]])
  finally show ?thesis
    by (simp only: total_def dom_entries [OF ok])
qed

lemma total_split: "ok m \<Longrightarrow> total f m = at f m k + (\<Sum>j \<in> dom (get m) - {k}. at f m j)"
  by (cases "k \<in> dom (get m)")
    (auto simp: total_at finite_dom sum.remove at_def domIff)

lemma total_ins: "ok m \<Longrightarrow> total f (ins k v m) + at f m k = total f m + f v"
proof -
  assume ok: "ok m"
  have d: "dom (get (ins k v m)) - {k} = dom (get m) - {k}"
    by (auto simp: get_ins domIff)
  have "(\<Sum>j \<in> dom (get m) - {k}. at f (ins k v m) j) = (\<Sum>j \<in> dom (get m) - {k}. at f m j)"
    by (rule sum.cong) (auto simp: at_def get_ins)
  with ok show ?thesis
    by (simp add: total_split [of _ _ k] ok_ins d) (simp add: at_def get_ins)
qed

lemma total_del: "ok m \<Longrightarrow> total f (del k m) + at f m k = total f m"
proof -
  assume ok: "ok m"
  have d: "dom (get (del k m)) - {k} = dom (get m) - {k}"
    by (auto simp: get_del domIff split: if_splits)
  have "(\<Sum>j \<in> dom (get m) - {k}. at f (del k m) j) = (\<Sum>j \<in> dom (get m) - {k}. at f m j)"
    by (rule sum.cong) (auto simp: at_def get_del)
  with ok show ?thesis
    by (simp add: total_split [of _ _ k] ok_del d) (simp add: at_def get_del)
qed

lemma at_le_total: "ok m \<Longrightarrow> at f m k \<le> total f m"
  by (simp add: total_split [of _ _ k])

lemma two_at_le_total: "ok m \<Longrightarrow> j \<noteq> k \<Longrightarrow> at f m j + at f m k \<le> total f m"
  using at_le_total [of "del j m" f k] total_del [of m f j]
  by (simp add: ok_del at_def get_del)

lemma ins_commute: "ok m \<Longrightarrow> j \<noteq> k \<Longrightarrow> ins j u (ins k v m) = ins k v (ins j u m)"
  by (rule ext) (auto simp: ok_ins get_ins)

lemma ins_ins: "ok m \<Longrightarrow> ins k u (ins k v m) = ins k u m"
  by (rule ext) (auto simp: ok_ins get_ins)

lemma ins_same: "ok m \<Longrightarrow> get m k = Some v \<Longrightarrow> ins k v m = m"
  by (rule ext) (auto simp: ok_ins get_ins)

lemma del_absent: "ok m \<Longrightarrow> get m k = None \<Longrightarrow> del k m = m"
  by (rule ext) (auto simp: ok_del get_del)

lemma del_ins: "ok m \<Longrightarrow> get m k = None \<Longrightarrow> del k (ins k v m) = m"
  by (rule ext) (auto simp: ok_ins ok_del get_ins get_del)

end

section \<open>Sorted entry lists\<close>

definition bt_ok :: "('k::linorder \<times> 'v) list \<Rightarrow> bool" where
  "bt_ok m = sorted_wrt (<) (map fst m)"

fun bt_insert :: "'k::linorder \<Rightarrow> 'v \<Rightarrow> ('k \<times> 'v) list \<Rightarrow> ('k \<times> 'v) list" where
  "bt_insert k v [] = [(k, v)]"
| "bt_insert k v ((k', v') # m) =
     (if k < k' then (k, v) # (k', v') # m
      else if k = k' then (k, v) # m
      else (k', v') # bt_insert k v m)"

definition bt_remove :: "'k \<Rightarrow> ('k \<times> 'v) list \<Rightarrow> ('k \<times> 'v) list" where
  "bt_remove k m = filter (\<lambda>e. fst e \<noteq> k) m"

definition bt_contains :: "('k \<times> 'v) list \<Rightarrow> 'k \<Rightarrow> bool" where
  "bt_contains m k = (map_of m k \<noteq> None)"

text \<open>\<open>BTreeSet\<close>: a map to unit, written as the sorted list of its members.\<close>

fun bs_insert :: "'k::linorder \<Rightarrow> 'k list \<Rightarrow> 'k list" where
  "bs_insert k [] = [k]"
| "bs_insert k (k' # m) =
     (if k < k' then k # k' # m else if k = k' then k # m else k' # bs_insert k m)"

lemma bt_ok_Nil [simp]: "bt_ok []"
  by (simp add: bt_ok_def)

lemma bt_ok_Cons: "bt_ok ((k, v) # m) \<longleftrightarrow> (\<forall>k' \<in> fst ` set m. k < k') \<and> bt_ok m"
  by (auto simp: bt_ok_def)

lemma map_of_bt_insert [simp]:
  "map_of (bt_insert k v m) j = (if j = k then Some v else map_of m j)"
  by (induction k v m rule: bt_insert.induct) auto

lemma map_of_bt_remove [simp]:
  "map_of (bt_remove k m) j = (if j = k then None else map_of m j)"
  by (induction m) (auto simp: bt_remove_def)

lemma keys_bt_insert [simp]: "fst ` set (bt_insert k v m) = insert k (fst ` set m)"
  by (induction k v m rule: bt_insert.induct) auto

lemma bt_ok_insert [simp]: "bt_ok m \<Longrightarrow> bt_ok (bt_insert k v m)"
  by (induction k v m rule: bt_insert.induct) (auto simp: bt_ok_Cons)

lemma bt_ok_filter [simp]: "bt_ok m \<Longrightarrow> bt_ok (filter P m)"
  by (induction m) (auto simp: bt_ok_Cons)

lemma bt_ok_remove [simp]: "bt_ok m \<Longrightarrow> bt_ok (bt_remove k m)"
  by (simp add: bt_remove_def)

lemma bt_ok_distinct: "bt_ok m \<Longrightarrow> distinct (map fst m)"
  by (simp add: bt_ok_def strict_sorted_iff)

lemma bt_ok_sorted: "bt_ok m \<Longrightarrow> sorted (map fst m)"
  by (simp add: bt_ok_def strict_sorted_iff)

lemma bt_ok_get: "bt_ok m \<Longrightarrow> map_of m k = Some v \<longleftrightarrow> (k, v) \<in> set m"
  by (metis bt_ok_distinct map_of_eq_Some_iff)

lemma bt_ok_ext: "bt_ok m \<Longrightarrow> bt_ok n \<Longrightarrow> map_of m = map_of n \<Longrightarrow> m = n"
proof -
  assume ok: "bt_ok m" "bt_ok n" and eq: "map_of m = map_of n"
  have s: "set m = set n"
  proof (rule set_eqI)
    fix e show "e \<in> set m \<longleftrightarrow> e \<in> set n"
      using bt_ok_get [OF ok(1), of "fst e" "snd e"] bt_ok_get [OF ok(2), of "fst e" "snd e"] eq
      by simp
  qed
  have k: "map fst m = map fst n"
    by (rule sorted_distinct_set_unique)
      (simp_all add: ok bt_ok_sorted bt_ok_distinct s)
  show ?thesis
    by (metis k s map_of_eqI map_fst_zip_take nth_equalityI ok bt_ok_distinct length_map
        map_inj_on inj_onI distinct_map sup_idem)
qed

interpretation bt: ordered_map map_of bt_insert bt_remove "\<lambda>m. m" bt_ok
  by unfold_locales (auto simp: bt_ok_distinct intro: bt_ok_ext)

lemma map_of_filter_key:
  "map_of (filter (\<lambda>e. P (fst e)) m) k = (if P k then map_of m k else None)"
  by (induction m) auto

lemma filter_bt_insert:
  "bt_ok m \<Longrightarrow> filter (\<lambda>e. P (fst e)) (bt_insert k v m) =
     (if P k then bt_insert k v (filter (\<lambda>e. P (fst e)) m) else filter (\<lambda>e. P (fst e)) m)"
  by (rule bt_ok_ext) (auto simp: map_of_filter_key)

lemma set_bs_insert [simp]: "set (bs_insert k s) = insert k (set s)"
  by (induction k s rule: bs_insert.induct) auto

lemma sorted_bs_insert [simp]: "sorted_wrt (<) s \<Longrightarrow> sorted_wrt (<) (bs_insert k s)"
  by (induction k s rule: bs_insert.induct) auto

end
