(* ===== verification/Krc20.thy ===== *)
theory Krc20
  imports Ordered_Map
begin

text \<open>
  The legacy KRC-20 subsystem of \<open>kasgraph-detectors\<close>: the envelope parser of \<open>krc20.rs\<close> and the
  acceptance rules of \<open>krc20_ledger.rs\<close>. \<open>serde_json\<close> is not part of the repository: the function
  that deserialises a payload into the raw envelope is a parameter of the parser.
\<close>

section \<open>The envelope parser\<close>

datatype krc20_op =
    Deploy20 u64 u64
  | Mint20 u64
  | Transfer20 u64 string
  | Burn20 u64

record krc20_inscription =
  tick20 :: string
  tick_raw20 :: string
  op20 :: krc20_op

datatype krc20_parse = NotKrc20 | Malformed20 string | Valid20 krc20_inscription

record raw_envelope20 =
  env20_p :: "string option"
  env20_op :: "string option"
  env20_tick :: "string option"
  env20_max :: "string option"
  env20_lim :: "string option"
  env20_amt :: "string option"
  env20_to :: "string option"

definition parse_amount :: "string option \<Rightarrow> u64 option" where
  "parse_amount v =
     (case v of
        None \<Rightarrow> None
      | Some s \<Rightarrow> if s = [] \<or> \<not> list_all is_ascii_digit s then None else rust_parse_u64 s)"

definition parse_op20 :: "raw_envelope20 \<Rightarrow> string + krc20_op" where
  "parse_op20 env =
     (if env20_op env = Some ''deploy'' then
        (case parse_amount (env20_max env) of
           None \<Rightarrow> Inl ''deploy requires a numeric max''
         | Some mx \<Rightarrow>
             (case parse_amount (env20_lim env) of
                None \<Rightarrow> Inl ''deploy requires a numeric lim''
              | Some lim \<Rightarrow> Inr (Deploy20 mx lim)))
      else if env20_op env = Some ''mint'' then
        (case parse_amount (env20_amt env) of
           Some amt \<Rightarrow> Inr (Mint20 amt)
         | None \<Rightarrow> Inl ''mint requires a numeric amt'')
      else if env20_op env = Some ''transfer'' then
        (case parse_amount (env20_amt env) of
           None \<Rightarrow> Inl ''transfer requires a numeric amt''
         | Some amt \<Rightarrow>
             (case env20_to env of
                Some to \<Rightarrow> if to \<noteq> [] then Inr (Transfer20 amt to)
                           else Inl ''transfer requires a recipient''
              | None \<Rightarrow> Inl ''transfer requires a recipient''))
      else if env20_op env = Some ''burn'' then
        (case parse_amount (env20_amt env) of
           Some amt \<Rightarrow> Inr (Burn20 amt)
         | None \<Rightarrow> Inl ''burn requires a numeric amt'')
      else Inl ''unknown or missing op'')"

definition parse_envelope20 :: "raw_envelope20 \<Rightarrow> krc20_parse" where
  "parse_envelope20 env =
     (if env20_p env \<noteq> Some ''krc-20'' then NotKrc20
      else (case env20_tick env of
              None \<Rightarrow> Malformed20 ''missing tick''
            | Some tick_raw \<Rightarrow>
                if tick_raw = [] \<or> \<not> is_ascii tick_raw
                then Malformed20 ''tick must be non-empty ASCII''
                else (case parse_op20 env of
                        Inl reason \<Rightarrow> Malformed20 reason
                      | Inr op \<Rightarrow>
                          Valid20 \<lparr>tick20 = to_ascii_lowercase tick_raw,
                                   tick_raw20 = tick_raw, op20 = op\<rparr>)))"

definition parse_krc20_inscription ::
  "(u8 list \<Rightarrow> raw_envelope20 option) \<Rightarrow> u8 list \<Rightarrow> krc20_parse" where
  "parse_krc20_inscription from_slice payload =
     (case from_slice payload of
        None \<Rightarrow> NotKrc20
      | Some env \<Rightarrow> parse_envelope20 env)"

section \<open>The ledger\<close>

record token_state =
  tok_max :: u64
  tok_lim :: u64
  tok_minted :: u64
  tok_balances :: "(string \<times> u64) list"

datatype krc20_outcome = Accepted20 | Rejected20 string

text \<open>\<open>Krc20Ledger\<close>: its one field, the map from ticks to token states.\<close>

type_synonym krc20_ledger = "(string \<times> token_state) list"

definition new_krc20 :: krc20_ledger where
  "new_krc20 = []"

definition token :: "krc20_ledger \<Rightarrow> string \<Rightarrow> token_state option" where
  "token l tick = map_of l tick"

definition or_zero :: "u64 option \<Rightarrow> u64" where
  "or_zero b = (case b of None \<Rightarrow> 0 | Some v \<Rightarrow> v)"

definition balance_of :: "krc20_ledger \<Rightarrow> string \<Rightarrow> string \<Rightarrow> u64" where
  "balance_of l tick address =
     (case map_of l tick of
        None \<Rightarrow> 0
      | Some t \<Rightarrow> or_zero (map_of (tok_balances t) address))"

text \<open>\<open>*balances.entry(k).or_insert(0) += amt\<close>.\<close>

definition entry_add :: "string \<Rightarrow> u64 \<Rightarrow> (string \<times> u64) list \<Rightarrow> (string \<times> u64) list" where
  "entry_add k amt m = bt_insert k (or_zero (map_of m k) + amt) m"

definition debit :: "(string \<times> u64) list \<Rightarrow> string \<Rightarrow> u64 \<Rightarrow> (string \<times> u64) list" where
  "debit m address amt =
     (case map_of m address of
        None \<Rightarrow> m
      | Some balance \<Rightarrow>
          if balance - amt = 0 then bt_remove address m
          else bt_insert address (balance - amt) m)"

definition apply_deploy20 ::
  "krc20_ledger \<Rightarrow> string \<Rightarrow> u64 \<Rightarrow> u64 \<Rightarrow> krc20_ledger \<times> krc20_outcome" where
  "apply_deploy20 l tick mx lim =
     (if bt_contains l tick then (l, Rejected20 ''tick already deployed'')
      else (bt_insert tick
              \<lparr>tok_max = mx, tok_lim = lim, tok_minted = 0, tok_balances = []\<rparr> l, Accepted20))"

definition apply_mint20 ::
  "krc20_ledger \<Rightarrow> string \<Rightarrow> string \<Rightarrow> u64 \<Rightarrow> krc20_ledger \<times> krc20_outcome" where
  "apply_mint20 l tick sender amt =
     (case map_of l tick of
        None \<Rightarrow> (l, Rejected20 ''mint for undeployed tick'')
      | Some t \<Rightarrow>
          if tok_lim t < amt then (l, Rejected20 ''mint exceeds per-mint limit'')
          else (case checked_add (tok_minted t) amt of
                  None \<Rightarrow> (l, Rejected20 ''mint exceeds total supply cap'')
                | Some tot \<Rightarrow>
                    if tot \<le> tok_max t
                    then (bt_insert tick
                            (t\<lparr>tok_minted := tot,
                               tok_balances := entry_add sender amt (tok_balances t)\<rparr>) l,
                          Accepted20)
                    else (l, Rejected20 ''mint exceeds total supply cap'')))"

definition apply_transfer20 ::
  "krc20_ledger \<Rightarrow> string \<Rightarrow> string \<Rightarrow> string \<Rightarrow> u64 \<Rightarrow> krc20_ledger \<times> krc20_outcome" where
  "apply_transfer20 l tick sender to amt =
     (case map_of l tick of
        None \<Rightarrow> (l, Rejected20 ''transfer for undeployed tick'')
      | Some t \<Rightarrow>
          if or_zero (map_of (tok_balances t) sender) < amt
          then (l, Rejected20 ''transfer exceeds sender balance'')
          else (bt_insert tick
                  (t\<lparr>tok_balances :=
                       entry_add to amt (debit (tok_balances t) sender amt)\<rparr>) l, Accepted20))"

definition apply_burn20 ::
  "krc20_ledger \<Rightarrow> string \<Rightarrow> string \<Rightarrow> u64 \<Rightarrow> krc20_ledger \<times> krc20_outcome" where
  "apply_burn20 l tick sender amt =
     (case map_of l tick of
        None \<Rightarrow> (l, Rejected20 ''burn for undeployed tick'')
      | Some t \<Rightarrow>
          if or_zero (map_of (tok_balances t) sender) < amt
          then (l, Rejected20 ''burn exceeds sender balance'')
          else (bt_insert tick
                  (t\<lparr>tok_balances := debit (tok_balances t) sender amt,
                     tok_minted := u64_saturating_sub (tok_minted t) amt\<rparr>) l, Accepted20))"

text \<open>One operation of the stream is an inscription and the sender the node resolved for it.\<close>

fun apply20 ::
  "krc20_ledger \<Rightarrow> krc20_inscription \<times> string \<Rightarrow> krc20_ledger \<times> krc20_outcome" where
  "apply20 l (ins, sender) =
     (case op20 ins of
        Deploy20 mx lim \<Rightarrow> apply_deploy20 l (tick20 ins) mx lim
      | Mint20 amt \<Rightarrow> apply_mint20 l (tick20 ins) sender amt
      | Transfer20 amt to \<Rightarrow> apply_transfer20 l (tick20 ins) sender to amt
      | Burn20 amt \<Rightarrow> apply_burn20 l (tick20 ins) sender amt)"

definition replay20 :: "(krc20_inscription \<times> string) list \<Rightarrow> krc20_ledger" where
  "replay20 ops = run_ops apply20 new_krc20 ops"

definition accepted20 :: "krc20_outcome \<Rightarrow> bool" where
  "accepted20 r = (r = Accepted20)"

text \<open>The rows the ledger accepts out of a stream, in acceptance order.\<close>

definition journal20 :: "(krc20_inscription \<times> string) list \<Rightarrow> (krc20_inscription \<times> string) list" where
  "journal20 ops = journal apply20 accepted20 new_krc20 ops"

lemmas [state_defs] = apply_deploy20_def apply_mint20_def apply_transfer20_def apply_burn20_def

section \<open>Sums of balances\<close>

definition supply_of :: "(string \<times> u64) list \<Rightarrow> nat" where
  "supply_of m = sum_list (map (unat \<circ> snd) m)"

definition token_ok :: "token_state \<Rightarrow> bool" where
  "token_ok t \<longleftrightarrow> bt_ok (tok_balances t) \<and> supply_of (tok_balances t) = unat (tok_minted t) \<and>
     tok_minted t \<le> tok_max t"

definition ledger20_ok :: "krc20_ledger \<Rightarrow> bool" where
  "ledger20_ok l \<longleftrightarrow> bt_ok l \<and> list_all (\<lambda>e. token_ok (snd e)) l"

lemma supply_total: "supply_of m = bt.total unat m"
  by (simp add: supply_of_def bt.total_def)

lemma unat_or_zero: "unat (or_zero (map_of m k)) = bt.at unat m k"
  by (simp add: bt.at_def or_zero_def split: option.split)

lemma balance_le_supply: "bt_ok m \<Longrightarrow> unat (or_zero (map_of m k)) \<le> supply_of m"
  by (simp add: supply_total unat_or_zero bt.at_le_total)

lemma supply_insert:
  "bt_ok m \<Longrightarrow> supply_of (bt_insert k v m) + unat (or_zero (map_of m k)) = supply_of m + unat v"
  by (simp add: supply_total unat_or_zero bt.total_ins)

lemma supply_remove:
  "bt_ok m \<Longrightarrow> supply_of (bt_remove k m) + unat (or_zero (map_of m k)) = supply_of m"
  by (simp add: supply_total unat_or_zero bt.total_del)

lemma bt_ok_entry_add [simp]: "bt_ok m \<Longrightarrow> bt_ok (entry_add k amt m)"
  by (simp add: entry_add_def)

lemma bt_ok_debit [simp]: "bt_ok m \<Longrightarrow> bt_ok (debit m k amt)"
  by (simp add: debit_def split: option.split)

lemma or_zero_entry_add:
  "or_zero (map_of (entry_add k amt m) j) =
     (if j = k then or_zero (map_of m k) + amt else or_zero (map_of m j))"
  by (simp add: entry_add_def or_zero_def)

lemma or_zero_debit:
  "amt \<le> or_zero (map_of m k) \<Longrightarrow> or_zero (map_of (debit m k amt) j) =
     (if j = k then or_zero (map_of m k) - amt else or_zero (map_of m j))"
  by (auto simp: debit_def or_zero_def split: option.splits)

text \<open>An addition within the 64-bit range of the supply never wraps.\<close>

lemma supply_entry_add:
  assumes "bt_ok m" and "supply_of m + unat amt < 2 ^ 64"
  shows "supply_of (entry_add k amt m) = supply_of m + unat amt"
proof -
  have "unat (or_zero (map_of m k)) + unat amt < 2 ^ 64"
    using balance_le_supply [OF assms(1), of k] assms(2) by linarith
  then show ?thesis
    using supply_insert [OF assms(1), of k "or_zero (map_of m k) + amt"]
    by (simp add: entry_add_def unat_add_no_wrap)
qed

lemma supply_debit:
  assumes "bt_ok m" and "amt \<le> or_zero (map_of m k)"
  shows "supply_of (debit m k amt) + unat amt = supply_of m"
proof (cases "map_of m k")
  case None
  then show ?thesis using assms by (simp add: debit_def or_zero_def)
next
  case (Some b)
  have amt: "amt \<le> b" "unat amt \<le> unat b"
    using assms(2) Some by (simp_all add: or_zero_def word_le_nat_alt)
  show ?thesis
  proof (cases "b - amt = 0")
    case True
    then have "amt = b" by simp
    then show ?thesis
      using supply_remove [OF assms(1), of k] Some True by (simp add: debit_def or_zero_def)
  next
    case False
    then show ?thesis
      using supply_insert [OF assms(1), of k "b - amt"] Some amt
      by (simp add: debit_def or_zero_def unat_sub_no_wrap)
  qed
qed

section \<open>The invariant of the ledger\<close>

lemma ledger20_ok_get: "ledger20_ok l \<Longrightarrow> map_of l tick = Some t \<Longrightarrow> token_ok t"
  by (force simp: ledger20_ok_def list_all_iff dest: map_of_SomeD)

lemma ledger20_ok_insert: "ledger20_ok l \<Longrightarrow> token_ok t \<Longrightarrow> ledger20_ok (bt_insert tick t l)"
proof -
  have "list_all (\<lambda>e. token_ok (snd e)) l \<Longrightarrow> token_ok t \<Longrightarrow>
      list_all (\<lambda>e. token_ok (snd e)) (bt_insert tick t l)"
    by (induction tick t l rule: bt_insert.induct) auto
  then show "ledger20_ok l \<Longrightarrow> token_ok t \<Longrightarrow> ledger20_ok (bt_insert tick t l)"
    by (simp add: ledger20_ok_def)
qed

lemma token_ok_mint:
  assumes "token_ok t" "checked_add (tok_minted t) amt = Some tot" "tot \<le> tok_max t"
  shows "token_ok (t\<lparr>tok_minted := tot, tok_balances := entry_add k amt (tok_balances t)\<rparr>)"
proof -
  have "unat tot = unat (tok_minted t) + unat amt"
    using assms(2) by (rule checked_add_Some)
  then show ?thesis
    using assms u64_bound [of tot]
    by (simp add: token_ok_def supply_entry_add)
qed

lemma token_ok_transfer:
  assumes "token_ok t" "amt \<le> or_zero (map_of (tok_balances t) k)"
  shows "token_ok (t\<lparr>tok_balances := entry_add to amt (debit (tok_balances t) k amt)\<rparr>)"
proof -
  have "supply_of (debit (tok_balances t) k amt) + unat amt = unat (tok_minted t)"
    using assms by (simp add: token_ok_def supply_debit)
  then show ?thesis
    using assms u64_bound [of "tok_minted t"]
    by (simp add: token_ok_def supply_entry_add)
qed

lemma token_ok_burn:
  assumes "token_ok t" "amt \<le> or_zero (map_of (tok_balances t) k)"
  shows "token_ok (t\<lparr>tok_balances := debit (tok_balances t) k amt,
    tok_minted := u64_saturating_sub (tok_minted t) amt\<rparr>)"
proof -
  have "supply_of (debit (tok_balances t) k amt) + unat amt = unat (tok_minted t)"
    using assms by (simp add: token_ok_def supply_debit)
  then show ?thesis
    using assms unat_saturating_sub [of "tok_minted t" amt]
    by (simp add: token_ok_def word_le_nat_alt) linarith
qed

lemma ledger20_ok_apply: "ledger20_ok l \<Longrightarrow> ledger20_ok (fst (apply20 l x))"
  by (cases x)
    (auto simp: state_defs not_less bt_contains_def token_ok_def [of "\<lparr>tok_max = _, tok_lim = _, tok_minted = _, tok_balances = _\<rparr>"]
      supply_of_def dest: ledger20_ok_get
      intro!: ledger20_ok_insert token_ok_mint token_ok_transfer token_ok_burn
      split: krc20_op.split option.split)

interpretation krc20_ops: op_ledger apply20 accepted20 ledger20_ok
proof
  fix l :: krc20_ledger and x :: "krc20_inscription \<times> string"
  show "\<not> accepted20 (snd (apply20 l x)) \<Longrightarrow> fst (apply20 l x) = l"
    by (cases x) (auto simp: state_defs accepted20_def split: krc20_op.splits option.splits if_splits)
qed (rule ledger20_ok_apply)

lemma ledger20_ok_new [simp]: "ledger20_ok new_krc20"
  by (simp add: ledger20_ok_def new_krc20_def)

lemma ledger20_ok_replay [simp]: "ledger20_ok (replay20 ops)"
  by (simp add: replay20_def krc20_ops.inv_run)

section \<open>The specification: balances as numbers\<close>

text \<open>What the reference document promises, over unbounded numbers and total functions: no widths,
  no pruning, no map representation. \<open>abs20\<close> reads a ledger that way.\<close>

record spec_token =
  sp_max :: nat
  sp_lim :: nat
  sp_minted :: nat
  sp_bal :: "string \<Rightarrow> nat"

type_synonym spec_ledger = "string \<Rightarrow> spec_token option"

fun spec20_token :: "spec_token \<Rightarrow> krc20_op \<Rightarrow> string \<Rightarrow> spec_token option" where
  "spec20_token t (Deploy20 mx lim) sender = None"
| "spec20_token t (Mint20 amt) sender =
     (if unat amt \<le> sp_lim t \<and> sp_minted t + unat amt \<le> sp_max t
      then Some (t\<lparr>sp_minted := sp_minted t + unat amt,
                   sp_bal := (sp_bal t)(sender := sp_bal t sender + unat amt)\<rparr>)
      else None)"
| "spec20_token t (Transfer20 amt to) sender =
     (if unat amt \<le> sp_bal t sender
      then let b = (sp_bal t)(sender := sp_bal t sender - unat amt)
           in Some (t\<lparr>sp_bal := b(to := b to + unat amt)\<rparr>)
      else None)"
| "spec20_token t (Burn20 amt) sender =
     (if unat amt \<le> sp_bal t sender
      then Some (t\<lparr>sp_minted := sp_minted t - unat amt,
                   sp_bal := (sp_bal t)(sender := sp_bal t sender - unat amt)\<rparr>)
      else None)"

fun spec20 :: "spec_ledger \<Rightarrow> krc20_inscription \<times> string \<Rightarrow> spec_ledger \<times> bool" where
  "spec20 s (ins, sender) =
     (case s (tick20 ins) of
        None \<Rightarrow>
          (case op20 ins of
             Deploy20 mx lim \<Rightarrow>
               (s(tick20 ins \<mapsto> \<lparr>sp_max = unat mx, sp_lim = unat lim, sp_minted = 0,
                                  sp_bal = (\<lambda>_. 0)\<rparr>), True)
           | _ \<Rightarrow> (s, False))
      | Some t \<Rightarrow>
          (case spec20_token t (op20 ins) sender of
             Some t' \<Rightarrow> (s(tick20 ins \<mapsto> t'), True)
           | None \<Rightarrow> (s, False)))"

definition abs20_token :: "token_state \<Rightarrow> spec_token" where
  "abs20_token t = \<lparr>sp_max = unat (tok_max t), sp_lim = unat (tok_lim t),
     sp_minted = unat (tok_minted t), sp_bal = (\<lambda>a. unat (or_zero (map_of (tok_balances t) a)))\<rparr>"

definition abs20 :: "krc20_ledger \<Rightarrow> spec_ledger" where
  "abs20 l = (\<lambda>tick. map_option abs20_token (map_of l tick))"

lemma abs20_insert: "abs20 (bt_insert tick t l) = (abs20 l)(tick \<mapsto> abs20_token t)"
  by (auto simp: abs20_def)

lemma abs20_get: "abs20 l tick = map_option abs20_token (map_of l tick)"
  by (simp add: abs20_def)

lemma token_ok_max: "token_ok t \<Longrightarrow> unat (tok_minted t) \<le> unat (tok_max t)"
  by (simp add: token_ok_def word_le_nat_alt)

lemma abs20_mint:
  assumes "token_ok t" "checked_add (tok_minted t) amt = Some tot"
  shows "abs20_token (t\<lparr>tok_minted := tot, tok_balances := entry_add k amt (tok_balances t)\<rparr>) =
    (abs20_token t)\<lparr>sp_minted := unat (tok_minted t) + unat amt,
      sp_bal := (sp_bal (abs20_token t))(k := sp_bal (abs20_token t) k + unat amt)\<rparr>"
proof -
  have tot: "unat tot = unat (tok_minted t) + unat amt"
    using assms(2) by (rule checked_add_Some)
  moreover have "unat (or_zero (map_of (tok_balances t) k)) \<le> unat (tok_minted t)"
    using assms(1) balance_le_supply [of "tok_balances t" k] by (simp add: token_ok_def)
  ultimately have "unat (or_zero (map_of (tok_balances t) k)) + unat amt < 2 ^ 64"
    using u64_bound [of tot] by linarith
  then show ?thesis
    using tot by (auto simp: abs20_token_def or_zero_entry_add unat_add_no_wrap)
qed

lemma abs20_debit:
  assumes "amt \<le> or_zero (map_of m k)"
  shows "(\<lambda>a. unat (or_zero (map_of (debit m k amt) a))) =
    (\<lambda>a. unat (or_zero (map_of m a)))(k := unat (or_zero (map_of m k)) - unat amt)"
  using assms by (auto simp: or_zero_debit unat_sub_no_wrap)

lemma abs20_transfer:
  assumes "token_ok t" "amt \<le> or_zero (map_of (tok_balances t) k)"
  shows "abs20_token (t\<lparr>tok_balances := entry_add to amt (debit (tok_balances t) k amt)\<rparr>) =
    (let b = (sp_bal (abs20_token t))(k := sp_bal (abs20_token t) k - unat amt)
     in (abs20_token t)\<lparr>sp_bal := b(to := b to + unat amt)\<rparr>)"
proof -
  let ?d = "debit (tok_balances t) k amt"
  have ok: "bt_ok ?d" using assms(1) by (simp add: token_ok_def)
  have "supply_of ?d + unat amt = unat (tok_minted t)"
    using assms by (simp add: token_ok_def supply_debit)
  then have nw: "unat (or_zero (map_of ?d to)) + unat amt < 2 ^ 64"
    using balance_le_supply [OF ok, of to] u64_bound [of "tok_minted t"] by linarith
  have "(\<lambda>a. unat (or_zero (map_of (entry_add to amt ?d) a))) =
    (\<lambda>a. unat (or_zero (map_of ?d a)))(to := unat (or_zero (map_of ?d to)) + unat amt)"
    using nw by (auto simp: or_zero_entry_add unat_add_no_wrap)
  then show ?thesis
    using abs20_debit [OF assms(2)]
    by (simp add: abs20_token_def Let_def fun_eq_iff)
qed

lemma abs20_burn:
  assumes "amt \<le> or_zero (map_of (tok_balances t) k)"
  shows "abs20_token (t\<lparr>tok_balances := debit (tok_balances t) k amt,
      tok_minted := u64_saturating_sub (tok_minted t) amt\<rparr>) =
    (abs20_token t)\<lparr>sp_minted := sp_minted (abs20_token t) - unat amt,
      sp_bal := (sp_bal (abs20_token t))(k := sp_bal (abs20_token t) k - unat amt)\<rparr>"
  using abs20_debit [OF assms] by (simp add: abs20_token_def unat_saturating_sub)

lemma abs20_bal: "unat amt \<le> sp_bal (abs20_token t) k \<longleftrightarrow> amt \<le> or_zero (map_of (tok_balances t) k)"
  by (simp add: abs20_token_def word_le_nat_alt)

lemma abs20_simps:
  "sp_lim (abs20_token t) = unat (tok_lim t)" "sp_max (abs20_token t) = unat (tok_max t)"
  "sp_minted (abs20_token t) = unat (tok_minted t)"
  by (simp_all add: abs20_token_def)

lemma spec20_transfer:
  assumes "token_ok t"
  shows "spec20_token (abs20_token t) (Transfer20 amt to) k =
    (if or_zero (map_of (tok_balances t) k) < amt then None
     else Some (abs20_token
       (t\<lparr>tok_balances := entry_add to amt (debit (tok_balances t) k amt)\<rparr>)))"
proof (cases "or_zero (map_of (tok_balances t) k) < amt")
  case True
  then show ?thesis by (simp add: abs20_bal not_le)
next
  case False
  then have "amt \<le> or_zero (map_of (tok_balances t) k)" by simp
  from abs20_transfer [OF assms this, of to] False show ?thesis
    by (simp add: abs20_bal not_less Let_def)
qed

lemma refines_mint20:
  assumes "ledger20_ok l" "op20 ins = Mint20 amt"
  shows "spec20 (abs20 l) (ins, sender) =
    (abs20 (fst (apply20 l (ins, sender))), accepted20 (snd (apply20 l (ins, sender))))"
proof (cases "map_of l (tick20 ins)")
  case None
  then show ?thesis using assms by (simp add: abs20_get state_defs accepted20_def)
next
  case (Some t)
  have ok: "token_ok t" using assms(1) Some by (rule ledger20_ok_get)
  show ?thesis
  proof (cases "checked_add (tok_minted t) amt")
    case None
    then have "2 ^ 64 \<le> unat (tok_minted t) + unat amt"
      by (simp only: checked_add_None_iff)
    then have "\<not> unat (tok_minted t) + unat amt \<le> unat (tok_max t)"
      using u64_bound [of "tok_max t"] by linarith
    then show ?thesis
      using Some None assms(2) by (simp add: abs20_get state_defs accepted20_def abs20_simps)
  next
    case (Some tot)
    have tot: "unat tot = unat (tok_minted t) + unat amt"
      using Some by (rule checked_add_Some)
    show ?thesis
      using \<open>map_of l (tick20 ins) = Some t\<close> Some assms(2) abs20_mint [OF ok Some, of sender] tot
      by (simp add: abs20_get state_defs accepted20_def abs20_simps abs20_insert word_le_nat_alt
          word_less_nat_alt)
  qed
qed

lemma refines_apply20:
  assumes "ledger20_ok l"
  shows "spec20 (abs20 l) x = (abs20 (fst (apply20 l x)), accepted20 (snd (apply20 l x)))"
proof -
  obtain ins sender where x: "x = (ins, sender)" by (cases x)
  show ?thesis
  proof (cases "op20 ins")
    case (Deploy20 mx lim)
    then show ?thesis
      by (auto simp: x abs20_get state_defs bt_contains_def accepted20_def abs20_insert
          abs20_token_def or_zero_def split: option.split)
  next
    case (Mint20 amt)
    then show ?thesis unfolding x by (rule refines_mint20 [OF assms])
  next
    case (Transfer20 amt to)
    then show ?thesis
      using ledger20_ok_get [OF assms, of "tick20 ins"]
      by (auto simp: x abs20_get state_defs accepted20_def abs20_insert spec20_transfer
          simp del: spec20_token.simps split: option.split)
  next
    case (Burn20 amt)
    then show ?thesis
      by (auto simp: x abs20_get state_defs accepted20_def abs20_insert abs20_bal not_less
          abs20_burn split: option.split)
  qed
qed

section \<open>Streams\<close>

lemma apply20_other: "tick \<noteq> tick20 (fst x) \<Longrightarrow> map_of (fst (apply20 l x)) tick = map_of l tick"
  by (cases x) (auto simp: state_defs split: krc20_op.split option.split)

text \<open>An operation reads and writes the entry of its own tick only.\<close>

lemma apply20_local:
  assumes "map_of l (tick20 (fst x)) = map_of k (tick20 (fst x))"
  shows "map_of (fst (apply20 l x)) (tick20 (fst x)) = map_of (fst (apply20 k x)) (tick20 (fst x))"
  using assms
  by (cases x) (auto simp: state_defs bt_contains_def split: krc20_op.split option.split)

lemma run20_projection:
  assumes "map_of l tick = map_of k tick"
  shows "map_of (run_ops apply20 l ops) tick =
    map_of (run_ops apply20 k (filter (\<lambda>x. tick20 (fst x) = tick) ops)) tick"
  using assms
proof (induction ops arbitrary: l k)
  case (Cons x ops)
  show ?case
  proof (cases "tick20 (fst x) = tick")
    case True
    then show ?thesis
      using Cons.prems Cons.IH [of "fst (apply20 l x)" "fst (apply20 k x)"]
        apply20_local [of l x k]
      by simp
  next
    case False
    then show ?thesis
      using Cons.prems Cons.IH [of "fst (apply20 l x)" k] by (simp add: apply20_other)
  qed
qed simp

lemma replay20_interleaving:
  assumes "\<And>tick. filter (\<lambda>x. tick20 (fst x) = tick) xs = filter (\<lambda>x. tick20 (fst x) = tick) ys"
  shows "replay20 xs = replay20 ys"
proof (rule bt_ok_ext)
  show "bt_ok (replay20 xs)" "bt_ok (replay20 ys)"
    using ledger20_ok_replay by (simp_all add: ledger20_ok_def)
  show "map_of (replay20 xs) = map_of (replay20 ys)"
  proof
    fix tick
    show "map_of (replay20 xs) tick = map_of (replay20 ys) tick"
      using run20_projection [OF refl, of new_krc20 xs tick]
        run20_projection [OF refl, of new_krc20 ys tick] assms [of tick]
      by (simp add: replay20_def)
  qed
qed

lemma apply20_keeps_terms:
  assumes "map_of l tick = Some t"
  shows "\<exists>t'. map_of (fst (apply20 l x)) tick = Some t' \<and>
    tok_max t' = tok_max t \<and> tok_lim t' = tok_lim t"
  using assms
  by (cases x) (auto simp: state_defs bt_contains_def split: krc20_op.split option.split)

lemma run20_keeps_terms:
  assumes "map_of l tick = Some t"
  shows "\<exists>t'. map_of (run_ops apply20 l ops) tick = Some t' \<and>
    tok_max t' = tok_max t \<and> tok_lim t' = tok_lim t"
  using assms
proof (induction ops arbitrary: l t)
  case (Cons x ops)
  obtain t' where "map_of (fst (apply20 l x)) tick = Some t'"
    "tok_max t' = tok_max t" "tok_lim t' = tok_lim t"
    using apply20_keeps_terms [OF Cons.prems, of x] by auto
  with Cons.IH [of "fst (apply20 l x)" t'] show ?case by auto
qed simp

definition spec_run20 :: "(krc20_inscription \<times> string) list \<Rightarrow> spec_ledger" where
  "spec_run20 ops = run_ops spec20 Map.empty ops"

definition spec_journal20 ::
  "(krc20_inscription \<times> string) list \<Rightarrow> (krc20_inscription \<times> string) list" where
  "spec_journal20 ops = journal spec20 (\<lambda>b. b) Map.empty ops"

lemma refines_run20:
  "ledger20_ok l \<Longrightarrow> run_ops spec20 (abs20 l) ops = abs20 (run_ops apply20 l ops) \<and>
    journal spec20 (\<lambda>b. b) (abs20 l) ops = journal apply20 accepted20 l ops"
  by (induction ops arbitrary: l) (auto simp: refines_apply20 ledger20_ok_apply simp del: spec20.simps apply20.simps)

section \<open>Parsing\<close>

text \<open>The inscription an envelope denotes, as a relation: the fields each operation needs.\<close>

inductive denotes20 :: "raw_envelope20 \<Rightarrow> krc20_op \<Rightarrow> bool" for env where
  "env20_op env = Some ''deploy'' \<Longrightarrow> parse_amount (env20_max env) = Some mx \<Longrightarrow>
     parse_amount (env20_lim env) = Some lim \<Longrightarrow> denotes20 env (Deploy20 mx lim)"
| "env20_op env = Some ''mint'' \<Longrightarrow> parse_amount (env20_amt env) = Some amt \<Longrightarrow>
     denotes20 env (Mint20 amt)"
| "env20_op env = Some ''transfer'' \<Longrightarrow> parse_amount (env20_amt env) = Some amt \<Longrightarrow>
     env20_to env = Some to \<Longrightarrow> to \<noteq> [] \<Longrightarrow> denotes20 env (Transfer20 amt to)"
| "env20_op env = Some ''burn'' \<Longrightarrow> parse_amount (env20_amt env) = Some amt \<Longrightarrow>
     denotes20 env (Burn20 amt)"

inductive_simps denotes20_simps:
  "denotes20 env (Deploy20 mx lim)" "denotes20 env (Mint20 amt)"
  "denotes20 env (Transfer20 amt to)" "denotes20 env (Burn20 amt)"

lemma parse_op20_iff: "parse_op20 env = Inr op \<longleftrightarrow> denotes20 env op"
  by (cases op)
    (auto simp: parse_op20_def denotes20_simps split: option.splits if_splits)

text \<open>Lower-casing is idempotent, so the canonical tick of an inscription is a fixed point.\<close>

lemma to_ascii_lowercase_idem [simp]:
  "to_ascii_lowercase (to_ascii_lowercase s) = to_ascii_lowercase s"
proof -
  have "char_to_ascii_lowercase (char_to_ascii_lowercase c) = char_to_ascii_lowercase c" for c
  proof (cases "is_ascii_uppercase c")
    case True
    then have "65 \<le> (of_char c :: nat)" "(of_char c :: nat) \<le> 90"
      by (simp_all add: is_ascii_uppercase_def less_eq_char_def)
    then show ?thesis
      by (auto simp: char_to_ascii_lowercase_def is_ascii_uppercase_def less_eq_char_def)
  qed (simp add: char_to_ascii_lowercase_def)
  then show ?thesis by (simp add: to_ascii_lowercase_def)
qed

section \<open>Properties\<close>

definition sample_ops20 :: "(krc20_inscription \<times> string) list" where
  "sample_ops20 =
     [(\<lparr>tick20 = ''kas'', tick_raw20 = ''KAS'', op20 = Deploy20 100 60\<rparr>, ''d''),
      (\<lparr>tick20 = ''kas'', tick_raw20 = ''kas'', op20 = Mint20 50\<rparr>, ''a''),
      (\<lparr>tick20 = ''kas'', tick_raw20 = ''kas'', op20 = Mint20 60\<rparr>, ''b''),
      (\<lparr>tick20 = ''kas'', tick_raw20 = ''kas'', op20 = Transfer20 20 ''b''\<rparr>, ''a''),
      (\<lparr>tick20 = ''kas'', tick_raw20 = ''kas'', op20 = Burn20 20\<rparr>, ''b'')]"

text \<open>C8: the ledger the code keeps (64-bit words, pruned ordered maps, checked and saturating
  arithmetic) computes exactly what the acceptance rules say over unbounded numbers: after every
  stream of operations, whatever it holds, the state read as numbers is the specification's state,
  and the operations accepted are the ones the specification accepts.\<close>

theorem krc20_refines_spec:
  "spec_run20 ops = abs20 (replay20 ops) \<and> spec_journal20 ops = journal20 ops"
proof -
  have "abs20 new_krc20 = Map.empty"
    by (auto simp: abs20_def new_krc20_def)
  with refines_run20 [OF ledger20_ok_new, of ops] show ?thesis
    by (simp add: spec_run20_def spec_journal20_def replay20_def journal20_def)
qed

text \<open>C10: supply is conserved. After every stream, the balances of each deployed tick sum to its
  \<open>minted\<close> exactly, \<open>minted\<close> never exceeds the deployed maximum, and no holder is listed twice.\<close>

theorem krc20_supply_conserved:
  assumes "token (replay20 ops) tick = Some t"
  shows "supply_of (tok_balances t) = unat (tok_minted t) \<and> unat (tok_minted t) \<le> unat (tok_max t) \<and>
    distinct (map fst (tok_balances t))"
  using ledger20_ok_get [OF ledger20_ok_replay, of ops tick t] assms
  by (simp add: token_def token_ok_def bt_ok_distinct word_le_nat_alt)

lemma krc20_supply_conserved_witness:
  "\<exists>t. token (replay20 sample_ops20) ''kas'' = Some t \<and> unat (tok_minted t) = 30 \<and>
    supply_of (tok_balances t) = unat (tok_minted t) \<and> unat (tok_minted t) \<le> unat (tok_max t) \<and>
    distinct (map fst (tok_balances t))"
proof -
  have "token (replay20 sample_ops20) ''kas'' = Some \<lparr>tok_max = 100, tok_lim = 60, tok_minted = 30,
      tok_balances = [(''a'', 30)]\<rparr>"
    by code_simp
  from krc20_supply_conserved [OF this] this show ?thesis by auto
qed

text \<open>The journal is a faithful log. Replaying the accepted operations rebuilds the ledger the
  full stream built, and after a reorganisation deletes any suffix of the journal, every surviving
  row is accepted again, in order.\<close>

theorem krc20_journal_replay:
  "replay20 (journal20 ops) = replay20 ops \<and> journal20 (take n (journal20 ops)) = take n (journal20 ops)"
  using krc20_ops.run_journal [of new_krc20 ops]
    krc20_ops.journal_prefix [of new_krc20 ops "take n (journal20 ops)" "drop n (journal20 ops)"]
  by (simp add: replay20_def journal20_def)

text \<open>C30: ticks do not interfere. Two streams that agree on the operations of every tick build the
  same ledger, however the operations of different ticks interleave.\<close>

theorem krc20_interleaving:
  assumes "\<And>tick. filter (\<lambda>x. tick20 (fst x) = tick) xs = filter (\<lambda>x. tick20 (fst x) = tick) ys"
  shows "replay20 xs = replay20 ys"
  by (rule replay20_interleaving) (rule assms)

lemma krc20_interleaving_witness:
  "replay20 [(\<lparr>tick20 = ''x'', tick_raw20 = ''x'', op20 = Deploy20 9 9\<rparr>, ''a''),
             (\<lparr>tick20 = ''y'', tick_raw20 = ''y'', op20 = Deploy20 5 5\<rparr>, ''b'')] =
   replay20 [(\<lparr>tick20 = ''y'', tick_raw20 = ''y'', op20 = Deploy20 5 5\<rparr>, ''b''),
             (\<lparr>tick20 = ''x'', tick_raw20 = ''x'', op20 = Deploy20 9 9\<rparr>, ''a'')]"
  by (rule krc20_interleaving) auto

text \<open>A deployment is final. Once a tick is deployed, no later stream removes it or changes its
  supply cap or its per-mint cap.\<close>

theorem krc20_deploy_final:
  assumes "token (replay20 ops) tick = Some t"
  shows "\<exists>t'. token (replay20 (ops @ later)) tick = Some t' \<and>
    tok_max t' = tok_max t \<and> tok_lim t' = tok_lim t"
  using run20_keeps_terms [of "replay20 ops" tick t later] assms
  by (simp add: replay20_def token_def run_ops_append)

lemma krc20_deploy_final_witness:
  "\<exists>t'. token (replay20 (take 1 sample_ops20 @ drop 1 sample_ops20)) ''kas'' = Some t' \<and>
    tok_max t' = 100 \<and> tok_lim t' = 60"
proof -
  have "token (replay20 (take 1 sample_ops20)) ''kas'' = Some \<lparr>tok_max = 100, tok_lim = 60,
      tok_minted = 0, tok_balances = []\<rparr>"
    by code_simp
  from krc20_deploy_final [OF this, of "drop 1 sample_ops20"] show ?thesis by simp
qed

text \<open>A payload is a valid inscription exactly when it deserialises to an envelope tagged
  \<open>krc-20\<close> with a non-empty ASCII tick and the well-formed fields its operation needs; the ledger
  key is then the lower-cased tick.\<close>

theorem krc20_parse_valid_iff:
  "parse_krc20_inscription from_slice payload = Valid20 ins \<longleftrightarrow>
    (\<exists>env. from_slice payload = Some env \<and> env20_p env = Some ''krc-20'' \<and>
       env20_tick env = Some (tick_raw20 ins) \<and> tick_raw20 ins \<noteq> [] \<and> is_ascii (tick_raw20 ins) \<and>
       tick20 ins = to_ascii_lowercase (tick_raw20 ins) \<and> denotes20 env (op20 ins))"
proof -
  have "parse_envelope20 env = Valid20 ins \<longleftrightarrow> env20_p env = Some ''krc-20'' \<and>
      env20_tick env = Some (tick_raw20 ins) \<and> tick_raw20 ins \<noteq> [] \<and> is_ascii (tick_raw20 ins) \<and>
      tick20 ins = to_ascii_lowercase (tick_raw20 ins) \<and> denotes20 env (op20 ins)" for env
    by (cases ins)
      (auto simp: parse_envelope20_def parse_op20_iff [symmetric] split: option.split sum.split)
  then show ?thesis
    by (auto simp: parse_krc20_inscription_def split: option.split)
qed

end
