(* ===== verification/Krc721.thy ===== *)
theory Krc721
  imports Krc20
begin

text \<open>
  The legacy KRC-721 subsystem of \<open>kasgraph-detectors\<close>: the envelope parser of \<open>krc721.rs\<close> and the
  ownership rules of \<open>krc721_ledger.rs\<close>. As for KRC-20, deserialising a payload into the raw
  envelope is a parameter.
\<close>

section \<open>The envelope parser\<close>

datatype krc721_op =
    Deploy721 u64
  | Mint721 u64 string
  | Transfer721 u64 string
  | Burn721 u64

record krc721_inscription =
  tick721 :: string
  tick_raw721 :: string
  op721 :: krc721_op

datatype krc721_parse = NotKrc721 | Malformed721 string | Valid721 krc721_inscription

record raw_envelope721 =
  env721_p :: "string option"
  env721_op :: "string option"
  env721_tick :: "string option"
  env721_max :: "string option"
  env721_id :: "string option"
  env721_uri :: "string option"
  env721_to :: "string option"

text \<open>The file has its own copy of the digit check, \<open>parse_u64\<close>.\<close>

definition parse_u64_721 :: "string option \<Rightarrow> u64 option" where
  "parse_u64_721 v =
     (case v of
        None \<Rightarrow> None
      | Some s \<Rightarrow> if s = [] \<or> \<not> list_all is_ascii_digit s then None else rust_parse_u64 s)"

definition parse_op721 :: "raw_envelope721 \<Rightarrow> string + krc721_op" where
  "parse_op721 env =
     (if env721_op env = Some ''deploy'' then
        (case parse_u64_721 (env721_max env) of
           Some mx \<Rightarrow> Inr (Deploy721 mx)
         | None \<Rightarrow> Inl ''deploy requires a numeric max'')
      else if env721_op env = Some ''mint'' then
        (case parse_u64_721 (env721_id env) of
           None \<Rightarrow> Inl ''mint requires a numeric id''
         | Some i \<Rightarrow>
             (case env721_uri env of
                Some uri \<Rightarrow> if uri \<noteq> [] then Inr (Mint721 i uri)
                            else Inl ''mint requires a metadata uri''
              | None \<Rightarrow> Inl ''mint requires a metadata uri''))
      else if env721_op env = Some ''transfer'' then
        (case parse_u64_721 (env721_id env) of
           None \<Rightarrow> Inl ''transfer requires a numeric id''
         | Some i \<Rightarrow>
             (case env721_to env of
                Some to \<Rightarrow> if to \<noteq> [] then Inr (Transfer721 i to)
                           else Inl ''transfer requires a recipient''
              | None \<Rightarrow> Inl ''transfer requires a recipient''))
      else if env721_op env = Some ''burn'' then
        (case parse_u64_721 (env721_id env) of
           Some i \<Rightarrow> Inr (Burn721 i)
         | None \<Rightarrow> Inl ''burn requires a numeric id'')
      else Inl ''unknown or missing op'')"

definition parse_envelope721 :: "raw_envelope721 \<Rightarrow> krc721_parse" where
  "parse_envelope721 env =
     (if env721_p env \<noteq> Some ''krc-721'' then NotKrc721
      else (case env721_tick env of
              None \<Rightarrow> Malformed721 ''missing tick''
            | Some tick_raw \<Rightarrow>
                if tick_raw = [] \<or> \<not> is_ascii tick_raw
                then Malformed721 ''tick must be non-empty ASCII''
                else (case parse_op721 env of
                        Inl reason \<Rightarrow> Malformed721 reason
                      | Inr op \<Rightarrow>
                          Valid721 \<lparr>tick721 = to_ascii_lowercase tick_raw,
                                    tick_raw721 = tick_raw, op721 = op\<rparr>)))"

definition parse_krc721_inscription ::
  "(u8 list \<Rightarrow> raw_envelope721 option) \<Rightarrow> u8 list \<Rightarrow> krc721_parse" where
  "parse_krc721_inscription from_slice payload =
     (case from_slice payload of
        None \<Rightarrow> NotKrc721
      | Some env \<Rightarrow> parse_envelope721 env)"

section \<open>The ledger\<close>

record collection_state =
  col_max :: u64
  col_owners :: "(u64 \<times> string) list"
  col_minted :: "u64 list"

datatype krc721_outcome = Accepted721 | Rejected721 string

text \<open>\<open>Krc721Ledger\<close>: its one field, the map from ticks to collections.\<close>

type_synonym krc721_ledger = "(string \<times> collection_state) list"

definition new_krc721 :: krc721_ledger where
  "new_krc721 = []"

definition collection :: "krc721_ledger \<Rightarrow> string \<Rightarrow> collection_state option" where
  "collection l tick = map_of l tick"

definition owner_of :: "krc721_ledger \<Rightarrow> string \<Rightarrow> u64 \<Rightarrow> string option" where
  "owner_of l tick i =
     (case map_of l tick of None \<Rightarrow> None | Some c \<Rightarrow> map_of (col_owners c) i)"

definition apply_deploy721 :: "krc721_ledger \<Rightarrow> string \<Rightarrow> u64 \<Rightarrow> krc721_ledger \<times> krc721_outcome" where
  "apply_deploy721 l tick mx =
     (if bt_contains l tick then (l, Rejected721 ''collection already deployed'')
      else (bt_insert tick \<lparr>col_max = mx, col_owners = [], col_minted = []\<rparr> l, Accepted721))"

definition apply_mint721 ::
  "krc721_ledger \<Rightarrow> string \<Rightarrow> string \<Rightarrow> u64 \<Rightarrow> krc721_ledger \<times> krc721_outcome" where
  "apply_mint721 l tick sender i =
     (case map_of l tick of
        None \<Rightarrow> (l, Rejected721 ''mint for undeployed collection'')
      | Some c \<Rightarrow>
          if col_max c \<le> i then (l, Rejected721 ''token id outside collection size'')
          else if i \<in> set (col_minted c) then (l, Rejected721 ''token id already minted'')
          else (bt_insert tick
                  (c\<lparr>col_minted := bs_insert i (col_minted c),
                     col_owners := bt_insert i sender (col_owners c)\<rparr>) l, Accepted721))"

definition apply_transfer721 ::
  "krc721_ledger \<Rightarrow> string \<Rightarrow> string \<Rightarrow> string \<Rightarrow> u64 \<Rightarrow> krc721_ledger \<times> krc721_outcome" where
  "apply_transfer721 l tick sender to i =
     (case map_of l tick of
        None \<Rightarrow> (l, Rejected721 ''transfer for undeployed collection'')
      | Some c \<Rightarrow>
          if map_of (col_owners c) i = Some sender
          then (bt_insert tick (c\<lparr>col_owners := bt_insert i to (col_owners c)\<rparr>) l, Accepted721)
          else (l, Rejected721 ''transfer of a token the sender does not own''))"

definition apply_burn721 ::
  "krc721_ledger \<Rightarrow> string \<Rightarrow> string \<Rightarrow> u64 \<Rightarrow> krc721_ledger \<times> krc721_outcome" where
  "apply_burn721 l tick sender i =
     (case map_of l tick of
        None \<Rightarrow> (l, Rejected721 ''burn for undeployed collection'')
      | Some c \<Rightarrow>
          if map_of (col_owners c) i = Some sender
          then (bt_insert tick (c\<lparr>col_owners := bt_remove i (col_owners c)\<rparr>) l, Accepted721)
          else (l, Rejected721 ''burn of a token the sender does not own''))"

fun apply721 ::
  "krc721_ledger \<Rightarrow> krc721_inscription \<times> string \<Rightarrow> krc721_ledger \<times> krc721_outcome" where
  "apply721 l (ins, sender) =
     (case op721 ins of
        Deploy721 mx \<Rightarrow> apply_deploy721 l (tick721 ins) mx
      | Mint721 i uri \<Rightarrow> apply_mint721 l (tick721 ins) sender i
      | Transfer721 i to \<Rightarrow> apply_transfer721 l (tick721 ins) sender to i
      | Burn721 i \<Rightarrow> apply_burn721 l (tick721 ins) sender i)"

definition replay721 :: "(krc721_inscription \<times> string) list \<Rightarrow> krc721_ledger" where
  "replay721 ops = run_ops apply721 new_krc721 ops"

definition accepted721 :: "krc721_outcome \<Rightarrow> bool" where
  "accepted721 r = (r = Accepted721)"

definition journal721 ::
  "(krc721_inscription \<times> string) list \<Rightarrow> (krc721_inscription \<times> string) list" where
  "journal721 ops = journal apply721 accepted721 new_krc721 ops"

lemmas [state_defs] =
  apply_deploy721_def apply_mint721_def apply_transfer721_def apply_burn721_def

section \<open>The invariant\<close>

definition collection_ok :: "collection_state \<Rightarrow> bool" where
  "collection_ok c \<longleftrightarrow> bt_ok (col_owners c) \<and> sorted_wrt (<) (col_minted c) \<and>
     fst ` set (col_owners c) \<subseteq> set (col_minted c) \<and> (\<forall>i \<in> set (col_minted c). i < col_max c)"

definition ledger721_ok :: "krc721_ledger \<Rightarrow> bool" where
  "ledger721_ok l \<longleftrightarrow> bt_ok l \<and> list_all (\<lambda>e. collection_ok (snd e)) l"

lemma ledger721_ok_get: "ledger721_ok l \<Longrightarrow> map_of l tick = Some c \<Longrightarrow> collection_ok c"
  by (force simp: ledger721_ok_def list_all_iff dest: map_of_SomeD)

lemma list_all_bt_insert:
  "list_all (\<lambda>e. P (snd e)) m \<Longrightarrow> P v \<Longrightarrow> list_all (\<lambda>e. P (snd e)) (bt_insert k v m)"
  by (induction k v m rule: bt_insert.induct) auto

lemma ledger721_ok_insert:
  "ledger721_ok l \<Longrightarrow> collection_ok c \<Longrightarrow> ledger721_ok (bt_insert tick c l)"
  by (simp add: ledger721_ok_def list_all_bt_insert)

lemma map_of_key: "map_of m k = Some v \<Longrightarrow> k \<in> fst ` set m"
  by (force dest: map_of_SomeD)

lemma collection_ok_mint:
  "collection_ok c \<Longrightarrow> i < col_max c \<Longrightarrow>
    collection_ok (c\<lparr>col_minted := bs_insert i (col_minted c),
      col_owners := bt_insert i s (col_owners c)\<rparr>)"
  by (auto simp: collection_ok_def)

lemma collection_ok_transfer:
  "collection_ok c \<Longrightarrow> map_of (col_owners c) i = Some s \<Longrightarrow>
    collection_ok (c\<lparr>col_owners := bt_insert i to (col_owners c)\<rparr>)"
  by (auto simp: collection_ok_def dest: map_of_key)

lemma collection_ok_burn:
  "collection_ok c \<Longrightarrow> collection_ok (c\<lparr>col_owners := bt_remove i (col_owners c)\<rparr>)"
  by (auto simp: collection_ok_def bt_remove_def)

lemma ledger721_ok_apply: "ledger721_ok l \<Longrightarrow> ledger721_ok (fst (apply721 l x))"
  by (cases x)
    (auto simp: state_defs not_le bt_contains_def
      collection_ok_def [of "\<lparr>col_max = _, col_owners = _, col_minted = _\<rparr>"] dest: ledger721_ok_get
      intro!: ledger721_ok_insert collection_ok_mint collection_ok_transfer collection_ok_burn
      split: krc721_op.split option.split)

interpretation krc721_ops: op_ledger apply721 accepted721 ledger721_ok
proof
  fix l :: krc721_ledger and x :: "krc721_inscription \<times> string"
  show "\<not> accepted721 (snd (apply721 l x)) \<Longrightarrow> fst (apply721 l x) = l"
    by (cases x) (auto simp: state_defs accepted721_def split: krc721_op.splits option.splits if_splits)
qed (rule ledger721_ok_apply)

lemma ledger721_ok_replay [simp]: "ledger721_ok (replay721 ops)"
  unfolding replay721_def
  by (rule krc721_ops.inv_run) (simp add: ledger721_ok_def new_krc721_def)

section \<open>Token histories\<close>

text \<open>What happens to one token over a stream: how often it is minted, and by whom it is held,
  read off the accepted operations alone.\<close>

definition mints_of :: "string \<Rightarrow> u64 \<Rightarrow> (krc721_inscription \<times> string) list \<Rightarrow> nat" where
  "mints_of tick i ops =
     length (filter (\<lambda>x. tick721 (fst x) = tick \<and> (\<exists>uri. op721 (fst x) = Mint721 i uri)) ops)"

fun holder :: "string \<Rightarrow> u64 \<Rightarrow> string option \<Rightarrow> (krc721_inscription \<times> string) list \<Rightarrow> string option" where
  "holder tick i h [] = h"
| "holder tick i h ((ins, sender) # xs) =
     holder tick i
       (if tick721 ins \<noteq> tick then h
        else (case op721 ins of
                Mint721 j uri \<Rightarrow> if j = i then Some sender else h
              | Transfer721 j to \<Rightarrow> if j = i then Some to else h
              | Burn721 j \<Rightarrow> if j = i then None else h
              | Deploy721 mx \<Rightarrow> h)) xs"

definition was_minted :: "krc721_ledger \<Rightarrow> string \<Rightarrow> u64 \<Rightarrow> bool" where
  "was_minted l tick i =
     (case map_of l tick of None \<Rightarrow> False | Some c \<Rightarrow> i \<in> set (col_minted c))"

lemma was_minted_apply:
  "was_minted l tick i \<Longrightarrow> was_minted (fst (apply721 l x)) tick i"
  by (cases x)
    (auto simp: was_minted_def state_defs bt_contains_def split: krc721_op.split option.splits)

lemma accepted_mint_fresh:
  assumes "accepted721 (snd (apply721 l (ins, sender)))" "op721 ins = Mint721 i uri"
  shows "\<not> was_minted l (tick721 ins) i" "was_minted (fst (apply721 l (ins, sender))) (tick721 ins) i"
  using assms
  by (auto simp: was_minted_def state_defs accepted721_def split: option.splits if_splits)

lemma mints_of_journal:
  "mints_of tick i (journal apply721 accepted721 l ops) \<le> (if was_minted l tick i then 0 else 1)"
proof (induction ops arbitrary: l)
  case Nil
  show ?case by (simp add: mints_of_def)
next
  case (Cons x ops)
  obtain ins sender where x: "x = (ins, sender)" by (cases x)
  let ?l = "fst (apply721 l x)"
  have mono: "was_minted l tick i \<Longrightarrow> was_minted ?l tick i" by (rule was_minted_apply)
  show ?case
  proof (cases "accepted721 (snd (apply721 l x)) \<and> tick721 ins = tick \<and> (\<exists>uri. op721 ins = Mint721 i uri)")
    case True
    then obtain uri where acc: "accepted721 (snd (apply721 l (ins, sender)))"
      and op: "op721 ins = Mint721 i uri" and t: "tick721 ins = tick"
      by (auto simp: x)
    note fresh = accepted_mint_fresh [OF acc op]
    show ?thesis
      using Cons.IH [of ?l] fresh op acc t by (simp add: x mints_of_def)
  next
    case False
    then show ?thesis
      using Cons.IH [of ?l] mono by (auto simp: x mints_of_def split: if_splits)
  qed
qed

lemma owner_of_apply:
  "owner_of (fst (apply721 l (ins, sender))) tick i =
     (if accepted721 (snd (apply721 l (ins, sender))) then holder tick i (owner_of l tick i) [(ins, sender)]
      else owner_of l tick i)"
  by (auto simp: owner_of_def state_defs accepted721_def bt_contains_def
      split: krc721_op.split option.split)

lemma owner_of_run:
  "owner_of (run_ops apply721 l ops) tick i =
     holder tick i (owner_of l tick i) (journal apply721 accepted721 l ops)"
proof (induction ops arbitrary: l)
  case (Cons x ops)
  then show ?case
    by (cases x) (simp add: owner_of_apply del: apply721.simps)
qed simp

section \<open>Properties\<close>

definition sample_ops721 :: "(krc721_inscription \<times> string) list" where
  "sample_ops721 =
     [(\<lparr>tick721 = ''art'', tick_raw721 = ''ART'', op721 = Deploy721 2\<rparr>, ''d''),
      (\<lparr>tick721 = ''art'', tick_raw721 = ''art'', op721 = Mint721 0 ''u''\<rparr>, ''a''),
      (\<lparr>tick721 = ''art'', tick_raw721 = ''art'', op721 = Burn721 0\<rparr>, ''a''),
      (\<lparr>tick721 = ''art'', tick_raw721 = ''art'', op721 = Mint721 0 ''v''\<rparr>, ''a'')]"

text \<open>C13: a token is minted at most once, for ever. In the accepted operations of any stream there
  is at most one mint of each token of each collection, also after the token was burned.\<close>

theorem krc721_minted_once: "mints_of tick i (journal721 ops) \<le> 1"
  unfolding journal721_def by (rule order_trans [OF mints_of_journal]) simp

text \<open>C31: the ownership map is the history of the accepted operations: the owner of a token after any
  stream is the minter or the last recipient, and nobody once it is burned, so replaying the
  journal gives back exactly who owns what.\<close>

theorem krc721_owner_history:
  "owner_of (replay721 ops) tick i = holder tick i None (journal721 ops)"
  using owner_of_run [of new_krc721 ops tick i]
  by (simp add: replay721_def journal721_def owner_of_def new_krc721_def)

text \<open>C32: the collection bound. After any stream, every live token of a collection has been minted,
  and every minted identifier is below the deployed size, so a collection never holds more tokens
  than its \<open>max\<close>.\<close>

theorem krc721_collection_bound:
  assumes "collection (replay721 ops) tick = Some c"
  shows "set (map fst (col_owners c)) \<subseteq> set (col_minted c) \<and> distinct (map fst (col_owners c)) \<and>
    (\<forall>i \<in> set (col_minted c). i < col_max c) \<and> length (col_owners c) \<le> unat (col_max c)"
proof -
  have ok: "collection_ok c"
    using ledger721_ok_get [OF ledger721_ok_replay] assms by (simp add: collection_def)
  then have d: "distinct (map fst (col_owners c))"
    by (simp add: collection_ok_def bt_ok_distinct)
  have "unat ` set (map fst (col_owners c)) \<subseteq> {..<unat (col_max c)}"
    using ok by (auto simp: collection_ok_def word_less_nat_alt)
  then have "card (unat ` set (map fst (col_owners c))) \<le> unat (col_max c)"
    using card_mono [of "{..<unat (col_max c)}"] by fastforce
  moreover have "card (unat ` set (map fst (col_owners c))) = length (col_owners c)"
    using d by (metis card_image distinct_card inj_on_def length_map word_unat_eq_iff)
  ultimately show ?thesis
    using ok d by (simp add: collection_ok_def)
qed

lemma krc721_collection_bound_witness:
  "\<exists>c. collection (replay721 sample_ops721) ''art'' = Some c \<and> col_owners c = [] \<and>
    set (map fst (col_owners c)) \<subseteq> set (col_minted c) \<and> length (col_owners c) \<le> unat (col_max c)"
proof -
  have "collection (replay721 sample_ops721) ''art'' = Some
      \<lparr>col_max = 2, col_owners = [], col_minted = [0]\<rparr>"
    by code_simp
  from krc721_collection_bound [OF this] this show ?thesis by auto
qed

text \<open>The KRC-721 journal is a faithful log, with the same two guarantees as the KRC-20 one.\<close>

theorem krc721_journal_replay:
  "replay721 (journal721 ops) = replay721 ops \<and>
    journal721 (take n (journal721 ops)) = take n (journal721 ops)"
  using krc721_ops.run_journal [of new_krc721 ops]
    krc721_ops.journal_prefix [of new_krc721 ops "take n (journal721 ops)" "drop n (journal721 ops)"]
  by (simp add: replay721_def journal721_def)

end
