(* ===== verification/Sql_Table.thy ===== *)
theory Sql_Table
  imports Ordered_Map
begin

text \<open>
  The part of SQL the store's statements use, on a table kept as the list of its rows: insertion
  with the two conflict clauses, deletion and selection by a predicate, and \<open>ORDER BY\<close>. Two rows
  never share the key of a unique index, which is the invariant \<open>unique_key\<close>; a statement that
  would break it fails. PostgreSQL leaves the order of rows equal under \<open>ORDER BY\<close> open; every
  ordered query of the store that matters here orders by a key.
\<close>

datatype store_error = Query_error | Invalid_subgraph_id string

definition unique_key :: "('r \<Rightarrow> 'k) \<Rightarrow> 'r list \<Rightarrow> bool" where
  "unique_key key t = distinct (map key t)"

definition has_key :: "('r \<Rightarrow> 'k) \<Rightarrow> 'k \<Rightarrow> 'r list \<Rightarrow> bool" where
  "has_key key k t = list_ex (\<lambda>r. key r = k) t"

text \<open>\<open>INSERT ... ON CONFLICT (key) DO UPDATE\<close>: \<open>upd old new\<close> is the row the \<open>SET\<close> clause leaves.\<close>

definition tbl_upsert :: "('r \<Rightarrow> 'k) \<Rightarrow> ('r \<Rightarrow> 'r \<Rightarrow> 'r) \<Rightarrow> 'r \<Rightarrow> 'r list \<Rightarrow> 'r list" where
  "tbl_upsert key upd r t =
     (if has_key key (key r) t then map (\<lambda>q. if key q = key r then upd q r else q) t
      else t @ [r])"

text \<open>\<open>SELECT ... WHERE key = k\<close> on a unique key.\<close>

definition tbl_find :: "('r \<Rightarrow> 'k) \<Rightarrow> 'k \<Rightarrow> 'r list \<Rightarrow> 'r option" where
  "tbl_find key k t = find (\<lambda>r. key r = k) t"

definition tbl_delete :: "('r \<Rightarrow> bool) \<Rightarrow> 'r list \<Rightarrow> 'r list" where
  "tbl_delete P t = filter (\<lambda>r. \<not> P r) t"

text \<open>\<open>ORDER BY f DESC LIMIT 1\<close>.\<close>

fun max_by :: "('r \<Rightarrow> 'o::linorder) \<Rightarrow> 'r list \<Rightarrow> 'r option" where
  "max_by f [] = None"
| "max_by f (r # t) =
     (case max_by f t of None \<Rightarrow> Some r | Some m \<Rightarrow> Some (if f m \<le> f r then r else m))"

lemma has_key_iff: "has_key key k t \<longleftrightarrow> k \<in> key ` set t"
  by (auto simp: has_key_def list_ex_iff)

lemma unique_key_Nil [simp]: "unique_key key []"
  by (simp add: unique_key_def)

lemma unique_key_filter [simp]: "unique_key key t \<Longrightarrow> unique_key key (filter P t)"
  by (simp add: unique_key_def distinct_map_filter)

lemma unique_key_delete [simp]: "unique_key key t \<Longrightarrow> unique_key key (tbl_delete P t)"
  by (simp add: tbl_delete_def)

lemma unique_key_append: "unique_key key (t @ [r]) \<longleftrightarrow> unique_key key t \<and> \<not> has_key key (key r) t"
  by (auto simp: unique_key_def has_key_iff)

lemma map_key_upsert:
  assumes "\<And>q. key (upd q r) = key q"
  shows "map key (tbl_upsert key upd r t) =
    (if has_key key (key r) t then map key t else map key t @ [key r])"
  using assms by (auto simp: tbl_upsert_def)

lemma unique_key_upsert:
  assumes "\<And>q. key (upd q r) = key q" "unique_key key t"
  shows "unique_key key (tbl_upsert key upd r t)"
proof -
  have "map key (tbl_upsert key upd r t) =
      (if has_key key (key r) t then map key t else map key t @ [key r])"
    by (rule map_key_upsert) (rule assms(1))
  then show ?thesis
    using assms(2) by (auto simp: unique_key_def has_key_iff)
qed

lemma tbl_find_None_iff: "tbl_find key k t = None \<longleftrightarrow> \<not> has_key key k t"
  by (auto simp: tbl_find_def find_None_iff has_key_iff)

lemma tbl_find_Some:
  "unique_key key t \<Longrightarrow> tbl_find key k t = Some r \<longleftrightarrow> r \<in> set t \<and> key r = k"
  by (induction t) (auto simp: tbl_find_def unique_key_def)

lemma tbl_find_upsert_other:
  assumes "\<And>q. key (upd q r) = key q" "k \<noteq> key r"
  shows "tbl_find key k (tbl_upsert key upd r t) = tbl_find key k t"
proof -
  have "find (\<lambda>x. key x = k) (map (\<lambda>q. if key q = key r then upd q r else q) t) = find (\<lambda>x. key x = k) t"
    by (induction t) (use assms in auto)
  moreover have "find (\<lambda>x. key x = k) (t @ [r]) = find (\<lambda>x. key x = k) t"
    by (induction t) (use assms in auto)
  ultimately show ?thesis
    by (simp add: tbl_find_def tbl_upsert_def)
qed

lemma tbl_find_upsert_same:
  assumes "\<And>q. key (upd q r) = key q"
  shows "tbl_find key (key r) (tbl_upsert key upd r t) =
    Some (case tbl_find key (key r) t of None \<Rightarrow> r | Some q' \<Rightarrow> upd q' r)"
proof -
  have "has_key key (key r) t \<Longrightarrow>
      find (\<lambda>x. key x = key r) (map (\<lambda>q. if key q = key r then upd q r else q) t) =
      Some (case find (\<lambda>x. key x = key r) t of None \<Rightarrow> r | Some q' \<Rightarrow> upd q' r)"
    by (induction t) (use assms in \<open>auto simp: has_key_def\<close>)
  moreover have "\<not> has_key key (key r) t \<Longrightarrow> find (\<lambda>x. key x = key r) (t @ [r]) = Some r \<and>
      find (\<lambda>x. key x = key r) t = None"
    by (induction t) (auto simp: has_key_def)
  ultimately show ?thesis
    by (auto simp: tbl_find_def tbl_upsert_def)
qed

text \<open>An upsert that stores the new row whole is idempotent.\<close>

lemma tbl_upsert_twice:
  assumes "\<And>q. key (upd q r) = key q" "\<And>q. upd (upd q r) r = upd q r" "upd r r = r"
  shows "tbl_upsert key upd r (tbl_upsert key upd r t) = tbl_upsert key upd r t"
proof (cases "has_key key (key r) t")
  case True
  have "map key (tbl_upsert key upd r t) = map key t"
    using map_key_upsert [of key upd r t] assms(1) True by simp
  then have "has_key key (key r) (tbl_upsert key upd r t)"
    using True by (metis has_key_iff list.set_map)
  with True assms show ?thesis
    by (simp add: tbl_upsert_def [of key upd r t] tbl_upsert_def [of key upd r "map _ t"])
next
  case False
  moreover have "map (\<lambda>q. if key q = key r then upd q r else q) t = t"
    using False by (intro map_idI) (metis has_key_iff image_eqI)
  ultimately show ?thesis
    using assms by (simp add: tbl_upsert_def has_key_iff)
qed

lemma tbl_delete_upsert:
  assumes "\<And>q. key q = key r \<Longrightarrow> q \<in> set t \<Longrightarrow> P q" "P r" "\<And>q. key q = key r \<Longrightarrow> P q \<Longrightarrow> P (upd q r)"
  shows "tbl_delete P (tbl_upsert key upd r t) = tbl_delete P t"
proof -
  have "(\<And>q. key q = key r \<Longrightarrow> q \<in> set t \<Longrightarrow> P q) \<Longrightarrow>
      filter (\<lambda>x. \<not> P x) (map (\<lambda>q. if key q = key r then upd q r else q) t) = filter (\<lambda>x. \<not> P x) t"
    by (induction t) (use assms(3) in auto)
  then show ?thesis
    using assms by (simp add: tbl_upsert_def tbl_delete_def)
qed

lemma max_by_None_iff [simp]: "max_by f t = None \<longleftrightarrow> t = []"
  by (cases t) (auto split: option.split)

lemma max_by_Some: "max_by f t = Some m \<Longrightarrow> m \<in> set t \<and> (\<forall>r \<in> set t. f r \<le> f m)"
  by (induction t arbitrary: m) (fastforce split: option.splits if_splits)+

lemma max_by_ex: "t \<noteq> [] \<Longrightarrow> \<exists>m. max_by f t = Some m"
  by (metis max_by_None_iff not_None_eq)

lemma max_by_unique:
  assumes "m \<in> set t" "\<And>r. r \<in> set t \<Longrightarrow> f r \<le> f m" "inj_on f (set t)"
  shows "max_by f t = Some m"
proof -
  obtain n where n: "max_by f t = Some n" using assms(1) max_by_ex [of t f] by fastforce
  then have "n \<in> set t" "f m \<le> f n" using max_by_Some [OF n] assms(1) by auto
  then have "f n = f m" using assms(2) [of n] by simp
  then show ?thesis using n assms(1,3) \<open>n \<in> set t\<close> by (simp add: inj_on_eq_iff)
qed

lemma filter_sort_key: "filter P (sort_key f xs) = sort_key f (filter P xs)"
  by (rule filter_sort)

end
