(* ===== verification/Store_Legacy.thy ===== *)
theory Store_Legacy
  imports Sql_Table
begin

text \<open>
  The two legacy journals of \<open>kasgraph-store\<close>: the row types, the statements that record, look up,
  number, unwind and fetch the accepted inscription operations. Both tables are global, with a
  primary key \<open>(tick, accepting_block_hash, seq)\<close>, a unique \<open>tx_hash\<close> and \<open>CHECK (seq >= 0)\<close>.
\<close>

record krc20_row =
  r20_subgraph :: string
  r20_tick :: string
  r20_tick_raw :: string
  r20_block :: string
  r20_seq :: i64
  r20_daa :: i64
  r20_tx :: string
  r20_op :: string
  r20_sender :: string
  r20_recipient :: "string option"
  r20_amount :: "string option"
  r20_max_supply :: "string option"
  r20_mint_limit :: "string option"

record krc721_row =
  r721_subgraph :: string
  r721_tick :: string
  r721_tick_raw :: string
  r721_block :: string
  r721_seq :: i64
  r721_daa :: i64
  r721_tx :: string
  r721_op :: string
  r721_sender :: string
  r721_token_id :: "string option"
  r721_recipient :: "string option"
  r721_metadata_uri :: "string option"
  r721_max_supply :: "string option"

definition pk20 :: "krc20_row \<Rightarrow> string \<times> string \<times> i64" where
  "pk20 r = (r20_tick r, r20_block r, r20_seq r)"

definition pk721 :: "krc721_row \<Rightarrow> string \<times> string \<times> i64" where
  "pk721 r = (r721_tick r, r721_block r, r721_seq r)"

text \<open>\<open>ON CONFLICT (tx_hash) DO NOTHING\<close> absorbs a known transaction only; a row that would repeat
  the primary key under a new transaction, or carries a negative \<open>seq\<close>, is an error.\<close>

definition record_krc20_legacy_op :: "krc20_row list \<Rightarrow> krc20_row \<Rightarrow> store_error + krc20_row list" where
  "record_krc20_legacy_op t r =
     (if r20_seq r < 0 then Inl Query_error
      else if has_key r20_tx (r20_tx r) t then Inr t
      else if has_key pk20 (pk20 r) t then Inl Query_error
      else Inr (t @ [r]))"

definition krc20_legacy_op_exists :: "krc20_row list \<Rightarrow> string \<Rightarrow> bool" where
  "krc20_legacy_op_exists t tx = has_key r20_tx tx t"

definition next_krc20_legacy_seq :: "krc20_row list \<Rightarrow> string \<Rightarrow> i64" where
  "next_krc20_legacy_seq t tick =
     (case max_by r20_seq (filter (\<lambda>r. r20_tick r = tick) t) of
        None \<Rightarrow> 0 | Some r \<Rightarrow> r20_seq r + 1)"

definition unwind_krc20_legacy_ledger :: "krc20_row list \<Rightarrow> string \<Rightarrow> i64 \<Rightarrow> krc20_row list" where
  "unwind_krc20_legacy_ledger t sg from_daa =
     tbl_delete (\<lambda>r. r20_subgraph r = sg \<and> from_daa \<le> r20_daa r) t"

definition fetch_krc20_legacy_ops_ordered :: "krc20_row list \<Rightarrow> string \<Rightarrow> krc20_row list" where
  "fetch_krc20_legacy_ops_ordered t sg =
     sort_key (\<lambda>r. (r20_daa r, r20_tick r, r20_seq r)) (filter (\<lambda>r. r20_subgraph r = sg) t)"

definition record_krc721_legacy_op :: "krc721_row list \<Rightarrow> krc721_row \<Rightarrow> store_error + krc721_row list" where
  "record_krc721_legacy_op t r =
     (if r721_seq r < 0 then Inl Query_error
      else if has_key r721_tx (r721_tx r) t then Inr t
      else if has_key pk721 (pk721 r) t then Inl Query_error
      else Inr (t @ [r]))"

definition krc721_legacy_op_exists :: "krc721_row list \<Rightarrow> string \<Rightarrow> bool" where
  "krc721_legacy_op_exists t tx = has_key r721_tx tx t"

definition next_krc721_legacy_seq :: "krc721_row list \<Rightarrow> string \<Rightarrow> i64" where
  "next_krc721_legacy_seq t tick =
     (case max_by r721_seq (filter (\<lambda>r. r721_tick r = tick) t) of
        None \<Rightarrow> 0 | Some r \<Rightarrow> r721_seq r + 1)"

definition unwind_krc721_legacy_ledger :: "krc721_row list \<Rightarrow> string \<Rightarrow> i64 \<Rightarrow> krc721_row list" where
  "unwind_krc721_legacy_ledger t sg from_daa =
     tbl_delete (\<lambda>r. r721_subgraph r = sg \<and> from_daa \<le> r721_daa r) t"

definition fetch_krc721_legacy_ops_ordered :: "krc721_row list \<Rightarrow> string \<Rightarrow> krc721_row list" where
  "fetch_krc721_legacy_ops_ordered t sg =
     sort_key (\<lambda>r. (r721_daa r, r721_tick r, r721_seq r)) (filter (\<lambda>r. r721_subgraph r = sg) t)"

section \<open>Numbering\<close>

lemma next_krc20_seq_greater:
  "r \<in> set t \<Longrightarrow> r20_tick r = tick \<Longrightarrow> r20_seq r < next_krc20_legacy_seq t tick"
  by (auto simp: next_krc20_legacy_seq_def filter_empty_conv dest!: max_by_Some
      split: option.split)

end
