(* ===== verification/Legacy_Replay.thy ===== *)
theory Legacy_Replay
  imports Krc721 Store_Legacy
begin

text \<open>
  \<open>legacy_ledger.rs\<close> of \<open>kasgraph-node\<close>: turning journal rows back into inscriptions and replaying
  them, with the errors of a malformed row.
\<close>

datatype legacy_reconstruct_error =
    UnknownOp string string
  | MissingColumn string string
  | InvalidU64 string string

definition required ::
  "string option \<Rightarrow> string \<Rightarrow> string \<Rightarrow> legacy_reconstruct_error + string" where
  "required v op column = (case v of None \<Rightarrow> Inl (MissingColumn op column) | Some s \<Rightarrow> Inr s)"

definition legacy_parse_u64 :: "string \<Rightarrow> string \<Rightarrow> legacy_reconstruct_error + u64" where
  "legacy_parse_u64 s column =
     (case rust_parse_u64 s of None \<Rightarrow> Inl (InvalidU64 column s) | Some w \<Rightarrow> Inr w)"

text \<open>The \<open>?\<close> operator.\<close>

fun try_bind :: "'e + 'a \<Rightarrow> ('a \<Rightarrow> 'e + 'b) \<Rightarrow> 'e + 'b" where
  "try_bind (Inl e) f = Inl e"
| "try_bind (Inr x) f = f x"

definition required_u64 ::
  "string option \<Rightarrow> string \<Rightarrow> string \<Rightarrow> legacy_reconstruct_error + u64" where
  "required_u64 v op column = try_bind (required v op column) (\<lambda>s. legacy_parse_u64 s column)"

definition krc20_op_from_record :: "krc20_row \<Rightarrow> legacy_reconstruct_error + krc20_op" where
  "krc20_op_from_record r =
     (if r20_op r = ''deploy'' then
        try_bind (required_u64 (r20_max_supply r) ''deploy'' ''max_supply'') (\<lambda>mx.
        try_bind (required_u64 (r20_mint_limit r) ''deploy'' ''mint_limit'') (\<lambda>lim.
          Inr (Deploy20 mx lim)))
      else if r20_op r = ''mint'' then
        try_bind (required_u64 (r20_amount r) ''mint'' ''amount'') (\<lambda>amt. Inr (Mint20 amt))
      else if r20_op r = ''transfer'' then
        try_bind (required_u64 (r20_amount r) ''transfer'' ''amount'') (\<lambda>amt.
        try_bind (required (r20_recipient r) ''transfer'' ''recipient'') (\<lambda>to.
          Inr (Transfer20 amt to)))
      else if r20_op r = ''burn'' then
        try_bind (required_u64 (r20_amount r) ''burn'' ''amount'') (\<lambda>amt. Inr (Burn20 amt))
      else Inl (UnknownOp (r20_op r) ''KRC-20''))"

definition krc20_inscription_from_record ::
  "krc20_row \<Rightarrow> legacy_reconstruct_error + krc20_inscription" where
  "krc20_inscription_from_record r =
     try_bind (krc20_op_from_record r) (\<lambda>op.
       Inr \<lparr>tick20 = r20_tick r, tick_raw20 = r20_tick_raw r, op20 = op\<rparr>)"

definition krc721_op_from_record :: "krc721_row \<Rightarrow> legacy_reconstruct_error + krc721_op" where
  "krc721_op_from_record r =
     (if r721_op r = ''deploy'' then
        try_bind (required_u64 (r721_max_supply r) ''deploy'' ''max_supply'') (\<lambda>mx.
          Inr (Deploy721 mx))
      else if r721_op r = ''mint'' then
        try_bind (required_u64 (r721_token_id r) ''mint'' ''token_id'') (\<lambda>i.
        try_bind (required (r721_metadata_uri r) ''mint'' ''metadata_uri'') (\<lambda>uri.
          Inr (Mint721 i uri)))
      else if r721_op r = ''transfer'' then
        try_bind (required_u64 (r721_token_id r) ''transfer'' ''token_id'') (\<lambda>i.
        try_bind (required (r721_recipient r) ''transfer'' ''recipient'') (\<lambda>to.
          Inr (Transfer721 i to)))
      else if r721_op r = ''burn'' then
        try_bind (required_u64 (r721_token_id r) ''burn'' ''token_id'') (\<lambda>i. Inr (Burn721 i))
      else Inl (UnknownOp (r721_op r) ''KRC-721''))"

definition krc721_inscription_from_record ::
  "krc721_row \<Rightarrow> legacy_reconstruct_error + krc721_inscription" where
  "krc721_inscription_from_record r =
     try_bind (krc721_op_from_record r) (\<lambda>op.
       Inr \<lparr>tick721 = r721_tick r, tick_raw721 = r721_tick_raw r, op721 = op\<rparr>)"

text \<open>The reconstruction loop stops at the first malformed row.\<close>

fun collect :: "('r \<Rightarrow> 'e + 'a) \<Rightarrow> 'r list \<Rightarrow> 'e + 'a list" where
  "collect f [] = Inr []"
| "collect f (r # rs) = try_bind (f r) (\<lambda>x. try_bind (collect f rs) (\<lambda>xs. Inr (x # xs)))"

definition replay_krc20_from_records :: "krc20_row list \<Rightarrow> legacy_reconstruct_error + krc20_ledger" where
  "replay_krc20_from_records records =
     try_bind (collect (\<lambda>r. try_bind (krc20_inscription_from_record r) (\<lambda>ins. Inr (ins, r20_sender r)))
       records) (\<lambda>ops. Inr (replay20 ops))"

definition replay_krc721_from_records :: "krc721_row list \<Rightarrow> legacy_reconstruct_error + krc721_ledger" where
  "replay_krc721_from_records records =
     try_bind (collect (\<lambda>r. try_bind (krc721_inscription_from_record r) (\<lambda>ins. Inr (ins, r721_sender r)))
       records) (\<lambda>ops. Inr (replay721 ops))"

section \<open>Reading a journal back\<close>

definition read20 :: "krc20_row \<Rightarrow> legacy_reconstruct_error + krc20_inscription \<times> string" where
  "read20 r = try_bind (krc20_inscription_from_record r) (\<lambda>ins. Inr (ins, r20_sender r))"

lemma replay_krc20_read: "replay_krc20_from_records rs = try_bind (collect read20 rs) (\<lambda>ops. Inr (replay20 ops))"
  by (simp add: replay_krc20_from_records_def read20_def [abs_def])

lemma collect_Inr: "collect f rs = Inr xs \<longleftrightarrow> map f rs = map Inr xs"
proof (induction rs arbitrary: xs)
  case (Cons r rs)
  show ?case
  proof (cases "f r")
    case (Inr x)
    have "try_bind (collect f rs) (\<lambda>xs. Inr (x # xs)) = Inr ys \<longleftrightarrow> (\<exists>zs. ys = x # zs \<and> collect f rs = Inr zs)" for ys
      by (cases "collect f rs") auto
    with Inr show ?thesis by (auto simp: Cons Cons_eq_map_conv)
  qed auto
qed auto

text \<open>A malformed row stops the replay with its error, the first one in the order of the fetch.\<close>

lemma collect_Inl: "\<forall>q \<in> set pre. \<exists>x. f q = Inr x \<Longrightarrow> f r = Inl e \<Longrightarrow> collect f (pre @ r # post) = Inl e"
  by (induction pre) auto

lemma replay_krc20_malformed:
  assumes "\<forall>q \<in> set pre. \<exists>x. read20 q = Inr x" "krc20_inscription_from_record r = Inl e"
  shows "replay_krc20_from_records (pre @ r # post) = Inl e"
proof -
  have "read20 r = Inl e" by (simp add: read20_def assms(2))
  from collect_Inl [OF assms(1) this, of post] show ?thesis by (simp add: replay_krc20_read)
qed

section \<open>Recording one more operation\<close>

lemma sort_key_snoc: "\<forall>y \<in> set xs. f y \<le> f x \<Longrightarrow> sort_key f (xs @ [x]) = sort_key f xs @ [x]"
proof (induction xs)
  case (Cons y xs)
  have "f y \<le> f x \<Longrightarrow> insort_key f y (l @ [x]) = insort_key f y l @ [x]" for l
    by (induction l) auto
  with Cons show ?case by simp
qed simp

lemma tick_read20: "read20 r = Inr x \<Longrightarrow> tick20 (fst x) = r20_tick r"
  by (cases "krc20_op_from_record r") (auto simp: read20_def krc20_inscription_from_record_def)

lemma filter_read20:
  "map read20 rs = map Inr xs \<Longrightarrow> map read20 (filter (\<lambda>r. r20_tick r = k) rs) = map Inr (filter (\<lambda>x. tick20 (fst x) = k) xs)"
proof (induction rs arbitrary: xs)
  case (Cons r rs)
  then show ?case by (cases xs) (auto dest: tick_read20)
qed simp

text \<open>A row numbered next for its tick, at a score no lower than the tick's rows, is fetched after the tick's other rows.\<close>

lemma fetch20_record:
  assumes "r20_seq r = next_krc20_legacy_seq t (r20_tick r)" "\<forall>q \<in> set t. r20_subgraph q = r20_subgraph r \<and> r20_tick q = r20_tick r \<longrightarrow> r20_daa q \<le> r20_daa r"
  shows "filter (\<lambda>q. r20_tick q = k) (fetch_krc20_legacy_ops_ordered (t @ [r]) (r20_subgraph r)) =
    filter (\<lambda>q. r20_tick q = k) (fetch_krc20_legacy_ops_ordered t (r20_subgraph r) @ [r])"
proof (cases "k = r20_tick r")
  case True
  have "\<forall>q \<in> set (filter (\<lambda>q. r20_tick q = k) (filter (\<lambda>q. r20_subgraph q = r20_subgraph r) t)).
      (r20_daa q, r20_tick q, r20_seq q) \<le> (r20_daa r, r20_tick r, r20_seq r)"
    using assms next_krc20_seq_greater [of _ t "r20_tick r"] by (fastforce simp: True)
  from sort_key_snoc [OF this] show ?thesis
    by (simp add: fetch_krc20_legacy_ops_ordered_def filter_sort_key True)
qed (simp add: fetch_krc20_legacy_ops_ordered_def filter_sort_key)

lemma replay20_snoc: "replay20 (xs @ [x]) = fst (apply20 (replay20 xs) x)"
  by (simp add: replay20_def run_ops_append)

lemma fetch20_unwind:
  "fetch_krc20_legacy_ops_ordered (unwind_krc20_legacy_ledger t sg c) sg =
    filter (\<lambda>r. r20_daa r < c) (fetch_krc20_legacy_ops_ordered t sg)"
  "other \<noteq> sg \<Longrightarrow> fetch_krc20_legacy_ops_ordered (unwind_krc20_legacy_ledger t sg c) other =
    fetch_krc20_legacy_ops_ordered t other"
  by (auto simp: fetch_krc20_legacy_ops_ordered_def unwind_krc20_legacy_ledger_def tbl_delete_def filter_sort_key
      intro!: arg_cong [where f = "sort_key _"] filter_cong)

section \<open>Properties\<close>

text \<open>C22: replaying the journal follows the recorded operations. Take any journal that replays for a subgraph,
  and record for it the row of a transaction the journal does not know, with the number the store gives next for the
  tick, at a score no lower than the subgraph's rows of the tick. If the row is well formed, the fetched journal then replays to what
  applying the row's operation to the replayed ledger gives, although the fetch orders the rows by score and tick, not by recording; if it
  is not, the replay fails. Unwinding at any score leaves the fetch with exactly its rows below it. Neither changes what another subgraph fetches.\<close>

theorem krc20_journal_step:
  assumes "replay_krc20_from_records (fetch_krc20_legacy_ops_ordered t sg) = Inr l"
    and "record_krc20_legacy_op t r = Inr t'" "r20_subgraph r = sg" "\<not> krc20_legacy_op_exists t (r20_tx r)"
    and "r20_seq r = next_krc20_legacy_seq t (r20_tick r)" "\<forall>q \<in> set t. r20_subgraph q = r20_subgraph r \<and> r20_tick q = r20_tick r \<longrightarrow> r20_daa q \<le> r20_daa r"
    and "other \<noteq> sg"
  shows "(case krc20_inscription_from_record r of
      Inl e \<Rightarrow> replay_krc20_from_records (fetch_krc20_legacy_ops_ordered t' sg) = Inl e
    | Inr ins \<Rightarrow> replay_krc20_from_records (fetch_krc20_legacy_ops_ordered t' sg) = Inr (fst (apply20 l (ins, r20_sender r)))) \<and>
    fetch_krc20_legacy_ops_ordered (unwind_krc20_legacy_ledger t' sg c) sg =
      filter (\<lambda>q. r20_daa q < c) (fetch_krc20_legacy_ops_ordered t' sg) \<and>
    fetch_krc20_legacy_ops_ordered t' other = fetch_krc20_legacy_ops_ordered t other \<and>
    fetch_krc20_legacy_ops_ordered (unwind_krc20_legacy_ledger t' sg c) other = fetch_krc20_legacy_ops_ordered t other"
proof -
  let ?f = "fetch_krc20_legacy_ops_ordered t sg" and ?f' = "fetch_krc20_legacy_ops_ordered t' sg"
  have t': "t' = t @ [r]"
    using assms(2,4) by (simp add: record_krc20_legacy_op_def krc20_legacy_op_exists_def split: if_splits)
  have set: "set ?f' = insert r (set ?f)" by (simp add: fetch_krc20_legacy_ops_ordered_def t' assms(3))
  obtain xs where "collect read20 ?f = Inr xs" and l: "l = replay20 xs"
    using assms(1) by (cases "collect read20 ?f") (auto simp: replay_krc20_read)
  then have xs: "map read20 ?f = map Inr xs" by (simp add: collect_Inr)
  have reads: "\<exists>x. read20 q = Inr x" if "q \<in> set ?f" for q
    using arg_cong [OF xs, of set] that by (metis (no_types, lifting) image_eqI image_iff list.set_map)
  have other: "fetch_krc20_legacy_ops_ordered t' other = fetch_krc20_legacy_ops_ordered t other"
    using assms(3,7) by (simp add: fetch_krc20_legacy_ops_ordered_def t')
  have "case krc20_inscription_from_record r of
      Inl e \<Rightarrow> replay_krc20_from_records ?f' = Inl e
    | Inr ins \<Rightarrow> replay_krc20_from_records ?f' = Inr (fst (apply20 l (ins, r20_sender r)))"
  proof (cases "krc20_inscription_from_record r")
    case (Inl e)
    obtain pre post where "?f' = pre @ r # post" "r \<notin> set pre" using split_list_first [of r ?f'] set by auto
    moreover from this have "\<exists>x. read20 q = Inr x" if "q \<in> set pre" for q
    proof -
      have "q \<in> set ?f'" "q \<noteq> r" using that calculation by auto
      then show ?thesis using reads set by blast
    qed
    ultimately have "replay_krc20_from_records ?f' = Inl e" using replay_krc20_malformed [OF _ Inl] by metis
    then show ?thesis by (simp add: Inl)
  next
    case (Inr ins)
    let ?x = "(ins, r20_sender r)"
    have r: "read20 r = Inr ?x" by (simp add: read20_def Inr)
    define ys where "ys = map (\<lambda>q. projr (read20 q)) ?f'"
    have ys: "map read20 ?f' = map Inr ys" using reads r set by (auto simp: ys_def) force
    have "filter (\<lambda>x. tick20 (fst x) = k) ys = filter (\<lambda>x. tick20 (fst x) = k) (xs @ [?x])" for k
    proof -
      have "map read20 (?f @ [r]) = map Inr (xs @ [?x])" using xs r by simp
      from filter_read20 [OF this, of k] filter_read20 [OF ys, of k] fetch20_record [OF assms(5,6), of k]
      have "map Inr (filter (\<lambda>x. tick20 (fst x) = k) ys) =
          (map Inr (filter (\<lambda>x. tick20 (fst x) = k) (xs @ [?x])) :: (legacy_reconstruct_error + _) list)"
        unfolding t' assms(3) by metis
      then show ?thesis by (simp add: inj_map_eq_map inj_def del: filter_append)
    qed
    then have "replay20 ys = fst (apply20 l ?x)"
      unfolding l replay20_snoc [symmetric] by (rule replay20_interleaving)
    then have "replay_krc20_from_records ?f' = Inr (fst (apply20 l ?x))"
      using ys by (simp add: replay_krc20_read collect_Inr [symmetric])
    then show ?thesis by (simp add: Inr)
  qed
  then show ?thesis using fetch20_unwind [where c = c] other assms(7) by simp
qed

definition sample_row20 :: "string \<Rightarrow> i64 \<Rightarrow> i64 \<Rightarrow> string \<Rightarrow> krc20_row" where
  "sample_row20 tick seq daa tx =
     \<lparr>r20_subgraph = ''main'', r20_tick = tick, r20_tick_raw = tick, r20_block = ''b'', r20_seq = seq, r20_daa = daa,
      r20_tx = tx, r20_op = ''mint'', r20_sender = ''a'', r20_recipient = None, r20_amount = Some ''50'',
      r20_max_supply = None, r20_mint_limit = None\<rparr>"

definition sample_journal20 :: "krc20_row list" where
  "sample_journal20 =
     [(sample_row20 ''zed'' 0 5 ''t1'')\<lparr>r20_op := ''deploy'', r20_max_supply := Some ''100'', r20_mint_limit := Some ''60''\<rparr>,
      (sample_row20 ''art'' 0 9 ''t2'')\<lparr>r20_op := ''deploy'', r20_max_supply := Some ''9'', r20_mint_limit := Some ''9''\<rparr>]"

lemma krc20_journal_step_witness:
  "\<exists>l. replay_krc20_from_records (fetch_krc20_legacy_ops_ordered sample_journal20 ''main'') = Inr l \<and>
    replay_krc20_from_records (fetch_krc20_legacy_ops_ordered (sample_journal20 @ [sample_row20 ''zed'' 1 7 ''t3'']) ''main'') =
      Inr (fst (apply20 l (\<lparr>tick20 = ''zed'', tick_raw20 = ''zed'', op20 = Mint20 50\<rparr>, ''a'')))"
proof -
  let ?r = "sample_row20 ''zed'' 1 7 ''t3''"
  have "case replay_krc20_from_records (fetch_krc20_legacy_ops_ordered sample_journal20 ''main'') of Inl _ \<Rightarrow> False | Inr _ \<Rightarrow> True"
    by code_simp
  then obtain l where l: "replay_krc20_from_records (fetch_krc20_legacy_ops_ordered sample_journal20 ''main'') = Inr l"
    by (auto split: sum.splits)
  have steps: "record_krc20_legacy_op sample_journal20 ?r = Inr (sample_journal20 @ [?r])" "r20_subgraph ?r = ''main''"
      "\<not> krc20_legacy_op_exists sample_journal20 (r20_tx ?r)" "r20_seq ?r = next_krc20_legacy_seq sample_journal20 (r20_tick ?r)"
      "\<forall>q \<in> set sample_journal20. r20_subgraph q = r20_subgraph ?r \<and> r20_tick q = r20_tick ?r \<longrightarrow> r20_daa q \<le> r20_daa ?r"
      "krc20_inscription_from_record ?r = Inr \<lparr>tick20 = ''zed'', tick_raw20 = ''zed'', op20 = Mint20 50\<rparr>"
    by code_simp+
  have "r20_sender ?r = ''a''" by (simp add: sample_row20_def)
  then show ?thesis
    using krc20_journal_step [OF l steps(1-5), of "''other''"] l steps(6) by simp
qed

section \<open>One journal for all subgraphs\<close>

text \<open>The unique transaction hash is global, the fetch is per subgraph: once the journal holds a transaction for
  one subgraph, recording it for another one stores nothing.\<close>

lemma krc20_second_subgraph_absorbed:
  assumes "krc20_legacy_op_exists t (r20_tx r)" "0 \<le> r20_seq r"
  shows "record_krc20_legacy_op t r = Inr t"
  using assms by (simp add: record_krc20_legacy_op_def krc20_legacy_op_exists_def)

end
