(* ===== verification/Rust_Str.thy ===== *)
theory Rust_Str
  imports Kas_Prelude
begin

text \<open>
  String operations of Rust's standard library on UTF-8 byte sequences, and base 16. The \<open>hex\<close>
  crate is not part of the repository: its two functions are parameters of the definitions that
  call them, and \<open>base16_encode\<close>, \<open>base16_decode\<close> are the documented behaviour, used in hypotheses
  and to instantiate the parameters.
\<close>

section \<open>Trimming and splitting\<close>

text \<open>The UTF-8 encodings of the characters with the Unicode property \<open>White_Space\<close>.\<close>

definition whitespace :: "string list" where
  "whitespace = map (map char_of)
     ([[9], [10], [11], [12], [13], [32], [194, 133], [194, 160], [225, 154, 128],
       [226, 128, 168], [226, 128, 169], [226, 128, 175], [226, 129, 159], [227, 128, 128]] @
      map (\<lambda>n. [226, 128, n]) [128..<139] :: nat list list)"

definition starts_with :: "string \<Rightarrow> string \<Rightarrow> bool" where
  "starts_with s p \<longleftrightarrow> take (length p) s = p"

function trim_start :: "string \<Rightarrow> string" where
  "trim_start s =
     (case find (starts_with s) whitespace of
        None \<Rightarrow> s
      | Some w \<Rightarrow> if w = [] \<or> s = [] then s else trim_start (drop (length w) s))"
  by pat_completeness auto
termination
  by (relation "measure length") (auto simp: Suc_le_eq)

declare trim_start.simps [simp del]

text \<open>Trimming the end scans the reversed bytes for reversed encodings.\<close>

function trim_end_rev :: "string \<Rightarrow> string" where
  "trim_end_rev s =
     (case find (\<lambda>w. starts_with s (rev w)) whitespace of
        None \<Rightarrow> s
      | Some w \<Rightarrow> if w = [] \<or> s = [] then s else trim_end_rev (drop (length w) s))"
  by pat_completeness auto
termination
  by (relation "measure length") (auto simp: Suc_le_eq)

declare trim_end_rev.simps [simp del]

definition rust_trim :: "string \<Rightarrow> string" where
  "rust_trim s = rev (trim_end_rev (rev (trim_start s)))"

text \<open>\<open>str::split(ch)\<close> and \<open>str::split_once(ch)\<close>.\<close>

fun rust_split :: "char \<Rightarrow> string \<Rightarrow> string list" where
  "rust_split d [] = [[]]"
| "rust_split d (c # cs) =
     (if c = d then [] # rust_split d cs
      else (case rust_split d cs of [] \<Rightarrow> [[c]] | p # ps \<Rightarrow> (c # p) # ps))"

fun split_once :: "char \<Rightarrow> string \<Rightarrow> (string \<times> string) option" where
  "split_once d [] = None"
| "split_once d (c # cs) =
     (if c = d then Some ([], cs)
      else (case split_once d cs of None \<Rightarrow> None | Some (a, b) \<Rightarrow> Some (c # a, b)))"

lemma split_once_None_iff [simp]: "split_once d s = None \<longleftrightarrow> d \<notin> set s"
  by (induction s) (auto split: option.split)

lemma split_once_append: "d \<notin> set a \<Longrightarrow> split_once d (a @ d # b) = Some (a, b)"
  by (induction a) auto

lemma split_once_Some: "split_once d s = Some (a, b) \<Longrightarrow> s = a @ d # b \<and> d \<notin> set a"
  by (induction s arbitrary: a) (auto split: if_splits option.splits)

section \<open>Base 16\<close>

definition nibble_char :: "nat \<Rightarrow> char" where
  "nibble_char n = char_of (if n < 10 then 48 + n else 87 + n)"

definition nibble_of :: "char \<Rightarrow> nat option" where
  "nibble_of c =
     (let n = of_char c :: nat in
      if 48 \<le> n \<and> n \<le> 57 then Some (n - 48)
      else if 97 \<le> n \<and> n \<le> 102 then Some (n - 87)
      else if 65 \<le> n \<and> n \<le> 70 then Some (n - 55)
      else None)"

type_synonym hex_decoder = "string \<Rightarrow> u8 list option"

fun base16_encode :: "u8 list \<Rightarrow> string" where
  "base16_encode [] = []"
| "base16_encode (b # bs) =
     nibble_char (unat b div 16) # nibble_char (unat b mod 16) # base16_encode bs"

fun base16_decode :: "string \<Rightarrow> u8 list option" where
  "base16_decode [] = Some []"
| "base16_decode [c] = None"
| "base16_decode (c # d # cs) =
     (case (nibble_of c, nibble_of d) of
        (Some h, Some l) \<Rightarrow>
          (case base16_decode cs of None \<Rightarrow> None | Some bs \<Rightarrow> Some (word_of_nat (16 * h + l) # bs))
      | _ \<Rightarrow> None)"

lemma nibble_of_char: "n < 16 \<Longrightarrow> nibble_of (nibble_char n) = Some n"
  by (auto simp: nibble_of_def nibble_char_def)

lemma base16_decode_encode [simp]: "base16_decode (base16_encode bs) = Some bs"
proof (induction bs)
  case (Cons b bs)
  have "unat b < 256"
    by (rule order_less_le_trans [OF unsigned_less]) simp
  then have "nibble_of (nibble_char (unat b div 16)) = Some (unat b div 16)"
    "nibble_of (nibble_char (unat b mod 16)) = Some (unat b mod 16)"
    by (simp_all add: nibble_of_char)
  moreover have "16 * (unat b div 16) + unat b mod 16 = unat b" by simp
  ultimately show ?case
    using Cons.IH by (simp add: mult.commute)
qed simp

lemma length_base16_encode [simp]: "length (base16_encode bs) = 2 * length bs"
  by (induction bs) auto

lemma base16_encode_inject [simp]: "base16_encode a = base16_encode b \<longleftrightarrow> a = b"
  by (metis base16_decode_encode option.inject)

text \<open>Hexadecimal text: every character a digit.\<close>

definition is_nibble :: "char \<Rightarrow> bool" where
  "is_nibble c = (nibble_of c \<noteq> None)"

definition hex_byte :: "string \<Rightarrow> nat \<Rightarrow> nat" where
  "hex_byte s i = 16 * the (nibble_of (s ! (2 * i))) + the (nibble_of (s ! Suc (2 * i)))"

lemma nibble_table:
  "nibble_of CHR ''0'' = Some 0" "nibble_of CHR ''1'' = Some 1"
  "nibble_of CHR ''2'' = Some 2" "nibble_of CHR ''3'' = Some 3"
  "nibble_of CHR ''4'' = Some 4" "nibble_of CHR ''5'' = Some 5"
  "nibble_of CHR ''6'' = Some 6" "nibble_of CHR ''7'' = Some 7"
  "nibble_of CHR ''8'' = Some 8" "nibble_of CHR ''9'' = Some 9"
  "nibble_of CHR ''a'' = Some 10" "nibble_of CHR ''b'' = Some 11"
  "nibble_of CHR ''c'' = Some 12" "nibble_of CHR ''d'' = Some 13"
  "nibble_of CHR ''e'' = Some 14" "nibble_of CHR ''f'' = Some 15"
  "nibble_of CHR ''A'' = Some 10" "nibble_of CHR ''B'' = Some 11"
  "nibble_of CHR ''C'' = Some 12" "nibble_of CHR ''D'' = Some 13"
  "nibble_of CHR ''E'' = Some 14" "nibble_of CHR ''F'' = Some 15"
  by (simp_all add: nibble_of_def)

lemma is_nibble_bounds: "is_nibble c \<Longrightarrow> 48 \<le> (of_char c :: nat) \<and> (of_char c :: nat) \<le> 102"
  by (auto simp: is_nibble_def nibble_of_def Let_def split: if_splits)

lemma whitespace_bounds:
  "list_all (\<lambda>w. w \<noteq> [] \<and> ((of_char (hd w) :: nat) < 48 \<or> 102 < (of_char (hd w) :: nat)) \<and>
     ((of_char (last w) :: nat) < 48 \<or> 102 < (of_char (last w) :: nat))) whitespace"
  by code_simp

lemma no_whitespace:
  assumes "list_all is_nibble s"
  shows "find (starts_with s) whitespace = None" "find (\<lambda>w. starts_with s (rev w)) whitespace = None"
proof -
  have "\<not> starts_with s w \<and> \<not> starts_with s (rev w)" if "w \<in> set whitespace" for w
  proof (cases s)
    case (Cons c cs)
    then have c: "48 \<le> (of_char c :: nat)" "(of_char c :: nat) \<le> 102"
      using assms is_nibble_bounds [of c] by simp_all
    have w: "w \<noteq> []" "(of_char (hd w) :: nat) < 48 \<or> 102 < (of_char (hd w) :: nat)"
      "(of_char (last w) :: nat) < 48 \<or> 102 < (of_char (last w) :: nat)"
      using whitespace_bounds that by (auto simp: list_all_iff)
    have "hd w \<noteq> c" "hd (rev w) \<noteq> c" "rev w \<noteq> []"
      using w c by (auto simp: hd_rev)
    then show ?thesis
      using w(1) Cons by (cases w; cases "rev w") (auto simp: starts_with_def)
  next
    case Nil
    then show ?thesis
      using whitespace_bounds that by (auto simp: list_all_iff starts_with_def)
  qed
  then show "find (starts_with s) whitespace = None"
    "find (\<lambda>w. starts_with s (rev w)) whitespace = None"
    by (auto simp: find_None_iff)
qed

lemma rust_trim_hex: "list_all is_nibble s \<Longrightarrow> rust_trim s = s"
  by (simp add: rust_trim_def trim_start.simps [of s] trim_end_rev.simps [of "rev s"] no_whitespace)

text \<open>A text file of one line of hexadecimal digits.\<close>

lemma find_newline:
  "find (\<lambda>w. starts_with (char_of (10 :: nat) # s) (rev w)) whitespace = Some [char_of (10 :: nat)]"
  by (simp add: whitespace_def starts_with_def)

lemma rust_trim_hex_newline: "list_all is_nibble s \<Longrightarrow> rust_trim (s @ [char_of (10 :: nat)]) = s"
proof -
  assume s: "list_all is_nibble s"
  show ?thesis
  proof (cases "s = []")
    case True
    then show ?thesis by simp code_simp
  next
    case False
    have "find (starts_with (s @ [char_of (10 :: nat)])) whitespace = None"
    proof -
      have "starts_with (s @ [char_of (10 :: nat)]) w \<Longrightarrow> w \<in> set whitespace \<Longrightarrow> False" for w
        using s False whitespace_bounds is_nibble_bounds [of "hd s"]
        by (cases s; cases w) (auto simp: starts_with_def list_all_iff)
      then show ?thesis by (auto simp: find_None_iff)
    qed
    then show ?thesis
      using s no_whitespace [of "rev s"]
      by (simp add: rust_trim_def trim_start.simps [of "s @ _"]
          trim_end_rev.simps [of "char_of (10 :: nat) # rev s"] trim_end_rev.simps [of "rev s"] find_newline)
  qed
qed

lemma base16_decode_hex:
  "list_all is_nibble s \<Longrightarrow> length s = 2 * n \<Longrightarrow>
    base16_decode s = Some (map (\<lambda>i. word_of_nat (hex_byte s i)) [0..<n])"
proof (induction s arbitrary: n rule: base16_decode.induct)
  case (3 c d cs)
  obtain h l where hl: "nibble_of c = Some h" "nibble_of d = Some l"
    using 3(2) by (auto simp: is_nibble_def)
  obtain m where n: "n = Suc m" "length cs = 2 * m"
    using 3(3) by (cases n) auto
  have shift: "hex_byte (c # d # cs) (Suc i) = hex_byte cs i" for i
    by (simp add: hex_byte_def)
  have "base16_decode cs = Some (map (\<lambda>i. word_of_nat (hex_byte cs i)) [0..<m])"
    using 3(1) [OF refl hl, of m] 3(2) n(2) by simp
  moreover have "[0..<Suc m] = 0 # map Suc [0..<m]"
    by (simp add: map_Suc_upt upt_conv_Cons)
  ultimately show ?case
    using hl by (simp add: n(1) hex_byte_def [of "c # d # cs" 0] comp_def shift del: upt_Suc)
qed auto

definition hex_signature :: "string \<Rightarrow> nat \<Rightarrow> (nat \<times> nat) list \<Rightarrow> bool" where
  "hex_signature s n sg \<longleftrightarrow> list_all is_nibble s \<and> length s = 2 * n \<and>
     list_all (\<lambda>(i, b). i < n \<and> hex_byte s i = b) sg"

end
