(* ===== verification/Json_Value.thy ===== *)
theory Json_Value
  imports Ordered_Map
begin

text \<open>
  \<open>serde_json::Value\<close> as data. The build enables no \<open>preserve_order\<close> feature, so an object is a
  \<open>BTreeMap\<close> and its entries are listed in key order. A number is what \<open>serde_json::Number\<close> holds: a
  \<open>u64\<close>, a negative \<open>i64\<close>, or a float, of which only the text matters here. Text parsing and
  printing of values are parameters of the definitions that use them.
\<close>

datatype json_number = PosInt u64 | NegInt i64 | Float string

datatype json =
    JNull
  | JBool bool
  | JNumber json_number
  | JString string
  | JArray "json list"
  | JObject "(string \<times> json) list"

text \<open>\<open>Value::get(key)\<close>, \<open>as_str\<close>, \<open>as_u64\<close>, \<open>as_i64\<close>, \<open>as_array\<close>.\<close>

fun jget :: "json \<Rightarrow> string \<Rightarrow> json option" where
  "jget (JObject m) k = map_of m k"
| "jget _ k = None"

fun as_str :: "json \<Rightarrow> string option" where
  "as_str (JString s) = Some s"
| "as_str _ = None"

fun as_u64 :: "json \<Rightarrow> u64 option" where
  "as_u64 (JNumber (PosInt n)) = Some n"
| "as_u64 _ = None"

fun as_array :: "json \<Rightarrow> json list option" where
  "as_array (JArray xs) = Some xs"
| "as_array _ = None"

fun as_object :: "json \<Rightarrow> (string \<times> json) list option" where
  "as_object (JObject m) = Some m"
| "as_object _ = None"

text \<open>Every object, at any depth, lists its entries in strictly increasing key order: the
  representation invariant of \<open>serde_json::Map\<close>.\<close>

fun json_ok :: "json \<Rightarrow> bool" where
  "json_ok (JArray xs) \<longleftrightarrow> (\<forall>x \<in> set xs. json_ok x)"
| "json_ok (JObject m) \<longleftrightarrow> bt_ok m \<and> (\<forall>e \<in> set m. json_ok (snd e))"
| "json_ok _ \<longleftrightarrow> True"

text \<open>\<open>and_then(Value::as_str)\<close> after \<open>get\<close>.\<close>

definition get_str :: "json \<Rightarrow> string \<Rightarrow> string option" where
  "get_str v k = (case jget v k of None \<Rightarrow> None | Some x \<Rightarrow> as_str x)"

lemma get_str_object [simp]:
  "get_str (JObject m) k = (case map_of m k of Some (JString s) \<Rightarrow> Some s | _ \<Rightarrow> None)"
  by (simp add: get_str_def split: option.split json.split)

end
