(* ===== verification/Kcc20_Operation.thy ===== *)
theory Kcc20_Operation
  imports Rust_Str Json_Value
begin

text \<open>
  \<open>kcc20_operation.rs\<close> of \<open>kasgraph-detectors\<close>: decoding a receipt from a detector payload, and
  classifying a spend from the receipts it consumes and creates. \<open>hex::decode\<close> is a parameter.
\<close>

unbundle bit_operations_syntax

section \<open>Definitions\<close>

type_synonym u128 = "128 word"

definition IDENTIFIER_COVENANT_ID :: u8 where
  "IDENTIFIER_COVENANT_ID = 2"

record kcc20_receipt =
  rc_owner :: string
  rc_type :: u8
  rc_amount :: u128
  rc_minter :: bool

datatype kcc20_operation = KTransfer | KMint | KBurn | KRotateController

fun kcc20_operation_str :: "kcc20_operation \<Rightarrow> string" where
  "kcc20_operation_str KTransfer = ''transfer''"
| "kcc20_operation_str KMint = ''mint''"
| "kcc20_operation_str KBurn = ''burn''"
| "kcc20_operation_str KRotateController = ''rotate_controller''"

datatype kcc20_decode_error = MissingField string | NotHex string | Overflow string

definition is_controller_binding :: "kcc20_receipt \<Rightarrow> bool" where
  "is_controller_binding r \<longleftrightarrow> rc_minter r \<and> rc_type r = IDENTIFIER_COVENANT_ID"

definition hex_str :: "json \<Rightarrow> string \<Rightarrow> kcc20_decode_error + string" where
  "hex_str payload field =
     (case get_str payload field of None \<Rightarrow> Inl (MissingField field) | Some s \<Rightarrow> Inr s)"

definition hex_bytes :: "hex_decoder \<Rightarrow> json \<Rightarrow> string \<Rightarrow> kcc20_decode_error + u8 list" where
  "hex_bytes hexd payload field =
     (case hex_str payload field of
        Inl e \<Rightarrow> Inl e
      | Inr s \<Rightarrow> (case hexd s of None \<Rightarrow> Inl (NotHex field) | Some bs \<Rightarrow> Inr bs))"

definition hex_byte_field :: "hex_decoder \<Rightarrow> json \<Rightarrow> string \<Rightarrow> kcc20_decode_error + u8" where
  "hex_byte_field hexd payload field =
     (case hex_bytes hexd payload field of
        Inl e \<Rightarrow> Inl e
      | Inr [b] \<Rightarrow> Inr b
      | Inr _ \<Rightarrow> Inl (Overflow field))"

text \<open>\<open>fold(0, |acc, (i, b)| acc | (b << 8 * i))\<close>.\<close>

definition le_fold :: "u8 list \<Rightarrow> u128" where
  "le_fold bs = foldl (\<lambda>acc (i, b). acc OR push_bit (8 * i) (ucast b)) 0 (enumerate 0 bs)"

definition hex_le_u64 :: "hex_decoder \<Rightarrow> json \<Rightarrow> string \<Rightarrow> kcc20_decode_error + u128" where
  "hex_le_u64 hexd payload field =
     (case hex_bytes hexd payload field of
        Inl e \<Rightarrow> Inl e
      | Inr bs \<Rightarrow> if 8 < length bs then Inl (Overflow field) else Inr (le_fold bs))"

definition from_payload :: "hex_decoder \<Rightarrow> json \<Rightarrow> kcc20_decode_error + kcc20_receipt" where
  "from_payload hexd payload =
     (case hex_str payload ''owner_identifier'' of
        Inl e \<Rightarrow> Inl e
      | Inr owner \<Rightarrow>
     (case hex_byte_field hexd payload ''identifier_type'' of
        Inl e \<Rightarrow> Inl e
      | Inr ty \<Rightarrow>
     (case hex_le_u64 hexd payload ''amount'' of
        Inl e \<Rightarrow> Inl e
      | Inr amount \<Rightarrow>
     (case hex_byte_field hexd payload ''is_minter'' of
        Inl e \<Rightarrow> Inl e
      | Inr m \<Rightarrow> Inr \<lparr>rc_owner = owner, rc_type = ty, rc_amount = amount, rc_minter = (m \<noteq> 0)\<rparr>))))"

definition u128_saturating_add :: "u128 \<Rightarrow> u128 \<Rightarrow> u128" where
  "u128_saturating_add a b = (if unat a + unat b < 2 ^ 128 then a + b else - 1)"

definition sum_amounts :: "kcc20_receipt list \<Rightarrow> u128" where
  "sum_amounts rs = foldl (\<lambda>acc r. u128_saturating_add acc (rc_amount r)) 0 rs"

definition controller_bindings :: "kcc20_receipt list \<Rightarrow> string list" where
  "controller_bindings rs =
     foldl (\<lambda>s r. bs_insert (rc_owner r) s) [] (filter is_controller_binding rs)"

definition classify_kcc20_operation :: "kcc20_receipt list \<Rightarrow> kcc20_receipt list \<Rightarrow> kcc20_operation" where
  "classify_kcc20_operation prev nxt =
     (if sum_amounts prev < sum_amounts nxt then KMint
      else if sum_amounts nxt < sum_amounts prev then KBurn
      else if controller_bindings prev \<noteq> controller_bindings nxt then KRotateController
      else KTransfer)"

fun parse_receipts :: "hex_decoder \<Rightarrow> json list \<Rightarrow> kcc20_decode_error + kcc20_receipt list" where
  "parse_receipts hexd [] = Inr []"
| "parse_receipts hexd (p # ps) =
     (case from_payload hexd p of
        Inl e \<Rightarrow> Inl e
      | Inr r \<Rightarrow> (case parse_receipts hexd ps of Inl e \<Rightarrow> Inl e | Inr rs \<Rightarrow> Inr (r # rs)))"

definition kcc20_spend_operation ::
  "hex_decoder \<Rightarrow> json list \<Rightarrow> json list \<Rightarrow> kcc20_decode_error + kcc20_operation" where
  "kcc20_spend_operation hexd consumed created =
     (case parse_receipts hexd consumed of
        Inl e \<Rightarrow> Inl e
      | Inr prev \<Rightarrow>
          (case parse_receipts hexd created of
             Inl e \<Rightarrow> Inl e
           | Inr nxt \<Rightarrow> Inr (classify_kcc20_operation prev nxt)))"

section \<open>Little-endian amounts\<close>

fun le_value :: "u8 list \<Rightarrow> nat" where
  "le_value [] = 0"
| "le_value (b # bs) = unat b + 256 * le_value bs"

lemma le_value_snoc: "le_value (bs @ [b]) = le_value bs + unat b * 256 ^ length bs"
  by (induction bs) (simp_all add: algebra_simps)

lemma u8_bound: "unat (b :: u8) < 256"
  by (rule order_less_le_trans [OF unsigned_less]) simp

lemma le_value_bound: "le_value bs < 256 ^ length bs"
proof (induction bs)
  case (Cons b bs)
  then show ?case using u8_bound [of b] by simp
qed simp

lemma not_bit_ge: "m < 2 ^ n \<Longrightarrow> n \<le> k \<Longrightarrow> \<not> bit (m :: nat) k"
  by (metis bit_take_bit_iff leD take_bit_nat_eq_self)

lemma le_fold_value: "length bs \<le> 16 \<Longrightarrow> le_fold bs = word_of_nat (le_value bs)"
proof (induction bs rule: rev_induct)
  case Nil
  then show ?case by (simp add: le_fold_def)
next
  case (snoc b bs)
  let ?m = "le_value bs" and ?n = "8 * length bs"
  have m: "?m < 2 ^ ?n"
    using le_value_bound [of bs] by (simp add: power_mult)
  have "push_bit ?n (ucast b) = (word_of_nat (unat b * 2 ^ ?n) :: u128)"
    by (simp add: push_bit_eq_mult)
  moreover have "(word_of_nat ?m :: u128) OR push_bit ?n (ucast b) =
      word_of_nat ?m + push_bit ?n (ucast b)"
  proof (rule disjunctive_add [symmetric])
    fix k
    show "\<not> bit (word_of_nat ?m :: u128) k \<or> \<not> bit (push_bit ?n (ucast b) :: u128) k"
      using not_bit_ge [OF m, of k] by (auto simp: bit_push_bit_iff bit_of_nat_iff)
  qed
  ultimately have "(word_of_nat ?m :: u128) OR push_bit ?n (ucast b) =
      word_of_nat (le_value (bs @ [b]))"
    by (simp add: le_value_snoc power_mult)
  then show ?case
    using snoc by (simp add: le_fold_def enumerate_append_eq)
qed

lemma le_fold_unat: "length bs \<le> 8 \<Longrightarrow> unat (le_fold bs) = le_value bs \<and> le_value bs < 2 ^ 64"
proof -
  assume len: "length bs \<le> 8"
  have "(256 :: nat) ^ length bs \<le> 256 ^ 8"
    by (rule power_increasing [OF len]) simp
  then have "le_value bs < 2 ^ 64"
    using le_value_bound [of bs] by simp
  then show ?thesis
    using len by (simp add: le_fold_value unat_of_nat)
qed

section \<open>Classification\<close>

definition total_amount :: "kcc20_receipt list \<Rightarrow> nat" where
  "total_amount rs = sum_list (map (unat \<circ> rc_amount) rs)"

lemma u128_bound: "unat (w :: u128) < 2 ^ 128"
  by (rule order_less_le_trans [OF unsigned_less]) simp

lemma unat_saturating_add128:
  "unat (u128_saturating_add a b) = min (2 ^ 128 - 1) (unat a + unat b)"
proof -
  have "unat (- 1 :: u128) = 2 ^ 128 - 1"
    by (simp add: unat_eq_nat_uint unsigned_minus_1_eq_mask mask_eq_exp_minus_1)
  then show ?thesis
    by (auto simp: u128_saturating_add_def unat_word_ariths)
qed

lemma sum_fold:
  "unat (foldl (\<lambda>acc r. u128_saturating_add acc (rc_amount r)) a rs) =
    min (2 ^ 128 - 1) (unat a + total_amount rs)"
proof (induction rs arbitrary: a)
  case Nil
  then show ?case using u128_bound [of a] by (simp add: total_amount_def)
next
  case (Cons r rs)
  then show ?case by (simp add: unat_saturating_add128 total_amount_def)
qed

lemma sum_amounts_unat: "unat (sum_amounts rs) = min (2 ^ 128 - 1) (total_amount rs)"
  by (simp add: sum_amounts_def sum_fold)

lemma bindings_fold:
  "sorted_wrt (<) s \<Longrightarrow> sorted_wrt (<) (foldl (\<lambda>s r. bs_insert (rc_owner r) s) s rs) \<and>
    set (foldl (\<lambda>s r. bs_insert (rc_owner r) s) s rs) = set s \<union> rc_owner ` set rs"
  by (induction rs arbitrary: s) auto

definition bound_controllers :: "kcc20_receipt list \<Rightarrow> string set" where
  "bound_controllers rs = {rc_owner r | r. r \<in> set rs \<and> rc_minter r \<and> rc_type r = 2}"

lemma controller_bindings_set:
  "sorted_wrt (<) (controller_bindings rs)" "set (controller_bindings rs) = bound_controllers rs"
  using bindings_fold [of "[]" "filter is_controller_binding rs"]
  by (auto simp: controller_bindings_def bound_controllers_def is_controller_binding_def
      IDENTIFIER_COVENANT_ID_def)

lemma controller_bindings_eq_iff:
  "controller_bindings a = controller_bindings b \<longleftrightarrow> bound_controllers a = bound_controllers b"
  using controller_bindings_set [of a] controller_bindings_set [of b]
  by (metis strict_sorted_equal)

lemma classify_spec:
  assumes "total_amount prev < 2 ^ 128" "total_amount nxt < 2 ^ 128"
  shows "classify_kcc20_operation prev nxt =
    (if total_amount prev < total_amount nxt then KMint
     else if total_amount nxt < total_amount prev then KBurn
     else if bound_controllers prev \<noteq> bound_controllers nxt then KRotateController
     else KTransfer)"
  using assms
  by (simp add: classify_kcc20_operation_def word_less_nat_alt sum_amounts_unat
      controller_bindings_eq_iff)

lemma parse_receipts_amounts:
  "parse_receipts hexd ps = Inr rs \<Longrightarrow> (\<forall>r \<in> set rs. unat (rc_amount r) < 2 ^ 64) \<and> length rs = length ps"
proof (induction ps arbitrary: rs)
  case (Cons p ps)
  obtain r rs' where r: "from_payload hexd p = Inr r" "parse_receipts hexd ps = Inr rs'" "rs = r # rs'"
    using Cons.prems by (auto split: sum.splits)
  have "unat (rc_amount r) < 2 ^ 64"
    using r(1) le_fold_unat
    by (fastforce simp: from_payload_def hex_le_u64_def split: sum.splits if_splits)
  then show ?case using Cons.IH [OF r(2)] r(3) by simp
qed simp

lemma total_amount_bound:
  "\<forall>r \<in> set rs. unat (rc_amount r) < 2 ^ 64 \<Longrightarrow> total_amount rs \<le> length rs * 2 ^ 64"
  by (induction rs) (auto simp: total_amount_def)

section \<open>Properties\<close>

text \<open>C35: classification is exact. Whenever both receipt sets of a spend decode, with fewer than
  \<open>2^64\<close> receipts on each side, no sum saturates, and the operation is a mint exactly when the total
  amount rises, a burn exactly when it falls, and with the supply conserved a controller rotation
  exactly when the set of controllers bound on minter branches changes, otherwise a transfer.\<close>

theorem kcc20_classification_exact:
  assumes "parse_receipts hexd consumed = Inr prev" "parse_receipts hexd created = Inr nxt"
    "length consumed < 2 ^ 64" "length created < 2 ^ 64"
  shows "kcc20_spend_operation hexd consumed created = Inr
    (if total_amount prev < total_amount nxt then KMint
     else if total_amount nxt < total_amount prev then KBurn
     else if bound_controllers prev \<noteq> bound_controllers nxt then KRotateController
     else KTransfer)"
proof -
  have b: "total_amount rs < 2 ^ 128" if "parse_receipts hexd ps = Inr rs" "length ps < 2 ^ 64" for ps rs
  proof -
    have "total_amount rs \<le> length ps * 2 ^ 64"
      using parse_receipts_amounts [OF that(1)] total_amount_bound [of rs] by simp
    also have "\<dots> < 2 ^ 64 * 2 ^ 64"
      using that(2) by simp
    finally show ?thesis by simp
  qed
  show ?thesis
    using assms classify_spec [OF b [OF assms(1,3)] b [OF assms(2,4)]]
    by (simp add: kcc20_spend_operation_def)
qed

definition sample_receipt :: "string \<Rightarrow> json" where
  "sample_receipt amt = JObject [(''amount'', JString amt), (''identifier_type'', JString ''00''),
     (''is_minter'', JString ''00''), (''owner_identifier'', JString ''0707'')]"

lemmas sample_simps = sample_receipt_def from_payload_def hex_str_def hex_byte_field_def
  hex_bytes_def hex_le_u64_def nibble_table le_fold_value

lemma kcc20_classification_exact_witness:
  "kcc20_spend_operation base16_decode [sample_receipt ''0a00000000000000'']
      [sample_receipt ''04'', sample_receipt ''06''] = Inr KTransfer"
proof -
  have p: "parse_receipts base16_decode [sample_receipt ''0a00000000000000''] =
      Inr [\<lparr>rc_owner = ''0707'', rc_type = 0, rc_amount = 10, rc_minter = False\<rparr>]"
    by (simp add: sample_simps)
  have q: "parse_receipts base16_decode [sample_receipt ''04'', sample_receipt ''06''] =
      Inr [\<lparr>rc_owner = ''0707'', rc_type = 0, rc_amount = 4, rc_minter = False\<rparr>,
        \<lparr>rc_owner = ''0707'', rc_type = 0, rc_amount = 6, rc_minter = False\<rparr>]"
    by (simp add: sample_simps)
  from kcc20_classification_exact [OF p q] show ?thesis
    by (auto simp: total_amount_def bound_controllers_def split: if_splits)
qed

text \<open>An amount decodes to its little-endian value. A receipt decodes exactly when its four fields
  are present, are valid hexadecimal and have their widths, and then its amount is the number the
  (at most eight) bytes denote, least significant first, so below \<open>2^64\<close>.\<close>

theorem kcc20_receipt_decode:
  "from_payload hexd p = Inr r \<longleftrightarrow>
    (\<exists>ts t as bs ms m. get_str p ''owner_identifier'' = Some (rc_owner r) \<and>
       get_str p ''identifier_type'' = Some ts \<and> hexd ts = Some [t] \<and> rc_type r = t \<and>
       get_str p ''amount'' = Some as \<and> hexd as = Some bs \<and> length bs \<le> 8 \<and>
       unat (rc_amount r) = le_value bs \<and> le_value bs < 2 ^ 64 \<and>
       get_str p ''is_minter'' = Some ms \<and> hexd ms = Some [m] \<and> rc_minter r = (m \<noteq> 0))"
proof -
  have byte: "hex_byte_field hexd p f = Inr b \<longleftrightarrow> (\<exists>s. get_str p f = Some s \<and> hexd s = Some [b])" for f b
    by (auto simp: hex_byte_field_def hex_bytes_def hex_str_def split: option.splits sum.splits list.splits)
  have owner: "hex_str p f = Inr s \<longleftrightarrow> get_str p f = Some s" for f s
    by (auto simp: hex_str_def split: option.splits)
  have amt: "hex_le_u64 hexd p f = Inr a \<longleftrightarrow> (\<exists>s bs. get_str p f = Some s \<and> hexd s = Some bs \<and>
      length bs \<le> 8 \<and> unat a = le_value bs \<and> le_value bs < 2 ^ 64)" for f a
    using le_fold_unat
    by (auto simp: hex_le_u64_def hex_bytes_def hex_str_def word_unat_eq_iff
        split: option.splits sum.splits)
  have "from_payload hexd p = Inr r \<longleftrightarrow> hex_str p ''owner_identifier'' = Inr (rc_owner r) \<and>
      hex_byte_field hexd p ''identifier_type'' = Inr (rc_type r) \<and>
      hex_le_u64 hexd p ''amount'' = Inr (rc_amount r) \<and>
      (\<exists>m. hex_byte_field hexd p ''is_minter'' = Inr m \<and> rc_minter r = (m \<noteq> 0))"
    by (cases r) (auto simp: from_payload_def split: sum.splits)
  then show ?thesis
    unfolding byte owner amt by blast
qed

end
