(* ===== verification/Stream_Hub.thy ===== *)
theory Stream_Hub
  imports Json_Value
begin

text \<open>
  \<open>kasgraph-stream\<close>: filters, matching, and the receive loops of a subscription. The broadcast
  channel of tokio is not part of the repository: what its receiver returns, call after call, is a
  list of results the loops consume, and the count \<open>send\<close> returns is an argument of \<open>publish\<close>.
\<close>

datatype stream_filter =
    CovenantIdFilter string
  | OpenSilverPatternFilter string
  | Krc20TickerFilter string
  | AddressFilter string
  | AllFilter

record stream_event =
  ev_daa :: u64
  ev_block_hash :: string
  ev_kind :: string
  ev_payload :: json

datatype stream_error = StreamClosed | StreamLagged u64

text \<open>What \<open>broadcast::Receiver::recv\<close> and \<open>try_recv\<close> return.\<close>

datatype recv_result = RecvEvent stream_event | RecvClosed | RecvLagged u64 | RecvEmpty

definition payload_string :: "stream_event \<Rightarrow> string \<Rightarrow> string option" where
  "payload_string e key = get_str (ev_payload e) key"

definition ADDRESS_FIELDS :: "string list" where
  "ADDRESS_FIELDS =
     [''address'', ''sender'', ''recipient'', ''owner'', ''owner_pubkey'', ''beneficiary'', ''to'',
      ''from'', ''holder'', ''holder_pubkey'']"

fun event_matches :: "stream_event \<Rightarrow> stream_filter \<Rightarrow> bool" where
  "event_matches e AllFilter = True"
| "event_matches e (CovenantIdFilter i) = (payload_string e ''covenant_id'' = Some i)"
| "event_matches e (OpenSilverPatternFilter p) = (ev_kind e = p)"
| "event_matches e (Krc20TickerFilter t) = (payload_string e ''tick'' = Some t)"
| "event_matches e (AddressFilter a) =
     list_ex (\<lambda>key. payload_string e key = Some a) ADDRESS_FIELDS"

definition event_matches_any :: "stream_event \<Rightarrow> stream_filter list \<Rightarrow> bool" where
  "event_matches_any e filters = list_ex (event_matches e) filters"

text \<open>\<open>recv\<close>: \<^const>\<open>None\<close> is still waiting for the channel.\<close>

fun sub_recv ::
  "stream_filter list \<Rightarrow> recv_result list \<Rightarrow> (stream_error + stream_event) option \<times> recv_result list" where
  "sub_recv fs [] = (None, [])"
| "sub_recv fs (RecvEvent e # rs) =
     (if event_matches_any e fs then (Some (Inr e), rs) else sub_recv fs rs)"
| "sub_recv fs (RecvClosed # rs) = (Some (Inl StreamClosed), rs)"
| "sub_recv fs (RecvLagged n # rs) = (Some (Inl (StreamLagged n)), rs)"
| "sub_recv fs (RecvEmpty # rs) = sub_recv fs rs"

fun sub_try_recv ::
  "stream_filter list \<Rightarrow> recv_result list \<Rightarrow>
     (stream_error + stream_event option) \<times> recv_result list" where
  "sub_try_recv fs [] = (Inr None, [])"
| "sub_try_recv fs (RecvEvent e # rs) =
     (if event_matches_any e fs then (Inr (Some e), rs) else sub_try_recv fs rs)"
| "sub_try_recv fs (RecvEmpty # rs) = (Inr None, rs)"
| "sub_try_recv fs (RecvClosed # rs) = (Inl StreamClosed, rs)"
| "sub_try_recv fs (RecvLagged n # rs) = (Inl (StreamLagged n), rs)"

text \<open>\<open>publish\<close>: no receiver is not an error.\<close>

definition hub_publish :: "nat option \<Rightarrow> nat" where
  "hub_publish sent = (case sent of Some n \<Rightarrow> n | None \<Rightarrow> 0)"

definition hub_capacity :: "nat \<Rightarrow> nat" where
  "hub_capacity capacity = max capacity 1"

text \<open>A consumer that keeps receiving, also after a lag.\<close>

lemma sub_recv_shorter: "sub_recv fs rs = (Some x, rs') \<Longrightarrow> length rs' < length rs"
  by (induction fs rs rule: sub_recv.induct) (auto split: if_splits)

function consume :: "stream_filter list \<Rightarrow> recv_result list \<Rightarrow> (stream_error + stream_event) list" where
  "consume fs rs =
     (case sub_recv fs rs of (None, _) \<Rightarrow> [] | (Some x, rs') \<Rightarrow> x # consume fs rs')"
  by pat_completeness auto
termination
  by (relation "measure (length \<circ> snd)") (auto dest!: sub_recv_shorter sym [of "(_, _)"])

declare consume.simps [simp del]

definition deliverable :: "stream_filter list \<Rightarrow> recv_result \<Rightarrow> bool" where
  "deliverable fs r = (case r of RecvEvent e \<Rightarrow> (\<exists>f \<in> set fs. event_matches e f)
     | RecvClosed \<Rightarrow> True | RecvLagged n \<Rightarrow> True | RecvEmpty \<Rightarrow> False)"

fun delivered :: "recv_result \<Rightarrow> stream_error + stream_event" where
  "delivered (RecvEvent e) = Inr e"
| "delivered (RecvLagged n) = Inl (StreamLagged n)"
| "delivered _ = Inl StreamClosed"

lemma consume_Nil: "consume fs [] = []"
  by (simp add: consume.simps)

lemma consume_Cons:
  "consume fs (r # rs) = (case r of
     RecvEvent e \<Rightarrow> if \<exists>f \<in> set fs. event_matches e f then Inr e # consume fs rs else consume fs rs
   | RecvClosed \<Rightarrow> Inl StreamClosed # consume fs rs
   | RecvLagged n \<Rightarrow> Inl (StreamLagged n) # consume fs rs
   | RecvEmpty \<Rightarrow> consume fs rs)"
  by (auto simp: consume.simps [of fs "r # rs"] consume.simps [of fs rs] event_matches_any_def
      list_ex_iff split: recv_result.split)

text \<open>A subscription delivers exactly its events. A consumer that keeps receiving gets, in channel
  order and each once, every event that matches at least one of its filters and every closed or lag
  report, and nothing else; with no filter it gets no event at all.\<close>

theorem stream_delivery:
  "consume fs rs = map delivered (filter (deliverable fs) rs)"
  by (induction rs rule: list.induct [case_names Nil Cons])
    (auto simp: consume_Nil consume_Cons deliverable_def split: recv_result.splits)

end
