(* ===== verification/Event_Hub.thy ===== *)
theory Event_Hub
  imports Stream_Hub
begin

text \<open>
  The hub of \<open>kasgraph-stream\<close> over its broadcast channel. The channel of tokio is not part of the repository: its
  operations are a parameter, and what it is documented to do is the predicate \<open>broadcast\<close>.
\<close>

section \<open>The operations of the channel\<close>

record ('c, 'r) channel_ops =
  ch_channel :: "nat \<Rightarrow> 'c"
  ch_receiver_count :: "'c \<Rightarrow> nat"
  ch_subscribe :: "'c \<Rightarrow> 'r \<times> 'c"
  ch_send :: "stream_event \<Rightarrow> 'c \<Rightarrow> nat option \<times> 'c"
  ch_try_recv :: "'r \<Rightarrow> 'c \<Rightarrow> recv_result \<times> 'r \<times> 'c"

section \<open>The hub and its subscriptions\<close>

record 'c stream_hub =
  hub_tx :: 'c

record 'r stream_subscription =
  sub_rx :: 'r
  sub_filters :: "stream_filter list"

definition hub_new :: "('c, 'r) channel_ops \<Rightarrow> nat \<Rightarrow> 'c stream_hub" where
  "hub_new ops capacity = \<lparr>hub_tx = ch_channel ops (hub_capacity capacity)\<rparr>"

definition subscriber_count :: "('c, 'r) channel_ops \<Rightarrow> 'c stream_hub \<Rightarrow> nat" where
  "subscriber_count ops hub = ch_receiver_count ops (hub_tx hub)"

definition hub_subscribe ::
  "('c, 'r) channel_ops \<Rightarrow> stream_filter list \<Rightarrow> 'c stream_hub \<Rightarrow> 'r stream_subscription \<times> 'c stream_hub" where
  "hub_subscribe ops filters hub =
     (case ch_subscribe ops (hub_tx hub) of (rx, tx) \<Rightarrow> (\<lparr>sub_rx = rx, sub_filters = filters\<rparr>, hub\<lparr>hub_tx := tx\<rparr>))"

definition hub_send :: "('c, 'r) channel_ops \<Rightarrow> stream_event \<Rightarrow> 'c stream_hub \<Rightarrow> nat \<times> 'c stream_hub" where
  "hub_send ops event hub =
     (case ch_send ops event (hub_tx hub) of (sent, tx) \<Rightarrow> (hub_publish sent, hub\<lparr>hub_tx := tx\<rparr>))"

text \<open>\<open>try_recv\<close>: the loop ends only if the channel does not report unmatched events for ever.\<close>

partial_function (option) hub_try_recv ::
  "('c, 'r) channel_ops \<Rightarrow> 'r stream_subscription \<Rightarrow> 'c stream_hub
     \<Rightarrow> ((stream_error + stream_event option) \<times> 'r stream_subscription \<times> 'c stream_hub) option" where
  "hub_try_recv ops s hub =
     (case ch_try_recv ops (sub_rx s) (hub_tx hub) of
        (x, rx, tx) \<Rightarrow>
          (let s = s\<lparr>sub_rx := rx\<rparr>; hub = hub\<lparr>hub_tx := tx\<rparr> in
           case x of
             RecvEvent e \<Rightarrow>
               if event_matches_any e (sub_filters s) then Some (Inr (Some e), s, hub) else hub_try_recv ops s hub
           | RecvEmpty \<Rightarrow> Some (Inr None, s, hub)
           | RecvClosed \<Rightarrow> Some (Inl StreamClosed, s, hub)
           | RecvLagged n \<Rightarrow> Some (Inl (StreamLagged n), s, hub)))"

section \<open>What the channel is documented to do\<close>

text \<open>Of a channel in a good state \<open>c\<close>, \<open>live c\<close> are the receivers attached and \<open>pending c r\<close> the values sent since
  \<open>r\<close> subscribed that it has not received, while it has not lagged. A value reaches every receiver that has
  room for it, receivers do not disturb each other, and a send to none is an error.\<close>

type_synonym ('c, 'r) backlog = "'c \<Rightarrow> 'r \<Rightarrow> stream_event list option"

definition channel_opens :: "('c, 'r) channel_ops \<Rightarrow> ('c \<Rightarrow> bool) \<Rightarrow> ('c \<Rightarrow> nat) \<Rightarrow> ('c \<Rightarrow> 'r set) \<Rightarrow> bool" where
  "channel_opens ops good room live \<longleftrightarrow>
     (\<forall>k. 0 < k \<longrightarrow> good (ch_channel ops k) \<and> k \<le> room (ch_channel ops k) \<and> live (ch_channel ops k) = {}) \<and>
     (\<forall>c. good c \<longrightarrow> finite (live c) \<and> ch_receiver_count ops c = card (live c))"

definition channel_subscribes ::
  "('c, 'r) channel_ops \<Rightarrow> ('c \<Rightarrow> bool) \<Rightarrow> ('c \<Rightarrow> nat) \<Rightarrow> ('c \<Rightarrow> 'r set) \<Rightarrow> ('c, 'r) backlog \<Rightarrow> bool" where
  "channel_subscribes ops good room live pending \<longleftrightarrow>
     (\<forall>c r c'. good c \<longrightarrow> ch_subscribe ops c = (r, c') \<longrightarrow>
        good c' \<and> room c' = room c \<and> r \<notin> live c \<and> live c' = insert r (live c) \<and> pending c' r = Some [] \<and>
        (\<forall>q \<in> live c. pending c' q = pending c q))"

definition channel_sends ::
  "('c, 'r) channel_ops \<Rightarrow> ('c \<Rightarrow> bool) \<Rightarrow> ('c \<Rightarrow> nat) \<Rightarrow> ('c \<Rightarrow> 'r set) \<Rightarrow> ('c, 'r) backlog \<Rightarrow> bool" where
  "channel_sends ops good room live pending \<longleftrightarrow>
     (\<forall>c e sent c'. good c \<longrightarrow> ch_send ops e c = (sent, c') \<longrightarrow>
        good c' \<and> room c' = room c \<and> live c' = live c \<and> sent = (if live c = {} then None else Some (card (live c))) \<and>
        (\<forall>r \<in> live c. \<forall>q. pending c r = Some q \<longrightarrow> length q < room c \<longrightarrow> pending c' r = Some (q @ [e])))"

definition channel_receives ::
  "('c, 'r) channel_ops \<Rightarrow> ('c \<Rightarrow> bool) \<Rightarrow> ('c \<Rightarrow> nat) \<Rightarrow> ('c \<Rightarrow> 'r set) \<Rightarrow> ('c, 'r) backlog \<Rightarrow> bool" where
  "channel_receives ops good room live pending \<longleftrightarrow>
     (\<forall>c r x r' c'. good c \<longrightarrow> r \<in> live c \<longrightarrow> ch_try_recv ops r c = (x, r', c') \<longrightarrow>
        good c' \<and> room c' = room c \<and> live c' = live c \<and> r' = r \<and> (\<forall>p \<in> live c - {r}. pending c' p = pending c p) \<and>
        (\<forall>q. pending c r = Some q \<longrightarrow> x = (case q of [] \<Rightarrow> RecvEmpty | e # es \<Rightarrow> RecvEvent e) \<and> pending c' r = Some (tl q)))"

definition broadcast ::
  "('c, 'r) channel_ops \<Rightarrow> ('c \<Rightarrow> bool) \<Rightarrow> ('c \<Rightarrow> nat) \<Rightarrow> ('c \<Rightarrow> 'r set) \<Rightarrow> ('c, 'r) backlog \<Rightarrow> bool" where
  "broadcast ops good room live pending \<longleftrightarrow> channel_opens ops good room live \<and>
     channel_subscribes ops good room live pending \<and> channel_sends ops good room live pending \<and>
     channel_receives ops good room live pending"

section \<open>Publishing and polling\<close>

text \<open>What happens on a hub: events are published, others subscribe, others receive.\<close>

datatype 'r hub_op = Publish stream_event | Attach "stream_filter list" | Receive 'r

fun hub_step :: "('c, 'r) channel_ops \<Rightarrow> 'r hub_op \<Rightarrow> 'c stream_hub \<Rightarrow> 'c stream_hub" where
  "hub_step ops (Publish e) hub = snd (hub_send ops e hub)"
| "hub_step ops (Attach filters) hub = snd (hub_subscribe ops filters hub)"
| "hub_step ops (Receive r) hub = hub\<lparr>hub_tx := snd (snd (ch_try_recv ops r (hub_tx hub)))\<rparr>"

fun published :: "'r hub_op list \<Rightarrow> stream_event list" where
  "published [] = []"
| "published (Publish e # us) = e # published us"
| "published (_ # us) = published us"

fun polls ::
  "('c, 'r) channel_ops \<Rightarrow> nat \<Rightarrow> 'r stream_subscription \<Rightarrow> 'c stream_hub \<Rightarrow> (stream_error + stream_event option) list option" where
  "polls ops 0 s hub = Some []"
| "polls ops (Suc k) s hub =
     Option.bind (hub_try_recv ops s hub) (\<lambda>(r, s, hub). map_option ((#) r) (polls ops k s hub))"

definition waiting ::
  "('c \<Rightarrow> bool) \<Rightarrow> ('c \<Rightarrow> 'r set) \<Rightarrow> ('c, 'r) backlog \<Rightarrow> 'r stream_subscription \<Rightarrow> stream_event list \<Rightarrow> 'c stream_hub \<Rightarrow> bool" where
  "waiting good live pending s q hub \<longleftrightarrow>
     good (hub_tx hub) \<and> sub_rx s \<in> live (hub_tx hub) \<and> pending (hub_tx hub) (sub_rx s) = Some q"

lemma step_waiting:
  assumes "broadcast ops good room live pending" "waiting good live pending s q hub"
    "\<And>r. u = Receive r \<Longrightarrow> r \<in> live (hub_tx hub) - {sub_rx s}" "length q < room (hub_tx hub) \<or> published [u] = []"
  shows "waiting good live pending s (q @ published [u]) (hub_step ops u hub) \<and>
    room (hub_tx (hub_step ops u hub)) = room (hub_tx hub) \<and> live (hub_tx hub) \<subseteq> live (hub_tx (hub_step ops u hub))"
proof -
  have w: "good (hub_tx hub)" "sub_rx s \<in> live (hub_tx hub)" "pending (hub_tx hub) (sub_rx s) = Some q"
    using assms(2) by (simp_all add: waiting_def)
  show ?thesis
  proof (cases u)
    case (Publish e)
    obtain sent c' where c': "ch_send ops e (hub_tx hub) = (sent, c')" by force
    have "length q < room (hub_tx hub)" using assms(4) Publish by simp
    then have "good c' \<and> room c' = room (hub_tx hub) \<and> live c' = live (hub_tx hub) \<and> pending c' (sub_rx s) = Some (q @ [e])"
      using assms(1) w c' unfolding broadcast_def channel_sends_def by blast
    then show ?thesis using w by (simp add: waiting_def Publish hub_send_def c')
  next
    case (Attach filters)
    obtain r c' where c': "ch_subscribe ops (hub_tx hub) = (r, c')" by force
    have "good c' \<and> room c' = room (hub_tx hub) \<and> live c' = insert r (live (hub_tx hub)) \<and> pending c' (sub_rx s) = pending (hub_tx hub) (sub_rx s)"
      using assms(1) w c' unfolding broadcast_def channel_subscribes_def by blast
    then show ?thesis using w by (auto simp: waiting_def Attach hub_subscribe_def c')
  next
    case (Receive r)
    obtain x r' c' where c': "ch_try_recv ops r (hub_tx hub) = (x, r', c')" by (metis prod.exhaust)
    have r: "r \<in> live (hub_tx hub)" "sub_rx s \<in> live (hub_tx hub) - {r}" using assms(3) [OF Receive] w(2) by auto
    then have "good c' \<and> room c' = room (hub_tx hub) \<and> live c' = live (hub_tx hub) \<and> pending c' (sub_rx s) = pending (hub_tx hub) (sub_rx s)"
      using assms(1) w(1) c' unfolding broadcast_def channel_receives_def by blast
    then show ?thesis using w by (simp add: waiting_def Receive c')
  qed
qed

lemma published_waiting:
  assumes "broadcast ops good room live pending"
  shows "waiting good live pending s q hub \<Longrightarrow> length q + length (published us) \<le> room (hub_tx hub) \<Longrightarrow>
    \<forall>r. Receive r \<in> set us \<longrightarrow> r \<in> live (hub_tx hub) - {sub_rx s} \<Longrightarrow>
    waiting good live pending s (q @ published us) (foldl (\<lambda>h u. hub_step ops u h) hub us)"
proof (induction us arbitrary: q hub)
  case (Cons u us)
  have p: "published (u # us) = published [u] @ published us" by (cases u) simp_all
  have "length q < room (hub_tx hub) \<or> published [u] = []" using Cons.prems(2) p by (cases u) auto
  from step_waiting [OF assms Cons.prems(1) _ this] Cons.prems(3)
  have now: "waiting good live pending s (q @ published [u]) (hub_step ops u hub)"
      "room (hub_tx (hub_step ops u hub)) = room (hub_tx hub)" "live (hub_tx hub) \<subseteq> live (hub_tx (hub_step ops u hub))"
    by auto
  have "\<forall>r. Receive r \<in> set us \<longrightarrow> r \<in> live (hub_tx (hub_step ops u hub)) - {sub_rx s}"
    using Cons.prems(3) now(3) by auto
  from Cons.IH [OF now(1) _ this] now(2) Cons.prems(2) p show ?case by simp
qed simp

lemma received:
  assumes "channel_receives ops good room live pending" "waiting good live pending s q hub"
  shows "\<exists>c'. ch_try_recv ops (sub_rx s) (hub_tx hub) = (case q of [] \<Rightarrow> RecvEmpty | e # es \<Rightarrow> RecvEvent e, sub_rx s, c') \<and>
    waiting good live pending s (tl q) (hub\<lparr>hub_tx := c'\<rparr>)"
proof -
  obtain x r c' where c': "ch_try_recv ops (sub_rx s) (hub_tx hub) = (x, r, c')" by (metis prod.exhaust)
  have w: "good (hub_tx hub)" "sub_rx s \<in> live (hub_tx hub)" "pending (hub_tx hub) (sub_rx s) = Some q"
    using assms(2) by (simp_all add: waiting_def)
  have now: "good c'" "live c' = live (hub_tx hub)" "r = sub_rx s" "x = (case q of [] \<Rightarrow> RecvEmpty | e # es \<Rightarrow> RecvEvent e)"
      "pending c' (sub_rx s) = Some (tl q)"
    using assms(1) w c' unfolding channel_receives_def by blast+
  then show ?thesis using w(2) c' by (intro exI [of _ c']) (simp add: waiting_def)
qed

lemma same_subscription [simp]: "s\<lparr>sub_rx := sub_rx s\<rparr> = s"
  by simp

lemma try_recv_waiting:
  assumes "channel_receives ops good room live pending"
  shows "waiting good live pending s q hub \<Longrightarrow>
    \<exists>hub' q'. filter (\<lambda>e. event_matches_any e (sub_filters s)) q' = tl (filter (\<lambda>e. event_matches_any e (sub_filters s)) q) \<and>
      waiting good live pending s q' hub' \<and>
      hub_try_recv ops s hub = Some (Inr (case filter (\<lambda>e. event_matches_any e (sub_filters s)) q of [] \<Rightarrow> None | e # es \<Rightarrow> Some e), s, hub')"
proof (induction q arbitrary: hub)
  case Nil
  obtain c' where "ch_try_recv ops (sub_rx s) (hub_tx hub) = (RecvEmpty, sub_rx s, c')"
      "waiting good live pending s [] (hub\<lparr>hub_tx := c'\<rparr>)"
    using received [OF assms Nil] by auto
  then show ?case by (intro exI [of _ "hub\<lparr>hub_tx := c'\<rparr>"] exI [of _ "[]"]) (simp add: hub_try_recv.simps)
next
  case (Cons e q)
  obtain c' where c': "ch_try_recv ops (sub_rx s) (hub_tx hub) = (RecvEvent e, sub_rx s, c')"
      "waiting good live pending s q (hub\<lparr>hub_tx := c'\<rparr>)"
    using received [OF assms Cons.prems] by auto
  show ?case
  proof (cases "event_matches_any e (sub_filters s)")
    case True
    then show ?thesis using c'
      by (intro exI [of _ "hub\<lparr>hub_tx := c'\<rparr>"] exI [of _ q]) (simp add: hub_try_recv.simps [of ops s hub])
  next
    case False
    then show ?thesis using Cons.IH [OF c'(2)] c'(1) by (simp add: hub_try_recv.simps [of ops s hub])
  qed
qed

lemma polls_waiting:
  assumes "channel_receives ops good room live pending"
  shows "waiting good live pending s q hub \<Longrightarrow>
    polls ops (length (filter (\<lambda>e. event_matches_any e (sub_filters s)) q) + k) s hub =
      Some (map (\<lambda>e. Inr (Some e)) (filter (\<lambda>e. event_matches_any e (sub_filters s)) q) @ replicate k (Inr None))"
proof (induction "length (filter (\<lambda>e. event_matches_any e (sub_filters s)) q) + k" arbitrary: q hub k)
  case (Suc n)
  let ?m = "filter (\<lambda>e. event_matches_any e (sub_filters s))"
  obtain hub' q' where t: "?m q' = tl (?m q)" "waiting good live pending s q' hub'"
      "hub_try_recv ops s hub = Some (Inr (case ?m q of [] \<Rightarrow> None | e # es \<Rightarrow> Some e), s, hub')"
    using try_recv_waiting [OF assms Suc.prems] by blast
  show ?case
  proof (cases "?m q")
    case Nil
    then obtain j where "k = Suc j" "n = j" using Suc.hyps(2) by (cases k) auto
    with Suc.hyps(1) [of q' j hub'] t Nil show ?thesis by simp
  next
    case (Cons e es)
    then have "n = length (?m q') + k" using Suc.hyps(2) t(1) by simp
    from Suc.hyps(1) [OF this t(2)] t Cons show ?thesis by simp
  qed
qed simp


text \<open>A channel of bounded queues that does so: each receiver has a count of what it missed and its queue.\<close>

type_synonym queues = "nat \<times> (nat \<times> stream_event list) list"

fun enqueue :: "nat \<Rightarrow> stream_event \<Rightarrow> nat \<times> stream_event list \<Rightarrow> nat \<times> stream_event list" where
  "enqueue k e (missed, q) = (if length q < k then (missed, q @ [e]) else (missed + 1, tl q @ [e]))"

fun dequeue :: "nat \<times> stream_event list \<Rightarrow> recv_result \<times> nat \<times> stream_event list" where
  "dequeue (Suc n, q) = (RecvLagged (of_nat (Suc n)), 0, q)"
| "dequeue (0, []) = (RecvEmpty, 0, [])"
| "dequeue (0, e # q) = (RecvEvent e, 0, q)"

definition queue_ops :: "(queues, nat) channel_ops" where
  "queue_ops = \<lparr>ch_channel = (\<lambda>k. (k, [])), ch_receiver_count = (\<lambda>c. length (snd c)),
     ch_subscribe = (\<lambda>c. (length (snd c), fst c, snd c @ [(0, [])])),
     ch_send = (\<lambda>e c. (if snd c = [] then None else Some (length (snd c)), fst c, map (enqueue (fst c) e) (snd c))),
     ch_try_recv = (\<lambda>r c. case dequeue (snd c ! r) of (x, q) \<Rightarrow> (x, r, fst c, (snd c)[r := q]))\<rparr>"

definition queue_pending :: "(queues, nat) backlog" where
  "queue_pending c r = (if fst (snd c ! r) = 0 then Some (snd (snd c ! r)) else None)"

lemma queue_broadcast: "broadcast queue_ops (\<lambda>_. True) fst (\<lambda>c. {..<length (snd c)}) queue_pending"
proof -
  have "fst (enqueue k e p) = 0 \<and> snd (enqueue k e p) = snd p @ [e]" if "fst p = 0" "length (snd p) < k" for k e p
    using that by (cases p) simp
  then have "channel_sends queue_ops (\<lambda>_. True) fst (\<lambda>c. {..<length (snd c)}) queue_pending"
    by (auto simp: channel_sends_def queue_ops_def queue_pending_def split: if_splits)
  moreover have "channel_receives queue_ops (\<lambda>_. True) fst (\<lambda>c. {..<length (snd c)}) queue_pending"
    unfolding channel_receives_def
  proof (intro allI impI)
    fix c :: queues and r x r' c'
    assume r: "r \<in> {..<length (snd c)}" and recv: "ch_try_recv queue_ops r c = (x, r', c')"
    obtain m q where mq: "snd c ! r = (m, q)" by force
    obtain y q' where d: "dequeue (m, q) = (y, q')" by (metis prod.exhaust)
    have c': "c' = (fst c, (snd c)[r := q'])" "r' = r" "x = y"
      using recv by (auto simp: queue_ops_def mq d)
    have "m = 0 \<Longrightarrow> y = (case q of [] \<Rightarrow> RecvEmpty | e # es \<Rightarrow> RecvEvent e) \<and> q' = (0, tl q)"
      using d by (cases q) auto
    then show "True \<and> fst c' = fst c \<and> {..<length (snd c')} = {..<length (snd c)} \<and> r' = r \<and>
        (\<forall>p \<in> {..<length (snd c)} - {r}. queue_pending c' p = queue_pending c p) \<and>
        (\<forall>q. queue_pending c r = Some q \<longrightarrow> x = (case q of [] \<Rightarrow> RecvEmpty | e # es \<Rightarrow> RecvEvent e) \<and> queue_pending c' r = Some (tl q))"
      using r by (auto simp: c' queue_pending_def mq)
  qed
  moreover have "channel_opens queue_ops (\<lambda>_. True) fst (\<lambda>c. {..<length (snd c)})"
    "channel_subscribes queue_ops (\<lambda>_. True) fst (\<lambda>c. {..<length (snd c)}) queue_pending"
    by (auto simp: channel_opens_def channel_subscribes_def queue_ops_def queue_pending_def nth_append)
  ultimately show ?thesis by (simp add: broadcast_def)
qed


end
