(* ===== verification/Fingerprint.thy ===== *)
theory Fingerprint
  imports Ordered_Map
begin

text \<open>
  \<open>fingerprint.rs\<close> of \<open>kasgraph-detectors\<close>: exact and anchored fingerprints of compiled scripts,
  matching, extraction of the masked state windows, validation, and the derivation of an anchored
  fingerprint from sample scripts. The slices of the extraction panic out of range, so extraction
  returns a \<^typ>\<open>'a run\<close>; offsets and lengths are \<open>usize\<close> constants of the registry and their sums
  are far below the word size.
\<close>

section \<open>Definitions\<close>

record masked_window =
  w_field :: string
  w_offset :: nat
  w_len :: nat

datatype fingerprint_error =
    WindowOutOfBounds string nat nat nat
  | WindowsOverlap string string
  | TooFewSamples nat
  | AnchorsOverlap nat nat nat

record fingerprint =
  fp_bytes :: "u8 list"
  fp_windows :: "masked_window list"

record anchored_fingerprint =
  af_head :: "u8 list"
  af_windows :: "masked_window list"
  af_tail :: "u8 list"

type_synonym fields = "(string \<times> u8 list) list"

definition in_window :: "nat \<Rightarrow> masked_window \<Rightarrow> bool" where
  "in_window i w \<longleftrightarrow> w_offset w \<le> i \<and> i < w_offset w + w_len w"

definition in_mask :: "masked_window list \<Rightarrow> nat \<Rightarrow> bool" where
  "in_mask ws i = list_ex (in_window i) ws"

definition fp_matches :: "fingerprint \<Rightarrow> u8 list \<Rightarrow> bool" where
  "fp_matches f script \<longleftrightarrow> length script = length (fp_bytes f) \<and>
     list_all (\<lambda>(i, expected, actual). in_mask (fp_windows f) i \<or> expected = actual)
       (enumerate 0 (zip (fp_bytes f) script))"

fun extract_windows :: "masked_window list \<Rightarrow> u8 list \<Rightarrow> fields \<Rightarrow> fields run" where
  "extract_windows [] script out = Returns out"
| "extract_windows (w # ws) script out =
     run_bind (slice script (w_offset w) (w_len w))
       (\<lambda>bs. extract_windows ws script (bt_insert (w_field w) bs out))"

definition fp_match_and_extract :: "fingerprint \<Rightarrow> u8 list \<Rightarrow> fields option run" where
  "fp_match_and_extract f script =
     (if fp_matches f script then run_map Some (extract_windows (fp_windows f) script [])
      else Returns None)"

fun check_bounds :: "masked_window list \<Rightarrow> nat \<Rightarrow> fingerprint_error + unit" where
  "check_bounds [] n = Inr ()"
| "check_bounds (w # ws) n =
     (if n < w_offset w + w_len w
      then Inl (WindowOutOfBounds (w_field w) (w_offset w) (w_len w) n)
      else check_bounds ws n)"

definition windows_overlap :: "masked_window \<Rightarrow> masked_window \<Rightarrow> bool" where
  "windows_overlap a b \<longleftrightarrow> w_offset a < w_offset b + w_len b \<and> w_offset b < w_offset a + w_len a"

fun check_overlap :: "masked_window list \<Rightarrow> fingerprint_error + unit" where
  "check_overlap [] = Inr ()"
| "check_overlap (a # ws) =
     (case find (windows_overlap a) ws of
        Some b \<Rightarrow> Inl (WindowsOverlap (w_field a) (w_field b))
      | None \<Rightarrow> check_overlap ws)"

definition validate_windows :: "masked_window list \<Rightarrow> nat \<Rightarrow> fingerprint_error + unit" where
  "validate_windows ws n =
     (case check_bounds ws n of Inl e \<Rightarrow> Inl e | Inr _ \<Rightarrow> check_overlap ws)"

definition fp_validate :: "fingerprint \<Rightarrow> fingerprint_error + unit" where
  "fp_validate f = validate_windows (fp_windows f) (length (fp_bytes f))"

definition af_matches :: "anchored_fingerprint \<Rightarrow> u8 list \<Rightarrow> bool" where
  "af_matches a script \<longleftrightarrow>
     length (af_head a) + length (af_tail a) \<le> length script \<and>
     list_all (\<lambda>(i, expected). in_mask (af_windows a) i \<or> script ! i = expected)
       (enumerate 0 (af_head a)) \<and>
     list_all (\<lambda>(j, expected). script ! (length script - length (af_tail a) + j) = expected)
       (enumerate 0 (af_tail a))"

definition af_match_and_extract :: "anchored_fingerprint \<Rightarrow> u8 list \<Rightarrow> fields option run" where
  "af_match_and_extract a script =
     (if af_matches a script then run_map Some (extract_windows (af_windows a) script [])
      else Returns None)"

definition af_validate :: "anchored_fingerprint \<Rightarrow> fingerprint_error + unit" where
  "af_validate a = validate_windows (af_windows a) (length (af_head a))"

datatype pattern_matcher = Exact fingerprint | Anchored anchored_fingerprint

fun pm_match_and_extract :: "pattern_matcher \<Rightarrow> u8 list \<Rightarrow> fields option run" where
  "pm_match_and_extract (Exact f) script = fp_match_and_extract f script"
| "pm_match_and_extract (Anchored a) script = af_match_and_extract a script"

fun pm_matches :: "pattern_matcher \<Rightarrow> u8 list \<Rightarrow> bool" where
  "pm_matches (Exact f) script = fp_matches f script"
| "pm_matches (Anchored a) script = af_matches a script"

fun pm_windows :: "pattern_matcher \<Rightarrow> masked_window list" where
  "pm_windows (Exact f) = fp_windows f"
| "pm_windows (Anchored a) = af_windows a"

fun pm_validate :: "pattern_matcher \<Rightarrow> fingerprint_error + unit" where
  "pm_validate (Exact f) = fp_validate f"
| "pm_validate (Anchored a) = af_validate a"

fun sample_script :: "pattern_matcher \<Rightarrow> u8 list" where
  "sample_script (Exact f) = fp_bytes f"
| "sample_script (Anchored a) = af_head a @ af_tail a"

text \<open>The inner loop of the common prefix and suffix scans, from index \<open>i\<close> up to \<open>limit\<close>.\<close>

function scan_prefix :: "u8 list \<Rightarrow> u8 list \<Rightarrow> nat \<Rightarrow> nat \<Rightarrow> nat" where
  "scan_prefix first s limit i =
     (if i < limit \<and> first ! i = s ! i then scan_prefix first s limit (i + 1) else i)"
  by pat_completeness auto
termination by (relation "measure (\<lambda>(first, s, limit, i). limit - i)") auto

function scan_suffix :: "u8 list \<Rightarrow> u8 list \<Rightarrow> nat \<Rightarrow> nat \<Rightarrow> nat" where
  "scan_suffix first s limit i =
     (if i < limit \<and> first ! (length first - 1 - i) = s ! (length s - 1 - i)
      then scan_suffix first s limit (i + 1) else i)"
  by pat_completeness auto
termination by (relation "measure (\<lambda>(first, s, limit, i). limit - i)") auto

declare scan_prefix.simps [simp del] scan_suffix.simps [simp del]

definition common_prefix_len :: "u8 list list \<Rightarrow> nat" where
  "common_prefix_len scripts =
     foldl (\<lambda>n s. scan_prefix (hd scripts) s (min n (length s)) 0) (length (hd scripts)) (tl scripts)"

definition common_suffix_len :: "u8 list list \<Rightarrow> nat" where
  "common_suffix_len scripts =
     foldl (\<lambda>n s. scan_suffix (hd scripts) s (min n (length s)) 0) (length (hd scripts)) (tl scripts)"

definition derive_anchored_fingerprint ::
  "u8 list list \<Rightarrow> masked_window list \<Rightarrow> fingerprint_error + anchored_fingerprint" where
  "derive_anchored_fingerprint scripts ws =
     (if length scripts < 2 then Inl (TooFewSamples (length scripts))
      else
        let head_len = common_prefix_len scripts;
            tail_len = common_suffix_len scripts;
            min_len = Min (set (map length scripts))
        in if min_len < head_len + tail_len then Inl (AnchorsOverlap head_len tail_len min_len)
           else (case check_bounds ws head_len of
                   Inl e \<Rightarrow> Inl e
                 | Inr _ \<Rightarrow>
                     let sample = hd scripts;
                         fp = \<lparr>af_head = take head_len sample, af_windows = ws,
                               af_tail = drop (length sample - tail_len) sample\<rparr>
                     in (case af_validate fp of Inl e \<Rightarrow> Inl e | Inr _ \<Rightarrow> Inr fp)))"

section \<open>Windows\<close>

definition windows_ok :: "masked_window list \<Rightarrow> nat \<Rightarrow> bool" where
  "windows_ok ws n \<longleftrightarrow> (\<forall>w \<in> set ws. w_offset w + w_len w \<le> n) \<and>
     sorted_wrt (\<lambda>a b. \<not> windows_overlap a b) ws"

lemma check_bounds_ok: "check_bounds ws n = Inr () \<longleftrightarrow> (\<forall>w \<in> set ws. w_offset w + w_len w \<le> n)"
  by (induction ws) auto

lemma find_Some_in: "find P xs = Some x \<Longrightarrow> x \<in> set xs \<and> P x"
  by (auto simp: find_Some_iff)

lemma check_overlap_ok:
  "check_overlap ws = Inr () \<longleftrightarrow> sorted_wrt (\<lambda>a b. \<not> windows_overlap a b) ws"
  by (induction ws) (auto simp: find_None_iff split: option.split dest: find_Some_in)

lemma validate_windows_ok: "validate_windows ws n = Inr () \<longleftrightarrow> windows_ok ws n"
  unfolding validate_windows_def windows_ok_def check_bounds_ok [symmetric] check_overlap_ok [symmetric]
  by (auto split: sum.splits)

lemma in_windows_overlap: "in_window i a \<Longrightarrow> in_window i b \<Longrightarrow> windows_overlap a b"
  by (auto simp: in_window_def windows_overlap_def)

text \<open>A position lies in at most one window of a valid list.\<close>

lemma find_in_window:
  assumes "sorted_wrt (\<lambda>a b. \<not> windows_overlap a b) ws" "w \<in> set ws" "in_window i w"
  shows "find (in_window i) ws = Some w"
  using assms by (induction ws) (auto dest: in_windows_overlap)

lemma extract_windows_Returns:
  assumes "\<forall>w \<in> set ws. w_offset w + w_len w \<le> length s" "bt_ok out"
  shows "\<exists>out'. extract_windows ws s out = Returns out' \<and> bt_ok out' \<and>
    (distinct (map w_field ws) \<longrightarrow> map_of out' = (\<lambda>k. case find (\<lambda>w. w_field w = k) ws of
       Some w \<Rightarrow> Some (take (w_len w) (drop (w_offset w) s)) | None \<Rightarrow> map_of out k))"
  using assms
proof (induction ws arbitrary: out)
  case (Cons w ws)
  let ?o = "bt_insert (w_field w) (take (w_len w) (drop (w_offset w) s)) out"
  obtain out' where o: "extract_windows ws s ?o = Returns out'" "bt_ok out'"
    "distinct (map w_field ws) \<longrightarrow> map_of out' = (\<lambda>k. case find (\<lambda>w. w_field w = k) ws of
       Some w \<Rightarrow> Some (take (w_len w) (drop (w_offset w) s)) | None \<Rightarrow> map_of ?o k)"
    using Cons.IH [of ?o] Cons.prems by auto
  have "w_field w \<notin> w_field ` set ws \<Longrightarrow> find (\<lambda>v. w_field v = w_field w) ws = None"
    by (auto simp: find_None_iff rev_image_eqI)
  then show ?case
    using o Cons.prems by (auto simp: slice_def fun_eq_iff split: option.split)
qed auto

section \<open>Instances\<close>

text \<open>The script of one instance of a pattern: the canonical bytes with each window holding the
  bytes of its field, and for an anchored pattern any middle between head and tail.\<close>

definition fill :: "masked_window list \<Rightarrow> (string \<Rightarrow> u8 list) \<Rightarrow> u8 list \<Rightarrow> u8 list" where
  "fill ws val bytes =
     map (\<lambda>i. case find (in_window i) ws of
                Some w \<Rightarrow> val (w_field w) ! (i - w_offset w) | None \<Rightarrow> bytes ! i) [0..<length bytes]"

fun pm_instance :: "pattern_matcher \<Rightarrow> (string \<Rightarrow> u8 list) \<Rightarrow> u8 list \<Rightarrow> u8 list" where
  "pm_instance (Exact f) val mid = fill (fp_windows f) val (fp_bytes f)"
| "pm_instance (Anchored a) val mid = fill (af_windows a) val (af_head a) @ mid @ af_tail a"

definition field_value :: "masked_window list \<Rightarrow> u8 list \<Rightarrow> string \<Rightarrow> u8 list option" where
  "field_value ws s k = (case find (\<lambda>w. w_field w = k) ws of
     Some w \<Rightarrow> Some (take (w_len w) (drop (w_offset w) s)) | None \<Rightarrow> None)"

lemma length_fill [simp]: "length (fill ws val bytes) = length bytes"
  by (simp add: fill_def)

lemma in_mask_find: "in_mask ws i \<longleftrightarrow> find (in_window i) ws \<noteq> None"
  by (auto simp: in_mask_def list_ex_iff find_None_iff)

lemma fill_unmasked: "i < length bytes \<Longrightarrow> \<not> in_mask ws i \<Longrightarrow> fill ws val bytes ! i = bytes ! i"
  by (simp add: fill_def in_mask_find)

lemma fill_window:
  assumes "windows_ok ws (length bytes)" "w \<in> set ws" "length (val (w_field w)) = w_len w"
  shows "take (w_len w) (drop (w_offset w) (fill ws val bytes @ rest)) = val (w_field w)"
proof (rule nth_equalityI)
  have b: "w_offset w + w_len w \<le> length bytes"
    using assms(1,2) by (simp add: windows_ok_def)
  then show "length (take (w_len w) (drop (w_offset w) (fill ws val bytes @ rest))) =
      length (val (w_field w))"
    using assms(3) by simp
  fix j assume "j < length (take (w_len w) (drop (w_offset w) (fill ws val bytes @ rest)))"
  then have j: "j < w_len w" using b by simp
  then have "in_window (w_offset w + j) w" by (simp add: in_window_def)
  then have "find (in_window (w_offset w + j)) ws = Some w"
    using assms(1,2) by (intro find_in_window) (simp_all add: windows_ok_def)
  then show "take (w_len w) (drop (w_offset w) (fill ws val bytes @ rest)) ! j = val (w_field w) ! j"
    using b j by (simp add: nth_append) (simp add: fill_def)
qed

lemma list_all_enumerate: "list_all P (enumerate n xs) \<longleftrightarrow> (\<forall>i < length xs. P (n + i, xs ! i))"
  by (auto simp: list_all_length nth_enumerate_eq)

lemma fp_matches_iff:
  "fp_matches f s \<longleftrightarrow> length s = length (fp_bytes f) \<and>
    (\<forall>i < length s. in_mask (fp_windows f) i \<or> s ! i = fp_bytes f ! i)"
  by (auto simp: fp_matches_def list_all_enumerate)

lemma af_matches_iff:
  "af_matches a s \<longleftrightarrow> (\<exists>h mid. s = h @ mid @ af_tail a \<and> length h = length (af_head a) \<and>
    (\<forall>i < length h. in_mask (af_windows a) i \<or> h ! i = af_head a ! i))"
proof
  assume m: "af_matches a s"
  let ?h = "length (af_head a)" and ?t = "length (af_tail a)"
  have len: "?h + ?t \<le> length s"
    and head: "\<forall>i < ?h. in_mask (af_windows a) i \<or> s ! i = af_head a ! i"
    and tail: "\<forall>j < ?t. s ! (length s - ?t + j) = af_tail a ! j"
    using m by (auto simp: af_matches_def list_all_enumerate)
  have "drop (length s - ?t) s = af_tail a"
    using tail len by (intro nth_equalityI) auto
  moreover have "drop (length s - ?t) s = drop (length s - ?t - ?h) (drop ?h s)"
    using len by simp
  then have "s = take ?h s @ take (length s - ?t - ?h) (drop ?h s) @ drop (length s - ?t) s"
    by (metis append_take_drop_id)
  ultimately show "\<exists>h mid. s = h @ mid @ af_tail a \<and> length h = ?h \<and>
    (\<forall>i < length h. in_mask (af_windows a) i \<or> h ! i = af_head a ! i)"
    using head len
    by (intro exI [of _ "take ?h s"] exI [of _ "take (length s - ?t - ?h) (drop ?h s)"]) auto
next
  assume "\<exists>h mid. s = h @ mid @ af_tail a \<and> length h = length (af_head a) \<and>
    (\<forall>i < length h. in_mask (af_windows a) i \<or> h ! i = af_head a ! i)"
  then show "af_matches a s"
    by (auto simp: af_matches_def list_all_enumerate nth_append)
qed

lemma fill_extract:
  assumes "windows_ok ws (length bytes)" "distinct (map w_field ws)" "length bytes \<le> length s"
    "\<forall>i < length bytes. in_mask ws i \<or> s ! i = bytes ! i"
  shows "fill ws (\<lambda>k. the (field_value ws s k)) bytes = take (length bytes) s"
proof (rule nth_equalityI)
  fix i assume "i < length (fill ws (\<lambda>k. the (field_value ws s k)) bytes)"
  then have i: "i < length bytes" by simp
  show "fill ws (\<lambda>k. the (field_value ws s k)) bytes ! i = take (length bytes) s ! i"
  proof (cases "find (in_window i) ws")
    case None
    then show ?thesis using assms(4) i by (auto simp: fill_def in_mask_find)
  next
    case (Some w)
    then have w: "w \<in> set ws" "in_window i w"
      by (auto simp: find_Some_iff)
    have "find (\<lambda>v. w_field v = w_field w) ws = Some w"
      using w(1) assms(2) by (induction ws) (auto simp: rev_image_eqI)
    moreover have "w_offset w + w_len w \<le> length bytes"
      using assms(1) w(1) by (simp add: windows_ok_def)
    moreover obtain j where "i = w_offset w + j" "j < w_len w"
      using w(2) by (auto simp: in_window_def le_iff_add)
    ultimately show ?thesis
      using Some i assms(3) by (simp add: fill_def field_value_def)
  qed
qed (use assms(3) in simp)

lemma field_value_field:
  assumes "distinct (map w_field ws)" "w \<in> set ws"
  shows "field_value ws s (w_field w) = Some (take (w_len w) (drop (w_offset w) s))"
proof -
  have "find (\<lambda>v. w_field v = w_field w) ws = Some w"
    using assms by (induction ws) (auto simp: rev_image_eqI)
  then show ?thesis by (simp add: field_value_def)
qed

definition pm_ok :: "pattern_matcher \<Rightarrow> bool" where
  "pm_ok m \<longleftrightarrow> pm_validate m = Inr () \<and> distinct (map w_field (pm_windows m))"

lemma extract_ok:
  assumes "windows_ok ws n" "n \<le> length s" "distinct (map w_field ws)"
  shows "\<exists>out. extract_windows ws s [] = Returns out \<and> bt_ok out \<and> map_of out = field_value ws s"
proof -
  have "\<forall>w \<in> set ws. w_offset w + w_len w \<le> length s"
    using assms(1,2) by (fastforce simp: windows_ok_def)
  from extract_windows_Returns [OF this, of "[]"] assms(3) show ?thesis
    by (auto simp: field_value_def fun_eq_iff split: option.split)
qed

text \<open>Validation is what makes extraction safe: a validated matcher never slices out of range.\<close>

lemma pm_extract:
  assumes "pm_ok m" "pm_matches m s"
  shows "\<exists>out. pm_match_and_extract m s = Returns (Some out) \<and> bt_ok out \<and>
    map_of out = field_value (pm_windows m) s"
proof (cases m)
  case (Exact f)
  then have "windows_ok (fp_windows f) (length s)" "distinct (map w_field (fp_windows f))"
    using assms by (simp_all add: pm_ok_def fp_validate_def validate_windows_ok fp_matches_iff)
  from extract_ok [OF this(1) _ this(2), of s] show ?thesis
    using Exact assms(2) by (auto simp: fp_match_and_extract_def)
next
  case (Anchored a)
  then have "windows_ok (af_windows a) (length (af_head a))" "distinct (map w_field (af_windows a))"
    using assms by (simp_all add: pm_ok_def af_validate_def validate_windows_ok)
  moreover have "length (af_head a) \<le> length s"
    using Anchored assms(2) by (auto simp: af_matches_iff)
  ultimately show ?thesis
    using extract_ok [of "af_windows a" "length (af_head a)" s] Anchored assms(2)
    by (auto simp: af_match_and_extract_def)
qed

lemma pm_instance_matches:
  assumes "pm_ok m"
  shows "pm_matches m (pm_instance m val mid)"
proof (cases m)
  case (Exact f)
  have "i < length (fp_bytes f) \<Longrightarrow> in_mask (fp_windows f) i \<or>
      fill (fp_windows f) val (fp_bytes f) ! i = fp_bytes f ! i" for i
    using fill_unmasked by blast
  then show ?thesis using Exact by (simp add: fp_matches_iff)
next
  case (Anchored a)
  have "i < length (af_head a) \<Longrightarrow> in_mask (af_windows a) i \<or>
      fill (af_windows a) val (af_head a) ! i = af_head a ! i" for i
    using fill_unmasked by blast
  then show ?thesis
    unfolding Anchored pm_matches.simps af_matches_iff
    by (intro exI [of _ "fill (af_windows a) val (af_head a)"] exI [of _ mid]) simp
qed

lemma instance_field:
  assumes "pm_ok m" "\<forall>w \<in> set (pm_windows m). length (val (w_field w)) = w_len w"
  shows "field_value (pm_windows m) (pm_instance m val mid) =
    (\<lambda>k. if k \<in> w_field ` set (pm_windows m) then Some (val k) else None)"
proof
  fix k
  show "field_value (pm_windows m) (pm_instance m val mid) k =
    (if k \<in> w_field ` set (pm_windows m) then Some (val k) else None)"
  proof (cases "k \<in> w_field ` set (pm_windows m)")
    case True
    then obtain w where w: "w \<in> set (pm_windows m)" "k = w_field w" by auto
    have len: "length (val (w_field w)) = w_len w" using assms(2) w(1) by simp
    have "field_value (pm_windows m) (pm_instance m val mid) k =
        Some (take (w_len w) (drop (w_offset w) (pm_instance m val mid)))"
      using field_value_field [of "pm_windows m" w] assms(1) w by (simp add: pm_ok_def)
    also have "\<dots> = Some (val k)"
    proof (cases m)
      case (Exact f)
      then show ?thesis
        using fill_window [of "fp_windows f" "fp_bytes f" w val "[]"] assms(1) w len
        by (simp add: pm_ok_def fp_validate_def validate_windows_ok)
    next
      case (Anchored a)
      then show ?thesis
        using fill_window [of "af_windows a" "af_head a" w val "mid @ af_tail a"] assms(1) w len
        by (simp add: pm_ok_def af_validate_def validate_windows_ok)
    qed
    finally show ?thesis using True by simp
  next
    case False
    then have "find (\<lambda>w. w_field w = k) (pm_windows m) = None"
      by (auto simp: find_None_iff rev_image_eqI)
    then show ?thesis using False by (simp add: field_value_def)
  qed
qed

section \<open>Deriving a fingerprint from samples\<close>

lemma scan_prefix_le: "i \<le> limit \<Longrightarrow> scan_prefix first s limit i \<le> limit"
proof (induction first s limit i rule: scan_prefix.induct)
  case (1 first s limit i)
  then show ?case by (subst scan_prefix.simps) auto
qed

lemma scan_prefix_agree:
  "\<forall>j < i. first ! j = s ! j \<Longrightarrow> j < scan_prefix first s limit i \<Longrightarrow> first ! j = s ! j"
proof (induction first s limit i rule: scan_prefix.induct)
  case (1 first s limit i)
  then show ?case
    using scan_prefix.simps [of first s limit i]
    by (cases "i < limit \<and> first ! i = s ! i") (auto simp: less_Suc_eq)
qed

lemma scan_suffix_le: "i \<le> limit \<Longrightarrow> scan_suffix first s limit i \<le> limit"
proof (induction first s limit i rule: scan_suffix.induct)
  case (1 first s limit i)
  then show ?case by (subst scan_suffix.simps) auto
qed

lemma scan_suffix_agree:
  "\<forall>j < i. first ! (length first - 1 - j) = s ! (length s - 1 - j) \<Longrightarrow>
    j < scan_suffix first s limit i \<Longrightarrow> first ! (length first - 1 - j) = s ! (length s - 1 - j)"
proof (induction first s limit i rule: scan_suffix.induct)
  case (1 first s limit i)
  then show ?case
    using scan_suffix.simps [of first s limit i]
    by (cases "i < limit \<and> first ! (length first - 1 - i) = s ! (length s - 1 - i)")
      (auto simp: less_Suc_eq)
qed

text \<open>The fold over the samples only shrinks, and agrees with each sample it has passed.\<close>

lemma prefix_fold:
  defines "step \<equiv> \<lambda>first n s. scan_prefix first s (min n (length s)) 0"
  shows "foldl (step first) n ss \<le> n \<and> (\<forall>s \<in> set ss. foldl (step first) n ss \<le> length s \<and>
    (\<forall>j < foldl (step first) n ss. first ! j = s ! j))"
proof (induction ss arbitrary: n)
  case (Cons s ss)
  have "step first n s \<le> min n (length s)"
    unfolding step_def by (rule scan_prefix_le) simp
  moreover have "j < step first n s \<Longrightarrow> first ! j = s ! j" for j
    unfolding step_def by (rule scan_prefix_agree [of 0]) simp_all
  ultimately show ?case
    using Cons.IH [of "step first n s"] by fastforce
qed simp

lemma suffix_fold:
  defines "step \<equiv> \<lambda>first n s. scan_suffix first s (min n (length s)) 0"
  shows "foldl (step first) n ss \<le> n \<and> (\<forall>s \<in> set ss. foldl (step first) n ss \<le> length s \<and>
    (\<forall>j < foldl (step first) n ss. first ! (length first - 1 - j) = s ! (length s - 1 - j)))"
proof (induction ss arbitrary: n)
  case (Cons s ss)
  have "step first n s \<le> min n (length s)"
    unfolding step_def by (rule scan_suffix_le) simp
  moreover have "j < step first n s \<Longrightarrow> first ! (length first - 1 - j) = s ! (length s - 1 - j)" for j
    unfolding step_def by (rule scan_suffix_agree [of 0]) simp_all
  ultimately show ?case
    using Cons.IH [of "step first n s"] by fastforce
qed simp

lemma suffix_eq:
  assumes "n \<le> length a" "n \<le> length b"
    "\<forall>j < n. a ! (length a - 1 - j) = b ! (length b - 1 - j)"
  shows "drop (length a - n) a = drop (length b - n) b"
proof (rule nth_equalityI)
  show "length (drop (length a - n) a) = length (drop (length b - n) b)" using assms by simp
  fix i assume "i < length (drop (length a - n) a)"
  then have i: "i < n" using assms(1) by simp
  have ix: "length a - 1 - (n - 1 - i) = length a - n + i" "length b - 1 - (n - 1 - i) = length b - n + i"
    using i assms(1,2) by linarith+
  have "a ! (length a - 1 - (n - 1 - i)) = b ! (length b - 1 - (n - 1 - i))"
    by (rule assms(3) [rule_format]) (use i in simp)
  then have "a ! (length a - n + i) = b ! (length b - n + i)"
    unfolding ix .
  then show "drop (length a - n) a ! i = drop (length b - n) b ! i"
    using assms(1,2) by simp
qed

lemma derive_parts:
  assumes "derive_anchored_fingerprint scripts ws = Inr a"
  shows "af_head a = take (common_prefix_len scripts) (hd scripts)"
    "af_tail a = drop (length (hd scripts) - common_suffix_len scripts) (hd scripts)"
    "common_prefix_len scripts + common_suffix_len scripts \<le> Min (set (map length scripts))"
    "af_windows a = ws" "af_validate a = Inr ()"
  using assms
  by (auto simp: derive_anchored_fingerprint_def Let_def not_less split: if_splits sum.splits)

lemma derive_matches:
  assumes "derive_anchored_fingerprint scripts ws = Inr a" "s \<in> set scripts"
  shows "af_matches a s"
proof -
  let ?h = "common_prefix_len scripts" and ?t = "common_suffix_len scripts"
  obtain s0 ss where scripts: "scripts = s0 # ss"
    using assms(2) by (cases scripts) auto
  have a: "af_head a = take ?h s0" "af_tail a = drop (length s0 - ?t) s0"
    using derive_parts [OF assms(1)] by (simp_all add: scripts)
  have room: "?h + ?t \<le> length u" if "u \<in> set scripts" for u
    by (rule order_trans [OF derive_parts(3) [OF assms(1)]]) (simp add: that)
  have "?h + ?t \<le> length s"
    using assms(2) by (rule room)
  have room0: "?h + ?t \<le> length s0"
    by (rule room) (simp add: scripts)
  have head: "\<forall>j < ?h. s0 ! j = s ! j"
    using prefix_fold [of s0 "length s0" ss] assms(2)
    by (auto simp: common_prefix_len_def scripts)
  have tail: "\<forall>j < ?t. s0 ! (length s0 - 1 - j) = s ! (length s - 1 - j)"
    using suffix_fold [of s0 "length s0" ss] assms(2)
    by (auto simp: common_suffix_len_def scripts)
  have "drop (length s - ?t) s = af_tail a"
    unfolding a using \<open>?h + ?t \<le> length s\<close> room0 tail by (intro suffix_eq [symmetric]) simp_all
  moreover have "take ?h s = af_head a"
    unfolding a using \<open>?h + ?t \<le> length s\<close> room0 head by (intro nth_equalityI) simp_all
  moreover have "s = take ?h s @ take (length s - ?t - ?h) (drop ?h s) @ drop (length s - ?t) s"
  proof -
    have "drop (length s - ?t) s = drop (length s - ?t - ?h) (drop ?h s)"
      using \<open>?h + ?t \<le> length s\<close> by simp
    then show ?thesis by (metis append_take_drop_id)
  qed
  ultimately show ?thesis
    unfolding af_matches_iff by metis
qed

section \<open>Properties\<close>

text \<open>C34: encoding a state into a script and detecting it again is lossless. For a validated matcher
  with distinct field names, exact or anchored, the instance script holding any field values of the
  declared widths (and, if anchored, any loop-unrolled middle) is matched, and extraction returns
  exactly those values, without panicking.\<close>

theorem fingerprint_roundtrip:
  assumes "pm_validate m = Inr ()" "distinct (map w_field (pm_windows m))"
    "\<forall>w \<in> set (pm_windows m). length (val (w_field w)) = w_len w"
  shows "\<exists>out. pm_match_and_extract m (pm_instance m val mid) = Returns (Some out) \<and>
    map_of out = (\<lambda>k. if k \<in> w_field ` set (pm_windows m) then Some (val k) else None)"
proof -
  have ok: "pm_ok m" using assms(1,2) by (simp add: pm_ok_def)
  obtain out where "pm_match_and_extract m (pm_instance m val mid) = Returns (Some out)"
    "map_of out = field_value (pm_windows m) (pm_instance m val mid)"
    using pm_extract [OF ok pm_instance_matches [OF ok]] by blast
  then show ?thesis
    using instance_field [OF ok assms(3), of mid] by auto
qed

definition sample_matcher :: pattern_matcher where
  "sample_matcher = Anchored
     \<lparr>af_head = [1, 2, 0, 0, 5], af_windows = [\<lparr>w_field = ''amount'', w_offset = 2, w_len = 2\<rparr>],
      af_tail = [9]\<rparr>"

lemma fingerprint_roundtrip_witness:
  "\<exists>out. pm_match_and_extract sample_matcher
      (pm_instance sample_matcher (\<lambda>_. [7, 8]) [3, 3]) = Returns (Some out) \<and>
    map_of out = (\<lambda>k. if k \<in> w_field ` set (pm_windows sample_matcher) then Some [7, 8] else None)"
  by (rule fingerprint_roundtrip)
    (simp_all add: sample_matcher_def af_validate_def validate_windows_def)

text \<open>C20: detection is complete and forgets nothing but the middle: every script a validated matcher
  accepts is the instance of exactly the field values extracted from it.\<close>

theorem fingerprint_complete:
  assumes "pm_validate m = Inr ()" "distinct (map w_field (pm_windows m))" "pm_matches m s"
  shows "\<exists>out mid. pm_match_and_extract m s = Returns (Some out) \<and>
    s = pm_instance m (\<lambda>k. the (map_of out k)) mid"
proof -
  have ok: "pm_ok m" using assms(1,2) by (simp add: pm_ok_def)
  obtain out where out: "pm_match_and_extract m s = Returns (Some out)"
    "map_of out = field_value (pm_windows m) s"
    using pm_extract [OF ok assms(3)] by auto
  have "\<exists>mid. s = pm_instance m (\<lambda>k. the (field_value (pm_windows m) s k)) mid"
  proof (cases m)
    case (Exact f)
    then show ?thesis
      using fill_extract [of "fp_windows f" "fp_bytes f" s] assms
      by (auto simp: fp_validate_def validate_windows_ok fp_matches_iff)
  next
    case (Anchored a)
    then obtain h mid where s: "s = h @ mid @ af_tail a" "length h = length (af_head a)"
      "\<forall>i < length h. in_mask (af_windows a) i \<or> h ! i = af_head a ! i"
      using assms(3) by (auto simp: af_matches_iff)
    then have "fill (af_windows a) (\<lambda>k. the (field_value (af_windows a) s k)) (af_head a) = h"
      using fill_extract [of "af_windows a" "af_head a" s] assms Anchored
      by (auto simp: af_validate_def validate_windows_ok nth_append)
    then show ?thesis using Anchored s(1) by auto
  qed
  then show ?thesis using out by metis
qed

lemma fingerprint_complete_witness:
  "\<exists>out mid. pm_match_and_extract sample_matcher [1, 2, 7, 8, 5, 4, 9] = Returns (Some out) \<and>
    [1, 2, 7, 8, 5, 4, 9] = pm_instance sample_matcher (\<lambda>k. the (map_of out k)) mid"
  by (rule fingerprint_complete; code_simp)

text \<open>A derived anchored fingerprint is sound: when derivation from compiled samples succeeds, the
  result validates, keeps the declared state windows, and matches every sample it came from.\<close>

theorem derive_sound:
  assumes "derive_anchored_fingerprint scripts ws = Inr a"
  shows "af_validate a = Inr () \<and> af_windows a = ws \<and> list_all (af_matches a) scripts"
  using derive_parts(4,5) [OF assms] derive_matches [OF assms] by (simp add: list_all_iff)

lemma derive_sound_witness:
  "\<exists>a. derive_anchored_fingerprint [[1, 2, 3, 9], [1, 2, 4, 4, 9]]
      [\<lparr>w_field = ''f'', w_offset = 1, w_len = 1\<rparr>] = Inr a \<and>
    af_head a = [1, 2] \<and> af_tail a = [9] \<and>
    list_all (af_matches a) [[1, 2, 3, 9], [1, 2, 4, 4, 9]]"
proof -
  have "derive_anchored_fingerprint [[1, 2, 3, 9], [1, 2, 4, 4, 9]]
      [\<lparr>w_field = ''f'', w_offset = 1, w_len = 1\<rparr>] =
      Inr \<lparr>af_head = [1, 2], af_windows = [\<lparr>w_field = ''f'', w_offset = 1, w_len = 1\<rparr>],
        af_tail = [9]\<rparr>"
    by code_simp
  from derive_sound [OF this] this show ?thesis by simp
qed

end
