(* ===== verification/Covenant_Patterns.thy ===== *)
theory Covenant_Patterns
  imports Fingerprint Rust_Str
begin

text \<open>
  The seventeen covenant fingerprints of \<open>kasgraph-detectors\<close>, one definition per module, with the
  real script bytes of the repository: the constants are the contents of the \<open>testdata/*_script.hex\<close>
  files the modules include, or the literals in them. Decoding a constant that is not hexadecimal
  would panic (\<open>expect\<close>), so each fingerprint is a \<^typ>\<open>'a run\<close> over the \<open>hex::decode\<close> parameter.
\<close>

definition window :: "string \<Rightarrow> nat \<Rightarrow> nat \<Rightarrow> masked_window" where
  "window f off len = \<lparr>w_field = f, w_offset = off, w_len = len\<rparr>"

definition OWNABLE_SCRIPT_HEX :: string where
  "OWNABLE_SCRIPT_HEX =
     ''6b20010101010101010101010101010101010101010101010101010101010101010101002002020202020202'' @
     ''020202020202020202020202020202020202020202020202026c76009c637552795679567976537987695679'' @
     ''78ac69785379879169b9cb519c69527901207c7e5151cd01017c7e537901207c7e7e7eb976c902a401947651'' @
     ''93bc7c7eb976c97602a401940145937cbc7eaa02000001aa7e01207e7c7e01877eb900ccc38769007a75007a'' @
     ''75007a75757575757575516776519c63757655795379697652798769557978ac69b9cb519c697801207c7e00'' @
     ''51cd01017c7e537901207c7e7e7eb976c902a40194765193bc7c7eb976c97602a401940145937cbc7eaa0200'' @
     ''0001aa7e01207e7c7e01877eb900ccc38769007a75007a757575757575516776529c63755279527952795779'' @
     ''7654798769577978ac69527969b9cb519c69537901207c7e0051cd01017c7e537901207c7e7e7eb976c902a4'' @
     ''0194765193bc7c7eb976c97602a401940145937cbc7eaa02000001aa7e01207e7c7e01877eb900ccc3876900'' @
     ''7a75007a75007a75007a7575757575755167750069686868''"

definition opensilver_ownable_fingerprint :: "hex_decoder \<Rightarrow> fingerprint run" where
  "opensilver_ownable_fingerprint hexd =
     run_map (\<lambda>bytes. \<lparr>fp_bytes = bytes, fp_windows =
       [window ''owner_pubkey'' 2 32,
        window ''has_pending'' 35 1,
        window ''pending_owner_pubkey'' 37 32]\<rparr>)
       (expect (hexd (rust_trim OWNABLE_SCRIPT_HEX)))"

definition multisig_script_line :: string where
  "multisig_script_line =
     ''6b08020000000000000020010101010101010101010101010101010101010101010101010101010101010120'' @
     ''0202020202020202020202020202020202020202020202020202020202020202200303030303030303030303'' @
     ''0303030303030303030303030303030303030303036c76009c63755379537953795379537953795379537953'' @
     ''7951a269537953a16952795279879169527978879169787887916901117960795f7952795279879153795279'' @
     ''87919a5279527987919a695a795a795a795a7901187901177901167900537976587987785879879b78577987'' @
     ''9b011d795679ac9a637851937b757c68537976597987785979879b785879879b011c795679ac9a6352795193'' @
     ''537a757b7b685379765a7987785a79879b785979879b011b795679ac9a6353795193547a757c6b7c6b7c6b6c'' @
     ''6c6c68537976011779a269007a75007a75007a75007a75007a75007a75007a75007a75007a75007a75007a75'' @
     ''007a75007a75007a75007a75007a75007a75007a75007a75007a75007a75007a75007a757575757575757575'' @
     ''7575516776519c6375537953795379537901117901117901117901117901117960795f795a795a795a795a79'' @
     ''537951a269537953a1695279527987916952797887916978788791695a795a795a795a79537951a269537953'' @
     ''a1695279527987916952797887916978788791695a795a795a795279527987915379527987919a5279527987'' @
     ''919a6901157901157901157901157901117901117901117900537976587987785879879b785779879b012879'' @
     ''5679ac9a637851937b757c68537976597987785979879b785879879b0127795679ac9a6352795193537a757b'' @
     ''7b685379765a7987785a79879b785979879b0126795679ac9a6353795193547a757c6b7c6b7c6b6c6c6c6853'' @
     ''7976012279a269b9cb519c69011d7958cd01087c7e011d7901207c7e011d7901207c7e011d7901207c7e7e7e'' @
     ''7eb976c9026c0394765193bc7c7eb976c976026c0394016d937cbc7eaa02000001aa7e01207e7c7e01877eb9'' @
     ''00ccc38769007a75007a75007a75007a75007a75007a75007a75007a75007a75007a75007a75007a75007a75'' @
     ''007a75007a75007a75007a75007a75007a75007a75007a75007a75007a75007a75007a75007a75007a75007a'' @
     ''75007a75007a75007a75007a75007a75007a75757575757575757575757575757551677500696868''"

definition MULTISIG_SCRIPT_HEX :: string where
  "MULTISIG_SCRIPT_HEX =
     multisig_script_line @ [char_of (10 :: nat)]"

definition opensilver_multisig_fingerprint :: "hex_decoder \<Rightarrow> fingerprint run" where
  "opensilver_multisig_fingerprint hexd =
     run_map (\<lambda>bytes. \<lparr>fp_bytes = bytes, fp_windows =
       [window ''threshold'' 2 8,
        window ''signer_pubkey_1'' 11 32,
        window ''signer_pubkey_2'' 44 32,
        window ''signer_pubkey_3'' 77 32]\<rparr>)
       (expect (hexd (rust_trim MULTISIG_SCRIPT_HEX)))"

definition timelock_script_line :: string where
  "timelock_script_line =
     ''6b20010101010101010101010101010101010101010101010101010101010101010120020202020202020202'' @
     ''020202020202020202020202020202020202020202020208e80300000000000001006c76009c637552795279'' @
     ''76b057797653798769577978ac6900c2b9be02e803949c6900c35379030000207c7e01ac7e8769007a75007a'' @
     ''75007a75757575757575516776519c63755379527952797669b552799f6958797654798769587978ac6900c2'' @
     ''b9be02e803949c6900c35479030000207c7e01ac7e8769007a75007a75007a75007a75757575757575516776'' @
     ''529c637553795379537953795a795a7976567987695a7978ac69785479a269b9cb519c69557901207c7e5579'' @
     ''01207c7e537958cd01087c7e557951cd01017c7e7e7e7eb976c902700194765193bc7c7eb976c97602700194'' @
     ''014e937cbc7eaa02000001aa7e01207e7c7e01877eb900ccc38769007a75007a75007a75007a75007a75007a'' @
     ''75757575757575755167750069686868''"

definition TIMELOCK_SCRIPT_HEX :: string where
  "TIMELOCK_SCRIPT_HEX =
     timelock_script_line @ [char_of (10 :: nat)]"

definition opensilver_timelock_fingerprint :: "hex_decoder \<Rightarrow> fingerprint run" where
  "opensilver_timelock_fingerprint hexd =
     run_map (\<lambda>bytes. \<lparr>fp_bytes = bytes, fp_windows =
       [window ''owner_pubkey'' 2 32,
        window ''beneficiary_pubkey'' 35 32,
        window ''unlock_time'' 68 8,
        window ''soft_cancel'' 77 1]\<rparr>)
       (expect (hexd (rust_trim TIMELOCK_SCRIPT_HEX)))"

definition vault_script_line :: string where
  "vault_script_line =
     ''6b20010101010101010101010101010101010101010101010101010101010101010101002002020202020202'' @
     ''0202020202020202020202020202020202020202020202020208020000000000000020030303030303030303'' @
     ''0303030303030303030303030303030303030303030303200404040404040404040404040404040404040404'' @
     ''0404040404040404040404042005050505050505050505050505050505050505050505050505050505050505'' @
     ''050864000000000000002006060606060606060606060606060606060606060606060606060606060606066c'' @
     ''76009c637555795579557955795579557978b05579557955795579537951a269537953a16952795279879169'' @
     ''5279788791697878879169011a790119790118795279527987915379527987919a5279527987919a69011579'' @
     ''0115790115795f795f795f795f795f795f79012679012579012479005379765a7987785a79879b785979879b'' @
     ''012b795679ac9a637851937b757c685379765b7987785b79879b785a79879b012a795679ac9a635279519353'' @
     ''7a757b7b685379765c7987785c79879b785b79879b0129795679ac9a6353795193547a757c6b7c6b7c6b6c6c'' @
     ''6c68537976011e79a2690128790119798769012779012979ac6900c2b9be02e803949c6900c3011979030000'' @
     ''207c7e01ac7e8769007a75007a75007a75007a75007a75007a75007a75007a75007a75007a75007a75007a75'' @
     ''007a75007a75007a75007a75007a75007a75007a75007a75007a75007a75007a75007a75007a75007a75007a'' @
     ''75007a75007a75007a757575757575757575757575757575757575516776519c637558795879587958795879'' @
     ''58795879587958790118790118790117790116795979597959795979537951a269537953a169527952798791'' @
     ''6952797887916978788791695679567956795279527987915379527987919a5279527987919a690113790113'' @
     ''79011379011379011379011379011379011379011379011279011279011279005379765a7987785a79879b78'' @
     ''5979879b0130795679ac9a637851937b757c685379765b7987785b79879b785a79879b012f795679ac9a6352'' @
     ''795193537a757b7b685379765c7987785c79879b785b79879b012e795679ac9a6353795193547a757c6b7c6b'' @
     ''7c6b6c6c6c68537976012279a269011b79011e79a269b9cb519c69b900ccc2b9be02e803949c69b9cb519c69'' @
     ''01247901207c7e01247951cd01017c7e01247901207c7e01247958cd01087c7e01247901207c7e0124790120'' @
     ''7c7e01247901207c7e01227958cd01087c7e01247901207c7e7e7e7e7e7e7e7e7eb976c9028e0894765193bc'' @
     ''7c7eb976c976028e089402db00937cbc7eaa02000001aa7e01207e7c7e01877eb900ccc38769007a75007a75'' @
     ''007a75007a75007a75007a75007a75007a75007a75007a75007a75007a75007a75007a75007a75007a75007a'' @
     ''75007a75007a75007a75007a75007a75007a75007a75007a75007a75007a75007a75007a75007a75007a7500'' @
     ''7a75007a75007a75007a75007a75007a7575757575757575757575757575757575516776529c637558795879'' @
     ''5879587958795879587958795879011d79011d79011d79011d79011b79011a79011979012079760111798769'' @
     ''01207978ac695d795d795d795d79537951a269537953a1695279527987916952797887916978788791695b79'' @
     ''5b795b795b79537951a269537953a1695279527987916952797887916978788791695b795b795b7952795279'' @
     ''87915379527987919a5279527987919a69011b79011b79011b79011b79011b79011b79011b79011b79011b79'' @
     ''011779011779011779005379765a7987785a79879b785979879b0138795679ac9a637851937b757c68537976'' @
     ''5b7987785b79879b785a79879b0137795679ac9a6352795193537a757b7b685379765c7987785c79879b785b'' @
     ''79879b0136795679ac9a6353795193547a757c6b7c6b7c6b6c6c6c68537976012a79a269b9cb519c69b900cc'' @
     ''c2b9be02e803949c69b9cb519c69012c7901207c7e012c7951cd01017c7e012c7901207c7e01267958cd0108'' @
     ''7c7e01267901207c7e01267901207c7e01267901207c7e012c7958cd01087c7e012c7901207c7e7e7e7e7e7e'' @
     ''7e7e7eb976c9028e0894765193bc7c7eb976c976028e089402db00937cbc7eaa02000001aa7e01207e7c7e01'' @
     ''877eb900ccc38769007a75007a75007a75007a75007a75007a75007a75007a75007a75007a75007a75007a75'' @
     ''007a75007a75007a75007a75007a75007a75007a75007a75007a75007a75007a75007a75007a75007a75007a'' @
     ''75007a75007a75007a75007a75007a75007a75007a75007a75007a75007a75007a75007a75007a75007a7500'' @
     ''7a75007a75007a75007a75757575757575757575757575757575757575757575516776539c63755879567956'' @
     ''795679567956795679011279011279765979876901127978ac69785979879169b9cb519c69b900ccc2b9be02'' @
     ''e803949c69b9cb519c69587901207c7e5151cd01017c7e537901207c7e5a7958cd01087c7e5a7901207c7e5a'' @
     ''7901207c7e5a7901207c7e5a7958cd01087c7e5a7901207c7e7e7e7e7e7e7e7e7eb976c9028e0894765193bc'' @
     ''7c7eb976c976028e089402db00937cbc7eaa02000001aa7e01207e7c7e01877eb900ccc38769007a75007a75'' @
     ''007a75007a75007a75007a75007a75007a75007a75757575757575757575757575516776549c637556795679'' @
     ''567956795679567956790111795f7969765879876901117978ac69b9cb519c69b900ccc2b9be02e803949c69'' @
     ''b9cb519c69577901207c7e0051cd01017c7e597901207c7e597958cd01087c7e597901207c7e597901207c7e'' @
     ''597901207c7e597958cd01087c7e597901207c7e7e7e7e7e7e7e7e7eb976c9028e0894765193bc7c7eb976c9'' @
     ''76028e089402db00937cbc7eaa02000001aa7e01207e7c7e01877eb900ccc38769007a75007a75007a75007a'' @
     ''75007a75007a75007a75007a75757575757575757575757551677500696868686868''"

definition VAULT_SCRIPT_HEX :: string where
  "VAULT_SCRIPT_HEX =
     vault_script_line @ [char_of (10 :: nat)]"

definition opensilver_vault_fingerprint :: "hex_decoder \<Rightarrow> fingerprint run" where
  "opensilver_vault_fingerprint hexd =
     run_map (\<lambda>bytes. \<lparr>fp_bytes = bytes, fp_windows =
       [window ''owner_pubkey'' 2 32,
        window ''has_pending'' 35 1,
        window ''pending_owner_pubkey'' 37 32,
        window ''threshold'' 70 8,
        window ''signer_pubkey_1'' 79 32,
        window ''signer_pubkey_2'' 112 32,
        window ''signer_pubkey_3'' 145 32,
        window ''unlock_time'' 178 8,
        window ''beneficiary_pubkey'' 187 32]\<rparr>)
       (expect (hexd (rust_trim VAULT_SCRIPT_HEX)))"

definition escrow_bilateral_script_line :: string where
  "escrow_bilateral_script_line =
     ''6b20010101010101010101010101010101010101010101010101010101010101010120020202020202020202'' @
     ''0202020202020202020202020202020202020202020202200303030303030303030303030303030303030303'' @
     ''0303030303030303030303030804000000000000006c76009c637553795379537953795b7976aa537987695b'' @
     ''7978ac695a7976557987695a7978ac6900c2b9be02e803949c6900c35579030000207c7e01ac7e8769007a75'' @
     ''007a75007a75007a75007a75007a757575757575757575516776519c637553795379537953795b7976aa5379'' @
     ''87695b7978ac695a7976567987695a7978ac6900c2b9be02e803949c6900c35679030000207c7e01ac7e8769'' @
     ''007a75007a75007a75007a75007a75007a757575757575757575516776529c637553797876b0577976537987'' @
     ''69577978ac6900c2b9be02e803949c6900c35379030000207c7e01ac7e8769007a75007a75007a7575757575'' @
     ''75755167750069686868''"

definition ESCROW_BILATERAL_SCRIPT_HEX :: string where
  "ESCROW_BILATERAL_SCRIPT_HEX =
     escrow_bilateral_script_line @ [char_of (10 :: nat)]"

definition opensilver_escrow_bilateral_fingerprint :: "hex_decoder \<Rightarrow> fingerprint run" where
  "opensilver_escrow_bilateral_fingerprint hexd =
     run_map (\<lambda>bytes. \<lparr>fp_bytes = bytes, fp_windows =
       [window ''buyer_pubkey'' 2 32,
        window ''seller_pubkey'' 35 32,
        window ''arbiter_hash'' 68 32,
        window ''timeout'' 101 8]\<rparr>)
       (expect (hexd (rust_trim ESCROW_BILATERAL_SCRIPT_HEX)))"

definition escrow_milestone_script_line :: string where
  "escrow_milestone_script_line =
     ''6b20010101010101010101010101010101010101010101010101010101010101010120020202020202020202'' @
     ''0202020202020202020202020202020202020202020202200303030303030303030303030303030303030303'' @
     ''0303030303030303030303030804000000000000000805000000000000000806000000000000006c76009c63'' @
     ''75557955795579557955795579527952797851a2697600a2697878a26901117976aa5779876901117978ac69'' @
     ''60797659798769607978ac69557957799f69b9cb519c69b900ccc2b9be02e803949c69b9cb519c6959790120'' @
     ''7c7e597901207c7e597901207c7e597958cd01087c7e5979519358cd01087c7e597958cd01087c7e7e7e7e7e'' @
     ''7eb976c902dc0294765193bc7c7eb976c97602dc0294017f937cbc7eaa02000001aa7e01207e7c7e01877eb9'' @
     ''00ccc38769007a75007a75007a75007a75007a75007a75007a75007a75007a75007a75757575757575757575'' @
     ''75516776519c6375557955795579557955795579527952797851a2697600a2697878a26901117976aa577987'' @
     ''6901117978ac6960797659798769607978ac69557957799c6900c2b9be02e803949c6900c35979030000207c'' @
     ''7e01ac7e8769007a75007a75007a75007a75007a75007a75007a75007a75007a75007a757575757575757575'' @
     ''7575516776529c6375557955795579557955795579527952797851a2697600a2697878a26901117976aa5779'' @
     ''876901117978ac696079765a798769607978ac6900c2b9be02e803949c6900c35a79030000207c7e01ac7e87'' @
     ''69007a75007a75007a75007a75007a75007a75007a75007a75007a75007a7575757575757575757575516776'' @
     ''539c6375557955795579557955795579527952797851a2697600a2697878a2695279b05f7976597987695f79'' @
     ''78ac6900c2b9be02e803949c6900c35979030000207c7e01ac7e8769007a75007a75007a75007a75007a7500'' @
     ''7a75007a75007a75007a757575757575757575516775006968686868''"

definition ESCROW_MILESTONE_SCRIPT_HEX :: string where
  "ESCROW_MILESTONE_SCRIPT_HEX =
     escrow_milestone_script_line @ [char_of (10 :: nat)]"

definition opensilver_escrow_milestone_fingerprint :: "hex_decoder \<Rightarrow> fingerprint run" where
  "opensilver_escrow_milestone_fingerprint hexd =
     run_map (\<lambda>bytes. \<lparr>fp_bytes = bytes, fp_windows =
       [window ''buyer_pubkey'' 2 32,
        window ''seller_pubkey'' 35 32,
        window ''arbiter_hash'' 68 32,
        window ''total_milestones'' 101 8,
        window ''completed_milestones'' 110 8,
        window ''timeout'' 119 8]\<rparr>)
       (expect (hexd (rust_trim ESCROW_MILESTONE_SCRIPT_HEX)))"

definition streaming_payment_script_line :: string where
  "streaming_payment_script_line =
     ''6b20010101010101010101010101010101010101010101010101010101010101010120020202020202020202'' @
     ''0202020202020202020202020202020202020202020202080300000000000000080400000000000000080500'' @
     ''0000000000000806000000000000000807000000000000006c76009c6375b9cb577957795779577957795779'' @
     ''57790115790115790115790115790115790115790115795a795a795d7900a0697800a0697600a2697878a269'' @
     ''5a7900a269012079766079876901207978ac695a79b05c7900a0695979827c7501209651a1695979827c7501'' @
     ''2096519c635c795f79a06900c25f799c6900c36079030000207c7e01ac7e8769597900012095760120937f01'' @
     ''11798769587900012095760120937f6079876957790058957658937f5f799c6956790058957658937f5e799c'' @
     ''6955790058957658937f5d796079949c6954790058957658937f5c799c6953790058957658937f5b795d7993'' @
     ''9c69675c795f79a16900c25d799c6900c36079030000207c7e01ac7e876968597901127951a1690112797882'' @
     ''7c750120969c6900011379009451a169760114799f6376527978012095760120937f01207c7e5c7952790120'' @
     ''95760120937f01207c7e5c79537958957658937f58cd01087c7e5c79547958957658937f58cd01087c7e5c79'' @
     ''557958957658937f58cd01087c7e5c79567958957658937f58cd01087c7e5c79577958957658937f58cd0108'' @
     ''7c7e7e7e7e7e7e7eb976c902200394765193bc7c7eb976c976022003940170937cbc7eaa02000001aa7e0120'' @
     ''7e7c7e01877eb95279ccc387697651937b757768007a75007a75007a75007a75007a75007a75007a75007a75'' @
     ''007a75007a75007a75007a75007a75007a75007a75007a75007a75007a75007a75007a757575757575757575'' @
     ''7575757575757575516776519c6375567956795679567956795679567953795379567900a0697800a0697600'' @
     ''a2697878a269537900a269011179765a79876901117978ac6900c2b9be02e803949c6900c35a79030000207c'' @
     ''7e01ac7e8769007a75007a75007a75007a75007a75007a75007a75007a75007a75007a757575757575757575'' @
     ''7551677500696868''"

definition STREAMING_PAYMENT_SCRIPT_HEX :: string where
  "STREAMING_PAYMENT_SCRIPT_HEX =
     streaming_payment_script_line @ [char_of (10 :: nat)]"

definition opensilver_streaming_payment_fingerprint :: "hex_decoder \<Rightarrow> fingerprint run" where
  "opensilver_streaming_payment_fingerprint hexd =
     run_map (\<lambda>bytes. \<lparr>fp_bytes = bytes, fp_windows =
       [window ''sender_pubkey'' 2 32,
        window ''recipient_pubkey'' 35 32,
        window ''rate_per_claim'' 68 8,
        window ''total_allowance'' 77 8,
        window ''remaining_allowance'' 86 8,
        window ''period'' 95 8,
        window ''next_release_time'' 104 8]\<rparr>)
       (expect (hexd (rust_trim STREAMING_PAYMENT_SCRIPT_HEX)))"

definition vesting_script_line :: string where
  "vesting_script_line =
     ''6b20010101010101010101010101010101010101010101010101010101010101010120020202020202020202'' @
     ''0202020202020202020202020202020202020202020202080300000000000000080400000000000000080500'' @
     ''00000000000008060000000000000008070000000000000001006c76009c6375b9cb58795879587958795879'' @
     ''5879587958790118790118790118790118790118790118790118790118795d795d797800a0697600a2697878'' @
     ''a2695b7900a0695c7900a26901247976011379876901247978ac695e79b05f790111799f695a79827c750120'' @
     ''9651a1695a79827c75012096519c6360796079945d79a06900c25d799c6900c3011379030000207c7e01ac7e'' @
     ''87695a7900012095760120937f0113798769597900012095760120937f011279876958790058957658937f01'' @
     ''11799c6957790058957658937f60795e79939c6956790058957658937f5f795f79939c695579005895765893'' @
     ''7f5e799c6954790058957658937f5d799c6953790051957651937f5c7991917c91918769676079607994765e'' @
     ''79a16900c2789c6900c3011479030000207c7e01ac7e876975685a7901147951a16901147978827c75012096'' @
     ''9c6900011579009451a169760116799f6376527978012095760120937f01207c7e5d79527901209576012093'' @
     ''7f01207c7e5d79537958957658937f58cd01087c7e5d79547958957658937f58cd01087c7e5d795579589576'' @
     ''58937f58cd01087c7e5d79567958957658937f58cd01087c7e5d79577958957658937f58cd01087c7e5d7958'' @
     ''7951957651937f51cd01017c7e7e7e7e7e7e7e7eb976c902690394765193bc7c7eb976c97602690394017293'' @
     ''7cbc7eaa02000001aa7e01207e7c7e01877eb95279ccc387697651937b757768007a75007a75007a75007a75'' @
     ''007a75007a75007a75007a75007a75007a75007a75007a75007a75007a75007a75007a75007a75007a75007a'' @
     ''75007a75007a75007a75757575757575757575757575757575757575516776519c6375577957795779577957'' @
     ''79577957795779557955797800a0697600a2697878a269537900a069547900a269527969011379765a798769'' @
     ''01137978ac6900c2b9be02e803949c6900c35a79030000207c7e01ac7e8769007a75007a75007a75007a7500'' @
     ''7a75007a75007a75007a75007a75007a75007a757575757575757575757551677500696868''"

definition VESTING_SCRIPT_HEX :: string where
  "VESTING_SCRIPT_HEX =
     vesting_script_line @ [char_of (10 :: nat)]"

definition opensilver_vesting_fingerprint :: "hex_decoder \<Rightarrow> fingerprint run" where
  "opensilver_vesting_fingerprint hexd =
     run_map (\<lambda>bytes. \<lparr>fp_bytes = bytes, fp_windows =
       [window ''beneficiary_pubkey'' 2 32,
        window ''admin_pubkey'' 35 32,
        window ''total_allocation'' 68 8,
        window ''claimed_amount'' 77 8,
        window ''cliff_time'' 86 8,
        window ''period'' 95 8,
        window ''release_per_period'' 104 8,
        window ''revocable'' 113 1]\<rparr>)
       (expect (hexd (rust_trim VESTING_SCRIPT_HEX)))"

definition dead_mans_switch_script_line :: string where
  "dead_mans_switch_script_line =
     ''6b20010101010101010101010101010101010101010101010101010101010101010120020202020202020202'' @
     ''02020202020202020202020202020202020202020202020803000000000000000804000000000000006c7600'' @
     ''9c637553795379537953797800a0697600a26978b159797654798769597978ac69007a75007a75007a75007a'' @
     ''75007a75757575757575516776519c637553795379537953795a79527900a0697800a2695a7976567987695a'' @
     ''7978ac697800a269b9cb519c69557901207c7e557901207c7e557958cd01087c7e547958cd01087c7e7e7e7e'' @
     ''b976c902c60194765193bc7c7eb976c97602c601940155937cbc7eaa02000001aa7e01207e7c7e01877eb900'' @
     ''ccc38769007a75007a75007a75007a75007a75007a7575757575757575516776529c63755379537953795379'' @
     ''5a79527900a0697800a2695a7976567987695a7978ac69785579879169b9cb519c69557901207c7e52790120'' @
     ''7c7e557958cd01087c7e557958cd01087c7e7e7e7eb976c902c60194765193bc7c7eb976c97602c601940155'' @
     ''937cbc7eaa02000001aa7e01207e7c7e01877eb900ccc38769007a75007a75007a75007a75007a75007a7575'' @
     ''7575757575755167750069686868''"

definition DEAD_MANS_SWITCH_SCRIPT_HEX :: string where
  "DEAD_MANS_SWITCH_SCRIPT_HEX =
     dead_mans_switch_script_line @ [char_of (10 :: nat)]"

definition opensilver_dead_mans_switch_fingerprint :: "hex_decoder \<Rightarrow> fingerprint run" where
  "opensilver_dead_mans_switch_fingerprint hexd =
     run_map (\<lambda>bytes. \<lparr>fp_bytes = bytes, fp_windows =
       [window ''owner_pubkey'' 2 32,
        window ''fallback_pubkey'' 35 32,
        window ''timeout_age'' 68 8,
        window ''last_ping_age'' 77 8]\<rparr>)
       (expect (hexd (rust_trim DEAD_MANS_SWITCH_SCRIPT_HEX)))"

definition social_recovery_script_line :: string where
  "social_recovery_script_line =
     ''6b20010101010101010101010101010101010101010101010101010101010101010101002003030303030303'' @
     ''0303030303030303030303030303030303030303030303030308040000000000000020050505050505050505'' @
     ''0505050505050505050505050505050505050505050505200606060606060606060606060606060606060606'' @
     ''0606060606060606060606062007070707070707070707070707070707070707070707070707070707070707'' @
     ''070808000000000000000809000000000000006c76009c637558795879587958795879587958795879587901'' @
     ''19790119790119790118790117795a795a795a795a79537951a269537953a169527952798791695279788791'' @
     ''697878879169597900a26958790112798791695679567956795279527987915379527987919a527952798791'' @
     ''9a69011479011479011479011479011479011479011479011479011479011279011279011279005379765a79'' @
     ''87785a79879b785979879b0131795679ac9a637851937b757c685379765b7987785b79879b785a79879b0130'' @
     ''795679ac9a6352795193537a757b7b685379765c7987785c79879b785b79879b012f795679ac9a6353795193'' @
     ''547a757c6b7c6b7c6b6c6c6c68537976012379a269011b79011f79a269b9cb519c6901257901207c7e5151cd'' @
     ''01017c7e011e7901207c7e01257958cd01087c7e01257901207c7e01257901207c7e01257901207c7e012279'' @
     ''58cd01087c7e01257958cd01087c7e7e7e7e7e7e7e7e7eb976c902ec0494765193bc7c7eb976c97602ec0494'' @
     ''02c300937cbc7eaa02000001aa7e01207e7c7e01877eb900ccc38769007a75007a75007a75007a75007a7500'' @
     ''7a75007a75007a75007a75007a75007a75007a75007a75007a75007a75007a75007a75007a75007a75007a75'' @
     ''007a75007a75007a75007a75007a75007a75007a75007a75007a75007a75007a75007a75007a75007a75007a'' @
     ''75007a75007a75007a757575757575757575757575757575757575516776519c637558795879587958795879'' @
     ''58795879587958795579557955795579537951a269537953a169527952798791695279788791697878879169'' @
     ''547900a2695579b00117795c7969765c79876901177978ac69b9cb519c695b7901207c7e0051cd01017c7e5d'' @
     ''7901207c7e5d7958cd01087c7e5d7901207c7e5d7901207c7e5d7901207c7e5d7958cd01087c7e5d7958cd01'' @
     ''087c7e7e7e7e7e7e7e7e7eb976c902ec0494765193bc7c7eb976c97602ec049402c300937cbc7eaa02000001'' @
     ''aa7e01207e7c7e01877eb900ccc38769007a75007a75007a75007a75007a75007a75007a75007a75007a7500'' @
     ''7a75007a75007a75007a75007a757575757575757575757575516776529c6375587958795879587958795879'' @
     ''5879587958795579557955795579537951a269537953a1695279527987916952797887916978788791695479'' @
     ''00a269011779765e79876901177978ac695c7969b9cb519c695d7901207c7e0051cd01017c7e5d7901207c7e'' @
     ''5d7958cd01087c7e5d7901207c7e5d7901207c7e5d7901207c7e5d7958cd01087c7e5d7958cd01087c7e7e7e'' @
     ''7e7e7e7e7e7eb976c902ec0494765193bc7c7eb976c97602ec049402c300937cbc7eaa02000001aa7e01207e'' @
     ''7c7e01877eb900ccc38769007a75007a75007a75007a75007a75007a75007a75007a75007a75007a75007a75'' @
     ''007a75007a75007a7575757575757575757575755167750069686868''"

definition SOCIAL_RECOVERY_SCRIPT_HEX :: string where
  "SOCIAL_RECOVERY_SCRIPT_HEX =
     social_recovery_script_line @ [char_of (10 :: nat)]"

definition opensilver_social_recovery_fingerprint :: "hex_decoder \<Rightarrow> fingerprint run" where
  "opensilver_social_recovery_fingerprint hexd =
     run_map (\<lambda>bytes. \<lparr>fp_bytes = bytes, fp_windows =
       [window ''owner_pubkey'' 2 32,
        window ''has_pending_owner'' 35 1,
        window ''pending_owner_pubkey'' 37 32,
        window ''guardian_threshold'' 70 8,
        window ''guardian_pubkey_1'' 79 32,
        window ''guardian_pubkey_2'' 112 32,
        window ''guardian_pubkey_3'' 145 32,
        window ''activation_time'' 178 8,
        window ''recovery_delay'' 187 8]\<rparr>)
       (expect (hexd (rust_trim SOCIAL_RECOVERY_SCRIPT_HEX)))"

definition atomic_swap_htlc_script_line :: string where
  "atomic_swap_htlc_script_line =
     ''6b20010101010101010101010101010101010101010101010101010101010101010120020202020202020202'' @
     ''0202020202020202020202020202020202020202020202200303030303030303030303030303030303030303'' @
     ''0303030303030303030303030804000000000000006c76009c63755379527958797653798769587978ac6957'' @
     ''79aa5279876900c2b9be02e803949c6900c35379030000207c7e01ac7e8769007a75007a75007a7575757575'' @
     ''757575516776519c637552797876b057797653798769577978ac6900c2b9be02e803949c6900c35379030000'' @
     ''207c7e01ac7e8769007a75007a75007a7575757575757551677500696868''"

definition ATOMIC_SWAP_HTLC_SCRIPT_HEX :: string where
  "ATOMIC_SWAP_HTLC_SCRIPT_HEX =
     atomic_swap_htlc_script_line @ [char_of (10 :: nat)]"

definition opensilver_atomic_swap_htlc_fingerprint :: "hex_decoder \<Rightarrow> fingerprint run" where
  "opensilver_atomic_swap_htlc_fingerprint hexd =
     run_map (\<lambda>bytes. \<lparr>fp_bytes = bytes, fp_windows =
       [window ''recipient_pubkey'' 2 32,
        window ''refunder_pubkey'' 35 32,
        window ''secret_hash'' 68 32,
        window ''timeout'' 101 8]\<rparr>)
       (expect (hexd (rust_trim ATOMIC_SWAP_HTLC_SCRIPT_HEX)))"

definition freelance_payroll_script_line :: string where
  "freelance_payroll_script_line =
     ''6b20010101010101010101010101010101010101010101010101010101010101010120020202020202020202'' @
     ''0202020202020202020202020202020202020202020202200303030303030303030303030303030303030303'' @
     ''0303030303030303030303030804000000000000006c76009c637553795379537953795b7976557987695b79'' @
     ''78ac695a7976557987695a7978ac6900c2b9be02e803949c6900c35579030000207c7e01ac7e8769007a7500'' @
     ''7a75007a75007a75007a75007a757575757575757575516776519c637553795379537953795b7976aa537987'' @
     ''695b7978ac695a7976567987695a7978ac6900c2b9be02e803949c6900c35679030000207c7e01ac7e876900'' @
     ''7a75007a75007a75007a75007a75007a757575757575757575516776529c637553795379537953795b7976aa'' @
     ''537987695b7978ac695a7976557987695a7978ac6900c2b9be02e803949c6900c35579030000207c7e01ac7e'' @
     ''8769007a75007a75007a75007a75007a75007a757575757575757575516776539c637553797876b057797653'' @
     ''798769577978ac6900c2b9be02e803949c6900c35379030000207c7e01ac7e8769007a75007a75007a757575'' @
     ''75757575516775006968686868''"

definition FREELANCE_PAYROLL_SCRIPT_HEX :: string where
  "FREELANCE_PAYROLL_SCRIPT_HEX =
     freelance_payroll_script_line @ [char_of (10 :: nat)]"

definition opensilver_freelance_payroll_fingerprint :: "hex_decoder \<Rightarrow> fingerprint run" where
  "opensilver_freelance_payroll_fingerprint hexd =
     run_map (\<lambda>bytes. \<lparr>fp_bytes = bytes, fp_windows =
       [window ''client_pubkey'' 2 32,
        window ''worker_pubkey'' 35 32,
        window ''arbiter_hash'' 68 32,
        window ''timeout'' 101 8]\<rparr>)
       (expect (hexd (rust_trim FREELANCE_PAYROLL_SCRIPT_HEX)))"

definition KCC20_ASSET_HEAD_HEX :: string where
  "KCC20_ASSET_HEAD_HEX =
     ''6b200101010101010101010101010101010101010101010101010101010101010101010008e8030000000000'' @
     ''0001006c76009c6375b9cf7600d1b99c6976d076''"

definition KCC20_ASSET_TAIL_HEX :: string where
  "KCC20_ASSET_TAIL_HEX =
     ''94012f937cbc7eaa02000001aa7e01207e7c7e01877e78c38769785193537a75777768007a75007a75007a75'' @
     ''007a75007a75007a75007a75007a75007a75007a75007a75007a75007a75007a75007a75007a75007a75007a'' @
     ''75007a75007a75007a75007a75007a75007a75007a75007a75007a75007a7575757575757575757575516776'' @
     ''519c6375b9cf00d1b99e697575757551677500696868''"

definition kcc20_asset_fingerprint :: "hex_decoder \<Rightarrow> anchored_fingerprint run" where
  "kcc20_asset_fingerprint hexd =
     run_bind (expect (hexd KCC20_ASSET_HEAD_HEX)) (\<lambda>head.
     run_bind (expect (hexd KCC20_ASSET_TAIL_HEX)) (\<lambda>tail.
       Returns \<lparr>af_head = head, af_windows =
       [window ''owner_identifier'' 2 32,
        window ''identifier_type'' 35 1,
        window ''amount'' 37 8,
        window ''is_minter'' 46 1], af_tail = tail\<rparr>))"

definition KCC20_OWNABLE_CONTROLLER_HEAD_HEX :: string where
  "KCC20_OWNABLE_CONTROLLER_HEAD_HEX =
     ''6b20111111111111111111111111111111111111111111111111111111111111111101002013131313131313'' @
     ''1313131313131313131313131313131313131313131313131320141414141414141414141414141414141414'' @
     ''141414141414141414141414141401016c76009c637554795479547953797691695a7976557987695a7978ac'' @
     ''696079557987695f79547991917c91919c695e79537987695d7900d587695c7969b9cb519c69607901207c7e'' @
     ''607951cd01017c7e607901207c7e607901207c7e607951cd01017c7e7e7e7e7eb976c902''"

definition KCC20_OWNABLE_CONTROLLER_TAIL_HEX :: string where
  "KCC20_OWNABLE_CONTROLLER_TAIL_HEX =
     ''06940168937cbc7eaa02000001aa7e01207e7c7e01877eb900ccc38769007a75007a75007a75007a75007a75'' @
     ''007a75007a75007a75007a75007a75007a75007a75007a75007a75007a75007a757575757575757575757575'' @
     ''75757575757575757551677500696868686868''"

definition kcc20_ownable_controller_fingerprint :: "hex_decoder \<Rightarrow> anchored_fingerprint run" where
  "kcc20_ownable_controller_fingerprint hexd =
     run_bind (expect (hexd KCC20_OWNABLE_CONTROLLER_HEAD_HEX)) (\<lambda>head.
     run_bind (expect (hexd KCC20_OWNABLE_CONTROLLER_TAIL_HEX)) (\<lambda>tail.
       Returns \<lparr>af_head = head, af_windows =
       [window ''admin_pubkey'' 2 32,
        window ''has_pending_admin'' 35 1,
        window ''pending_admin_pubkey'' 37 32,
        window ''kcc20_covenant_id'' 70 32,
        window ''initialized'' 103 1], af_tail = tail\<rparr>))"

definition KCC20_PAUSABLE_CONTROLLER_HEAD_HEX :: string where
  "KCC20_PAUSABLE_CONTROLLER_HEAD_HEX =
     ''6b201111111111111111111111111111111111111111111111111111111111111111010001016c76009c6375'' @
     ''769169567900d587695579527991917c91919c69547969537920eeeeeeeeeeeeeeeeeeeeeeeeeeeeeeeeeeee'' @
     ''eeeeeeeeeeeeeeeeeeeeeeeeeeeeac69b9cb519c69567901207c7e567951cd01017c7e567951cd01017c7e7e'' @
     ''7eb976c902''"

definition KCC20_PAUSABLE_CONTROLLER_TAIL_HEX :: string where
  "KCC20_PAUSABLE_CONTROLLER_TAIL_HEX =
     ''05940126937cbc7eaa02000001aa7e01207e7c7e01877eb900ccc38769007a75007a75007a75007a75007a75'' @
     ''007a75007a75007a75007a75007a75007a75757575757575757575757575757575516775006968686868''"

definition kcc20_pausable_controller_fingerprint :: "hex_decoder \<Rightarrow> anchored_fingerprint run" where
  "kcc20_pausable_controller_fingerprint hexd =
     run_bind (expect (hexd KCC20_PAUSABLE_CONTROLLER_HEAD_HEX)) (\<lambda>head.
     run_bind (expect (hexd KCC20_PAUSABLE_CONTROLLER_TAIL_HEX)) (\<lambda>tail.
       Returns \<lparr>af_head = head, af_windows =
       [window ''kcc20_covenant_id'' 2 32,
        window ''paused'' 35 1,
        window ''initialized'' 37 1], af_tail = tail\<rparr>))"

definition KCC20_CAPPED_CONTROLLER_HEAD_HEX :: string where
  "KCC20_CAPPED_CONTROLLER_HEAD_HEX =
     ''6b20111111111111111111111111111111111111111111111111111111111111111108060000000000000008'' @
     ''070000000000000001006c76009c6375527952795279527952797800a2697600a2697878a269527991695d79'' @
     ''00d587695c7955799c695b7954799c695a7969597920eeeeeeeeeeeeeeeeeeeeeeeeeeeeeeeeeeeeeeeeeeee'' @
     ''eeeeeeeeeeeeeeeeeeeeac69b9cb519c695d7901207c7e5d7958cd01087c7e5d7958cd01087c7e5d7951cd01'' @
     ''017c7e7e7e7eb976c902''"

definition KCC20_CAPPED_CONTROLLER_TAIL_HEX :: string where
  "KCC20_CAPPED_CONTROLLER_TAIL_HEX =
     ''04940136937cbc7eaa02000001aa7e01207e7c7e01877eb900ccc38769007a75007a75007a75007a75007a75'' @
     ''007a75007a75007a75007a75007a75007a75007a75007a75007a75007a75007a75007a75007a757575757575'' @
     ''75757575757575757575757551677500696868''"

definition kcc20_capped_controller_fingerprint :: "hex_decoder \<Rightarrow> anchored_fingerprint run" where
  "kcc20_capped_controller_fingerprint hexd =
     run_bind (expect (hexd KCC20_CAPPED_CONTROLLER_HEAD_HEX)) (\<lambda>head.
     run_bind (expect (hexd KCC20_CAPPED_CONTROLLER_TAIL_HEX)) (\<lambda>tail.
       Returns \<lparr>af_head = head, af_windows =
       [window ''kcc20_covenant_id'' 2 32,
        window ''total_cap'' 35 8,
        window ''remaining_allowance'' 44 8,
        window ''initialized'' 53 1], af_tail = tail\<rparr>))"

definition KCC20_VESTING_CONTROLLER_HEAD_HEX :: string where
  "KCC20_VESTING_CONTROLLER_HEAD_HEX =
     ''6b08050000000000000008060000000000000008070000000000000008080000000000000008090000000000'' @
     ''000020161616161616161616161616161616161616161616161616161616161616161601016c76009c637556'' @
     ''7956795679567956795579557955797800a0697600a2697878a269537900a069547900a26952799169011679'' @
     ''58799c6901157957799c6901147956799c6901137955799c6901127954799c6901117900d587696079695f79'' @
     ''20eeeeeeeeeeeeeeeeeeeeeeeeeeeeeeeeeeeeeeeeeeeeeeeeeeeeeeeeeeeeeeeeac69b9cb519c6901167958'' @
     ''cd01087c7e01167958cd01087c7e01167958cd01087c7e01167958cd01087c7e01167958cd01087c7e011679'' @
     ''01207c7e01167951cd01017c7e7e7e7e7e7e7eb976c902''"

definition KCC20_VESTING_CONTROLLER_TAIL_HEX :: string where
  "KCC20_VESTING_CONTROLLER_TAIL_HEX =
     ''05940151937cbc7eaa02000001aa7e01207e7c7e01877eb900ccc38769007a75007a75007a75007a75007a75'' @
     ''007a75007a75007a75007a75007a75007a75007a75007a75007a75007a75007a75007a75007a75007a75007a'' @
     ''75007a75007a75007a75007a75007a75007a7575757575757575757575757575757575757575757575757551'' @
     ''677500696868''"

definition kcc20_vesting_controller_fingerprint :: "hex_decoder \<Rightarrow> anchored_fingerprint run" where
  "kcc20_vesting_controller_fingerprint hexd =
     run_bind (expect (hexd KCC20_VESTING_CONTROLLER_HEAD_HEX)) (\<lambda>head.
     run_bind (expect (hexd KCC20_VESTING_CONTROLLER_TAIL_HEX)) (\<lambda>tail.
       Returns \<lparr>af_head = head, af_windows =
       [window ''total_allocation'' 2 8,
        window ''minted_amount'' 11 8,
        window ''cliff_time'' 20 8,
        window ''period'' 29 8,
        window ''release_per_period'' 38 8,
        window ''kcc20_covenant_id'' 47 32,
        window ''initialized'' 80 1], af_tail = tail\<rparr>))"

end
