(* ===== verification/Registry.thy ===== *)
theory Registry
  imports Covenant_Patterns
begin

text \<open>
  \<open>registry.rs\<close> of \<open>kasgraph-detectors\<close>: the detector kinds and the list of patterns, in
  detection order, and a certificate that two patterns cannot match the same script.
\<close>

datatype detector_kind =
    OpenSilverOwnable | OpenSilverMultisig | OpenSilverTimeLock | OpenSilverVault
  | OpenSilverEscrowBilateral | OpenSilverEscrowMilestone | OpenSilverStreamingPayment
  | OpenSilverVesting | OpenSilverDeadMansSwitch | OpenSilverSocialRecovery
  | OpenSilverAtomicSwapHTLC | OpenSilverFreelancePayroll
  | KCC20Asset | KCC20OwnableController | KCC20PausableController | KCC20CappedController
  | KCC20VestingController
  | ZkVerifiedComputation | ZkPrivateAssetTransfer | ZkVerifiedOracle | ZkVerifiedOracleV2
  | ZkProofStitchedMultiPattern
  | Krc721Collection | Krc721Nft
  | KasBondsBond

record detector_entry =
  entry_kind :: detector_kind
  entry_matcher :: pattern_matcher

definition exact :: "detector_kind \<Rightarrow> fingerprint run \<Rightarrow> detector_entry run" where
  "exact k r = run_map (\<lambda>f. \<lparr>entry_kind = k, entry_matcher = Exact f\<rparr>) r"

definition anchored :: "detector_kind \<Rightarrow> anchored_fingerprint run \<Rightarrow> detector_entry run" where
  "anchored k r = run_map (\<lambda>a. \<lparr>entry_kind = k, entry_matcher = Anchored a\<rparr>) r"

fun run_all :: "'a run list \<Rightarrow> 'a list run" where
  "run_all [] = Returns []"
| "run_all (r # rs) = run_bind r (\<lambda>x. run_map ((#) x) (run_all rs))"

definition build_registry :: "hex_decoder \<Rightarrow> detector_entry list run" where
  "build_registry hexd = run_all
     [exact OpenSilverOwnable (opensilver_ownable_fingerprint hexd),
      exact OpenSilverMultisig (opensilver_multisig_fingerprint hexd),
      exact OpenSilverTimeLock (opensilver_timelock_fingerprint hexd),
      exact OpenSilverVault (opensilver_vault_fingerprint hexd),
      exact OpenSilverEscrowBilateral (opensilver_escrow_bilateral_fingerprint hexd),
      exact OpenSilverEscrowMilestone (opensilver_escrow_milestone_fingerprint hexd),
      exact OpenSilverStreamingPayment (opensilver_streaming_payment_fingerprint hexd),
      exact OpenSilverVesting (opensilver_vesting_fingerprint hexd),
      exact OpenSilverDeadMansSwitch (opensilver_dead_mans_switch_fingerprint hexd),
      exact OpenSilverSocialRecovery (opensilver_social_recovery_fingerprint hexd),
      exact OpenSilverAtomicSwapHTLC (opensilver_atomic_swap_htlc_fingerprint hexd),
      exact OpenSilverFreelancePayroll (opensilver_freelance_payroll_fingerprint hexd),
      anchored KCC20Asset (kcc20_asset_fingerprint hexd),
      anchored KCC20OwnableController (kcc20_ownable_controller_fingerprint hexd),
      anchored KCC20PausableController (kcc20_pausable_controller_fingerprint hexd),
      anchored KCC20CappedController (kcc20_capped_controller_fingerprint hexd),
      anchored KCC20VestingController (kcc20_vesting_controller_fingerprint hexd)]"

section \<open>Signatures\<close>

fun pm_head :: "pattern_matcher \<Rightarrow> u8 list" where
  "pm_head (Exact f) = fp_bytes f"
| "pm_head (Anchored a) = af_head a"

text \<open>Unmasked positions of the head and the bytes they must hold.\<close>

definition has_signature :: "pattern_matcher \<Rightarrow> (nat \<times> nat) list \<Rightarrow> bool" where
  "has_signature m sg \<longleftrightarrow> (\<forall>(i, b) \<in> set sg. i < length (pm_head m) \<and> \<not> in_mask (pm_windows m) i \<and>
     pm_head m ! i = word_of_nat b)"

definition conflict :: "(nat \<times> nat) list \<Rightarrow> (nat \<times> nat) list \<Rightarrow> bool" where
  "conflict sg sg' \<longleftrightarrow>
     list_ex (\<lambda>(i, b). list_ex (\<lambda>(j, c). i = j \<and> b \<noteq> c \<and> b < 256 \<and> c < 256) sg') sg"

lemma pm_matches_head:
  assumes "pm_matches m s" "i < length (pm_head m)" "\<not> in_mask (pm_windows m) i"
  shows "s ! i = pm_head m ! i"
  using assms by (cases m) (auto simp: fp_matches_iff af_matches_iff nth_append)

lemma conflict_disjoint:
  assumes "conflict sg sg'" "has_signature m sg" "has_signature n sg'" "pm_matches m s"
  shows "\<not> pm_matches n s"
proof
  assume n: "pm_matches n s"
  obtain i b c where i: "(i, b) \<in> set sg" "(i, c) \<in> set sg'" "b \<noteq> c" "b < 256" "c < 256"
    using assms(1) by (auto simp: conflict_def list_ex_iff)
  have "s ! i = word_of_nat b"
    using assms(2,4) i(1) pm_matches_head [of m s i] by (auto simp: has_signature_def)
  moreover have "s ! i = word_of_nat c"
    using assms(3) n i(2) pm_matches_head [of n s i] by (auto simp: has_signature_def)
  ultimately have "unat (word_of_nat b :: u8) = unat (word_of_nat c :: u8)"
    by simp
  then show False
    using i(3-5) by (simp add: unat_of_nat)
qed

definition entry_fact :: "detector_entry run \<Rightarrow> detector_kind \<Rightarrow> (nat \<times> nat) list \<Rightarrow> bool" where
  "entry_fact r k sg \<longleftrightarrow>
     (\<exists>m. r = Returns \<lparr>entry_kind = k, entry_matcher = m\<rparr> \<and> pm_ok m \<and> has_signature m sg)"

text \<open>What the registry is, once every entry is known to build.\<close>

definition registered :: "detector_entry \<Rightarrow> detector_kind \<times> (nat \<times> nat) list \<Rightarrow> bool" where
  "registered e p \<longleftrightarrow> entry_kind e = fst p \<and> pm_ok (entry_matcher e) \<and> has_signature (entry_matcher e) (snd p)"

lemma run_all_facts:
  "list_all2 (\<lambda>r p. entry_fact r (fst p) (snd p)) rs ps \<Longrightarrow>
    \<exists>reg. run_all rs = Returns reg \<and> list_all2 registered reg ps"
proof (induction rs ps rule: list_all2_induct)
  case (Cons r rs p ps)
  then obtain m reg where m: "r = Returns \<lparr>entry_kind = fst p, entry_matcher = m\<rparr>" "pm_ok m"
    "has_signature m (snd p)" and reg: "run_all rs = Returns reg" "list_all2 registered reg ps"
    unfolding entry_fact_def by blast
  have "registered \<lparr>entry_kind = fst p, entry_matcher = m\<rparr> p"
    using m(2,3) by (simp add: registered_def)
  then show ?case using m(1) reg by simp
qed simp

lemma list_all2_set1: "list_all2 P xs ys \<Longrightarrow> x \<in> set xs \<Longrightarrow> \<exists>y \<in> set ys. P x y"
  by (induction xs ys rule: list_all2_induct) auto

lemma registered_disjoint:
  assumes "list_all2 registered reg ps" "sorted_wrt (\<lambda>p q. conflict (snd p) (snd q)) ps"
  shows "sorted_wrt (\<lambda>d e. \<forall>s. pm_matches (entry_matcher d) s \<longrightarrow> \<not> pm_matches (entry_matcher e) s) reg"
  using assms
proof (induction reg ps rule: list_all2_induct)
  case (Cons d reg p ps)
  have "\<not> pm_matches (entry_matcher e) s"
    if e: "e \<in> set reg" and s: "pm_matches (entry_matcher d) s" for e s
  proof -
    obtain q where q: "q \<in> set ps" "registered e q"
      using list_all2_set1 [OF Cons.hyps(2)] e by blast
    have "conflict (snd p) (snd q)"
      using Cons.prems q(1) by simp
    moreover have "has_signature (entry_matcher d) (snd p)" "has_signature (entry_matcher e) (snd q)"
      using Cons.hyps(1) q(2) by (simp_all add: registered_def)
    ultimately show ?thesis
      using s by (rule conflict_disjoint)
  qed
  then show ?case
    using Cons.IH Cons.prems by simp
qed simp

end
