(* ===== verification/Pattern_Facts.thy ===== *)
theory Pattern_Facts
  imports Registry
begin

text \<open>
  What each of the seventeen fingerprints decodes to: the constants are hexadecimal text, so building
  a fingerprint never panics; the windows are valid and distinctly named; and the bytes at a few
  unmasked positions of the script (its signature), enough to tell any two patterns apart.
\<close>

definition decoded :: "string \<Rightarrow> u8 list" where
  "decoded s = map (\<lambda>i. word_of_nat (hex_byte s i)) [0..<length s div 2]"

lemma decode_signature:
  assumes "hex_signature s n sg"
  shows "base16_decode s = Some (decoded s)" "length (decoded s) = n"
    "(i, b) \<in> set sg \<Longrightarrow> i < n \<and> decoded s ! i = word_of_nat b"
  using assms base16_decode_hex [of s n]
  by (auto simp: hex_signature_def decoded_def list_all_iff)

lemma trim_line: "hex_signature s n sg \<Longrightarrow> rust_trim (s @ [char_of (10 :: nat)]) = s"
  by (simp add: hex_signature_def rust_trim_hex_newline)

lemma trim_text: "hex_signature s n sg \<Longrightarrow> rust_trim s = s"
  by (simp add: hex_signature_def rust_trim_hex)

lemma exact_fact:
  assumes "hex_signature s n sg" "r = Returns \<lparr>fp_bytes = decoded s, fp_windows = ws\<rparr>"
    "check_bounds ws n = Inr ()" "check_overlap ws = Inr ()" "distinct (map w_field ws)"
    "list_all (\<lambda>(i, b). \<not> in_mask ws i) sg"
  shows "entry_fact (exact k r) k sg"
  using assms decode_signature [OF assms(1)]
  by (auto simp: entry_fact_def exact_def pm_ok_def fp_validate_def validate_windows_def has_signature_def
      list_all_iff)

lemma anchored_fact:
  assumes "hex_signature s n sg"
    "r = Returns \<lparr>af_head = decoded s, af_windows = ws, af_tail = t\<rparr>"
    "check_bounds ws n = Inr ()" "check_overlap ws = Inr ()" "distinct (map w_field ws)"
    "list_all (\<lambda>(i, b). \<not> in_mask ws i) sg"
  shows "entry_fact (anchored k r) k sg"
  using assms decode_signature [OF assms(1)]
  by (auto simp: entry_fact_def anchored_def pm_ok_def af_validate_def validate_windows_def has_signature_def
      list_all_iff)

lemmas window_simps = window_def windows_overlap_def in_mask_def in_window_def

lemmas signature_simps = hex_signature_def is_nibble_def nibble_table hex_byte_def

lemma opensilver_ownable_text: "hex_signature OWNABLE_SCRIPT_HEX 420
    [(1, 32), (34, 1), (36, 32), (69, 108), (76, 121), (85, 105), (109, 81), (112, 1), (117, 1), (126, 2), (186, 81)]"
  by (simp add: signature_simps OWNABLE_SCRIPT_HEX_def)

lemma opensilver_ownable_entry: "entry_fact (exact OpenSilverOwnable (opensilver_ownable_fingerprint base16_decode)) OpenSilverOwnable
    [(1, 32), (34, 1), (36, 32), (69, 108), (76, 121), (85, 105), (109, 81), (112, 1), (117, 1), (126, 2), (186, 81)]"
  by (rule exact_fact [OF opensilver_ownable_text])
    (simp add: opensilver_ownable_fingerprint_def trim_text [OF opensilver_ownable_text] decode_signature(1) [OF opensilver_ownable_text] window_def,
      simp_all add: window_simps)

lemma opensilver_multisig_text: "hex_signature multisig_script_line 876
    [(1, 8), (10, 32), (76, 32), (109, 108), (112, 156), (117, 83), (126, 121), (186, 105)]"
  by (simp add: signature_simps multisig_script_line_def)

lemma opensilver_multisig_entry: "entry_fact (exact OpenSilverMultisig (opensilver_multisig_fingerprint base16_decode)) OpenSilverMultisig
    [(1, 8), (10, 32), (76, 32), (109, 108), (112, 156), (117, 83), (126, 121), (186, 105)]"
  by (rule exact_fact [OF opensilver_multisig_text])
    (simp add: opensilver_multisig_fingerprint_def MULTISIG_SCRIPT_HEX_def trim_line [OF opensilver_multisig_text] decode_signature(1) [OF opensilver_multisig_text] window_def,
      simp_all add: window_simps)

lemma opensilver_timelock_text: "hex_signature timelock_script_line 368
    [(1, 32), (34, 32), (67, 8), (76, 1), (85, 121), (109, 148), (112, 0), (117, 0), (126, 105), (186, 84)]"
  by (simp add: signature_simps timelock_script_line_def)

lemma opensilver_timelock_entry: "entry_fact (exact OpenSilverTimeLock (opensilver_timelock_fingerprint base16_decode)) OpenSilverTimeLock
    [(1, 32), (34, 32), (67, 8), (76, 1), (85, 121), (109, 148), (112, 0), (117, 0), (126, 105), (186, 84)]"
  by (rule exact_fact [OF opensilver_timelock_text])
    (simp add: opensilver_timelock_fingerprint_def TIMELOCK_SCRIPT_HEX_def trim_line [OF opensilver_timelock_text] decode_signature(1) [OF opensilver_timelock_text] window_def,
      simp_all add: window_simps)

lemma opensilver_vault_text: "hex_signature vault_script_line 2190
    [(1, 32), (34, 1), (36, 32), (69, 8), (186, 32)]"
  by (simp add: signature_simps vault_script_line_def)

lemma opensilver_vault_entry: "entry_fact (exact OpenSilverVault (opensilver_vault_fingerprint base16_decode)) OpenSilverVault
    [(1, 32), (34, 1), (36, 32), (69, 8), (186, 32)]"
  by (rule exact_fact [OF opensilver_vault_text])
    (simp add: opensilver_vault_fingerprint_def VAULT_SCRIPT_HEX_def trim_line [OF opensilver_vault_text] decode_signature(1) [OF opensilver_vault_text] window_def,
      simp_all add: window_simps)

lemma opensilver_escrow_bilateral_text: "hex_signature escrow_bilateral_script_line 362
    [(1, 32), (34, 32), (67, 32), (109, 108), (112, 156), (117, 83), (126, 170), (186, 122)]"
  by (simp add: signature_simps escrow_bilateral_script_line_def)

lemma opensilver_escrow_bilateral_entry: "entry_fact (exact OpenSilverEscrowBilateral (opensilver_escrow_bilateral_fingerprint base16_decode)) OpenSilverEscrowBilateral
    [(1, 32), (34, 32), (67, 32), (109, 108), (112, 156), (117, 83), (126, 170), (186, 122)]"
  by (rule exact_fact [OF opensilver_escrow_bilateral_text])
    (simp add: opensilver_escrow_bilateral_fingerprint_def ESCROW_BILATERAL_SCRIPT_HEX_def trim_line [OF opensilver_escrow_bilateral_text] decode_signature(1) [OF opensilver_escrow_bilateral_text] window_def,
      simp_all add: window_simps)

lemma opensilver_escrow_milestone_text: "hex_signature escrow_milestone_script_line 732
    [(1, 32), (34, 32), (67, 32), (109, 8), (186, 172)]"
  by (simp add: signature_simps escrow_milestone_script_line_def)

lemma opensilver_escrow_milestone_entry: "entry_fact (exact OpenSilverEscrowMilestone (opensilver_escrow_milestone_fingerprint base16_decode)) OpenSilverEscrowMilestone
    [(1, 32), (34, 32), (67, 32), (109, 8), (186, 172)]"
  by (rule exact_fact [OF opensilver_escrow_milestone_text])
    (simp add: opensilver_escrow_milestone_fingerprint_def ESCROW_MILESTONE_SCRIPT_HEX_def trim_line [OF opensilver_escrow_milestone_text] decode_signature(1) [OF opensilver_escrow_milestone_text] window_def,
      simp_all add: window_simps)

lemma opensilver_streaming_payment_text: "hex_signature streaming_payment_script_line 800
    [(1, 32), (34, 32), (67, 8), (76, 8), (85, 8), (112, 108), (117, 117), (126, 87), (186, 121)]"
  by (simp add: signature_simps streaming_payment_script_line_def)

lemma opensilver_streaming_payment_entry: "entry_fact (exact OpenSilverStreamingPayment (opensilver_streaming_payment_fingerprint base16_decode)) OpenSilverStreamingPayment
    [(1, 32), (34, 32), (67, 8), (76, 8), (85, 8), (112, 108), (117, 117), (126, 87), (186, 121)]"
  by (rule exact_fact [OF opensilver_streaming_payment_text])
    (simp add: opensilver_streaming_payment_fingerprint_def STREAMING_PAYMENT_SCRIPT_HEX_def trim_line [OF opensilver_streaming_payment_text] decode_signature(1) [OF opensilver_streaming_payment_text] window_def,
      simp_all add: window_simps)

lemma opensilver_vesting_text: "hex_signature vesting_script_line 873
    [(1, 32), (34, 32), (67, 8), (76, 8), (85, 8), (112, 1), (117, 156), (126, 88), (186, 162)]"
  by (simp add: signature_simps vesting_script_line_def)

lemma opensilver_vesting_entry: "entry_fact (exact OpenSilverVesting (opensilver_vesting_fingerprint base16_decode)) OpenSilverVesting
    [(1, 32), (34, 32), (67, 8), (76, 8), (85, 8), (112, 1), (117, 156), (126, 88), (186, 162)]"
  by (rule exact_fact [OF opensilver_vesting_text])
    (simp add: opensilver_vesting_fingerprint_def VESTING_SCRIPT_HEX_def trim_line [OF opensilver_vesting_text] decode_signature(1) [OF opensilver_vesting_text] window_def,
      simp_all add: window_simps)

lemma opensilver_dead_mans_switch_text: "hex_signature dead_mans_switch_script_line 454
    [(1, 32), (34, 32), (67, 8), (76, 8), (85, 108), (109, 89), (112, 84), (117, 121), (126, 117), (186, 81)]"
  by (simp add: signature_simps dead_mans_switch_script_line_def)

lemma opensilver_dead_mans_switch_entry: "entry_fact (exact OpenSilverDeadMansSwitch (opensilver_dead_mans_switch_fingerprint base16_decode)) OpenSilverDeadMansSwitch
    [(1, 32), (34, 32), (67, 8), (76, 8), (85, 108), (109, 89), (112, 84), (117, 121), (126, 117), (186, 81)]"
  by (rule exact_fact [OF opensilver_dead_mans_switch_text])
    (simp add: opensilver_dead_mans_switch_fingerprint_def DEAD_MANS_SWITCH_SCRIPT_HEX_def trim_line [OF opensilver_dead_mans_switch_text] decode_signature(1) [OF opensilver_dead_mans_switch_text] window_def,
      simp_all add: window_simps)

lemma opensilver_social_recovery_text: "hex_signature social_recovery_script_line 1260
    [(1, 32), (34, 1), (36, 32), (69, 8), (186, 8)]"
  by (simp add: signature_simps social_recovery_script_line_def)

lemma opensilver_social_recovery_entry: "entry_fact (exact OpenSilverSocialRecovery (opensilver_social_recovery_fingerprint base16_decode)) OpenSilverSocialRecovery
    [(1, 32), (34, 1), (36, 32), (69, 8), (186, 8)]"
  by (rule exact_fact [OF opensilver_social_recovery_text])
    (simp add: opensilver_social_recovery_fingerprint_def SOCIAL_RECOVERY_SCRIPT_HEX_def trim_line [OF opensilver_social_recovery_text] decode_signature(1) [OF opensilver_social_recovery_text] window_def,
      simp_all add: window_simps)

lemma opensilver_atomic_swap_htlc_text: "hex_signature atomic_swap_htlc_script_line 250
    [(1, 32), (34, 32), (67, 32), (109, 108), (112, 156), (117, 82), (126, 88), (186, 82)]"
  by (simp add: signature_simps atomic_swap_htlc_script_line_def)

lemma opensilver_atomic_swap_htlc_entry: "entry_fact (exact OpenSilverAtomicSwapHTLC (opensilver_atomic_swap_htlc_fingerprint base16_decode)) OpenSilverAtomicSwapHTLC
    [(1, 32), (34, 32), (67, 32), (109, 108), (112, 156), (117, 82), (126, 88), (186, 82)]"
  by (rule exact_fact [OF opensilver_atomic_swap_htlc_text])
    (simp add: opensilver_atomic_swap_htlc_fingerprint_def ATOMIC_SWAP_HTLC_SCRIPT_HEX_def trim_line [OF opensilver_atomic_swap_htlc_text] decode_signature(1) [OF opensilver_atomic_swap_htlc_text] window_def,
      simp_all add: window_simps)

lemma opensilver_freelance_payroll_text: "hex_signature freelance_payroll_script_line 453
    [(1, 32), (34, 32), (67, 32), (109, 108), (112, 156), (117, 83), (126, 85), (186, 117)]"
  by (simp add: signature_simps freelance_payroll_script_line_def)

lemma opensilver_freelance_payroll_entry: "entry_fact (exact OpenSilverFreelancePayroll (opensilver_freelance_payroll_fingerprint base16_decode)) OpenSilverFreelancePayroll
    [(1, 32), (34, 32), (67, 32), (109, 108), (112, 156), (117, 83), (126, 85), (186, 117)]"
  by (rule exact_fact [OF opensilver_freelance_payroll_text])
    (simp add: opensilver_freelance_payroll_fingerprint_def FREELANCE_PAYROLL_SCRIPT_HEX_def trim_line [OF opensilver_freelance_payroll_text] decode_signature(1) [OF opensilver_freelance_payroll_text] window_def,
      simp_all add: window_simps)

lemma kcc20_asset_text: "hex_signature KCC20_ASSET_HEAD_HEX 64
    [(1, 32), (34, 1), (36, 8)]"
  by (simp add: signature_simps KCC20_ASSET_HEAD_HEX_def)

lemma kcc20_asset_tail_text: "hex_signature KCC20_ASSET_TAIL_HEX 154 []"
  by (simp add: signature_simps KCC20_ASSET_TAIL_HEX_def)

lemma kcc20_asset_entry: "entry_fact (anchored KCC20Asset (kcc20_asset_fingerprint base16_decode)) KCC20Asset
    [(1, 32), (34, 1), (36, 8)]"
  by (rule anchored_fact [OF kcc20_asset_text])
    (simp add: kcc20_asset_fingerprint_def decode_signature(1) [OF kcc20_asset_text] decode_signature(1) [OF kcc20_asset_tail_text]
      window_def, simp_all add: window_simps)

lemma kcc20_ownable_controller_text: "hex_signature KCC20_OWNABLE_CONTROLLER_HEAD_HEX 212
    [(1, 32), (34, 1), (36, 32), (69, 32), (109, 117), (112, 84), (117, 121), (126, 135), (186, 1)]"
  by (simp add: signature_simps KCC20_OWNABLE_CONTROLLER_HEAD_HEX_def)

lemma kcc20_ownable_controller_tail_text: "hex_signature KCC20_OWNABLE_CONTROLLER_TAIL_HEX 107 []"
  by (simp add: signature_simps KCC20_OWNABLE_CONTROLLER_TAIL_HEX_def)

lemma kcc20_ownable_controller_entry: "entry_fact (anchored KCC20OwnableController (kcc20_ownable_controller_fingerprint base16_decode)) KCC20OwnableController
    [(1, 32), (34, 1), (36, 32), (69, 32), (109, 117), (112, 84), (117, 121), (126, 135), (186, 1)]"
  by (rule anchored_fact [OF kcc20_ownable_controller_text])
    (simp add: kcc20_ownable_controller_fingerprint_def decode_signature(1) [OF kcc20_ownable_controller_text] decode_signature(1) [OF kcc20_ownable_controller_tail_text]
      window_def, simp_all add: window_simps)

lemma kcc20_pausable_controller_text: "hex_signature KCC20_PAUSABLE_CONTROLLER_HEAD_HEX 137
    [(1, 32), (34, 1), (36, 1), (67, 83), (69, 32), (76, 238), (85, 238), (109, 86), (112, 32), (117, 81), (126, 205)]"
  by (simp add: signature_simps KCC20_PAUSABLE_CONTROLLER_HEAD_HEX_def)

lemma kcc20_pausable_controller_tail_text: "hex_signature KCC20_PAUSABLE_CONTROLLER_TAIL_HEX 86 []"
  by (simp add: signature_simps KCC20_PAUSABLE_CONTROLLER_TAIL_HEX_def)

lemma kcc20_pausable_controller_entry: "entry_fact (anchored KCC20PausableController (kcc20_pausable_controller_fingerprint base16_decode)) KCC20PausableController
    [(1, 32), (34, 1), (36, 1), (67, 83), (69, 32), (76, 238), (85, 238), (109, 86), (112, 32), (117, 81), (126, 205)]"
  by (rule anchored_fact [OF kcc20_pausable_controller_text])
    (simp add: kcc20_pausable_controller_fingerprint_def decode_signature(1) [OF kcc20_pausable_controller_text] decode_signature(1) [OF kcc20_pausable_controller_tail_text]
      window_def, simp_all add: window_simps)

lemma kcc20_capped_controller_text: "hex_signature KCC20_CAPPED_CONTROLLER_HEAD_HEX 186
    [(1, 32), (34, 8), (67, 121), (69, 121), (76, 162), (85, 105), (109, 32), (112, 238), (117, 238), (126, 238)]"
  by (simp add: signature_simps KCC20_CAPPED_CONTROLLER_HEAD_HEX_def)

lemma kcc20_capped_controller_tail_text: "hex_signature KCC20_CAPPED_CONTROLLER_TAIL_HEX 107 []"
  by (simp add: signature_simps KCC20_CAPPED_CONTROLLER_TAIL_HEX_def)

lemma kcc20_capped_controller_entry: "entry_fact (anchored KCC20CappedController (kcc20_capped_controller_fingerprint base16_decode)) KCC20CappedController
    [(1, 32), (34, 8), (67, 121), (69, 121), (76, 162), (85, 105), (109, 32), (112, 238), (117, 238), (126, 238)]"
  by (rule anchored_fact [OF kcc20_capped_controller_text])
    (simp add: kcc20_capped_controller_fingerprint_def decode_signature(1) [OF kcc20_capped_controller_text] decode_signature(1) [OF kcc20_capped_controller_tail_text]
      window_def, simp_all add: window_simps)

lemma kcc20_vesting_controller_text: "hex_signature KCC20_VESTING_CONTROLLER_HEAD_HEX 287
    [(1, 8), (10, 8), (85, 99), (109, 162), (112, 120), (117, 0), (126, 121), (186, 238)]"
  by (simp add: signature_simps KCC20_VESTING_CONTROLLER_HEAD_HEX_def)

lemma kcc20_vesting_controller_tail_text: "hex_signature KCC20_VESTING_CONTROLLER_TAIL_HEX 138 []"
  by (simp add: signature_simps KCC20_VESTING_CONTROLLER_TAIL_HEX_def)

lemma kcc20_vesting_controller_entry: "entry_fact (anchored KCC20VestingController (kcc20_vesting_controller_fingerprint base16_decode)) KCC20VestingController
    [(1, 8), (10, 8), (85, 99), (109, 162), (112, 120), (117, 0), (126, 121), (186, 238)]"
  by (rule anchored_fact [OF kcc20_vesting_controller_text])
    (simp add: kcc20_vesting_controller_fingerprint_def decode_signature(1) [OF kcc20_vesting_controller_text] decode_signature(1) [OF kcc20_vesting_controller_tail_text]
      window_def, simp_all add: window_simps)

definition registry_signatures :: "(detector_kind \<times> (nat \<times> nat) list) list" where
  "registry_signatures =
    [(OpenSilverOwnable,
      [(1, 32), (34, 1), (36, 32), (69, 108), (76, 121), (85, 105), (109, 81), (112, 1), (117, 1), (126, 2), (186, 81)]),
     (OpenSilverMultisig,
      [(1, 8), (10, 32), (76, 32), (109, 108), (112, 156), (117, 83), (126, 121), (186, 105)]),
     (OpenSilverTimeLock,
      [(1, 32), (34, 32), (67, 8), (76, 1), (85, 121), (109, 148), (112, 0), (117, 0), (126, 105), (186, 84)]),
     (OpenSilverVault,
      [(1, 32), (34, 1), (36, 32), (69, 8), (186, 32)]),
     (OpenSilverEscrowBilateral,
      [(1, 32), (34, 32), (67, 32), (109, 108), (112, 156), (117, 83), (126, 170), (186, 122)]),
     (OpenSilverEscrowMilestone,
      [(1, 32), (34, 32), (67, 32), (109, 8), (186, 172)]),
     (OpenSilverStreamingPayment,
      [(1, 32), (34, 32), (67, 8), (76, 8), (85, 8), (112, 108), (117, 117), (126, 87), (186, 121)]),
     (OpenSilverVesting,
      [(1, 32), (34, 32), (67, 8), (76, 8), (85, 8), (112, 1), (117, 156), (126, 88), (186, 162)]),
     (OpenSilverDeadMansSwitch,
      [(1, 32), (34, 32), (67, 8), (76, 8), (85, 108), (109, 89), (112, 84), (117, 121), (126, 117), (186, 81)]),
     (OpenSilverSocialRecovery,
      [(1, 32), (34, 1), (36, 32), (69, 8), (186, 8)]),
     (OpenSilverAtomicSwapHTLC,
      [(1, 32), (34, 32), (67, 32), (109, 108), (112, 156), (117, 82), (126, 88), (186, 82)]),
     (OpenSilverFreelancePayroll,
      [(1, 32), (34, 32), (67, 32), (109, 108), (112, 156), (117, 83), (126, 85), (186, 117)]),
     (KCC20Asset,
      [(1, 32), (34, 1), (36, 8)]),
     (KCC20OwnableController,
      [(1, 32), (34, 1), (36, 32), (69, 32), (109, 117), (112, 84), (117, 121), (126, 135), (186, 1)]),
     (KCC20PausableController,
      [(1, 32), (34, 1), (36, 1), (67, 83), (69, 32), (76, 238), (85, 238), (109, 86), (112, 32), (117, 81), (126, 205)]),
     (KCC20CappedController,
      [(1, 32), (34, 8), (67, 121), (69, 121), (76, 162), (85, 105), (109, 32), (112, 238), (117, 238), (126, 238)]),
     (KCC20VestingController,
      [(1, 8), (10, 8), (85, 99), (109, 162), (112, 120), (117, 0), (126, 121), (186, 238)])]"

lemmas registry_entries =
  opensilver_ownable_entry
  opensilver_multisig_entry
  opensilver_timelock_entry
  opensilver_vault_entry
  opensilver_escrow_bilateral_entry
  opensilver_escrow_milestone_entry
  opensilver_streaming_payment_entry
  opensilver_vesting_entry
  opensilver_dead_mans_switch_entry
  opensilver_social_recovery_entry
  opensilver_atomic_swap_htlc_entry
  opensilver_freelance_payroll_entry
  kcc20_asset_entry
  kcc20_ownable_controller_entry
  kcc20_pausable_controller_entry
  kcc20_capped_controller_entry
  kcc20_vesting_controller_entry

lemma build_registry_ok:
  "\<exists>reg. build_registry base16_decode = Returns reg \<and> list_all2 registered reg registry_signatures"
  unfolding build_registry_def
  by (rule run_all_facts)
    (simp only: registry_signatures_def list_all2_Cons list_all2_Nil fst_conv snd_conv
      registry_entries simp_thms)

lemma signatures_conflict:
  "sorted_wrt (\<lambda>p q. conflict (snd p) (snd q)) registry_signatures"
  by code_simp

end
