(* ===== verification/Detectors.thy ===== *)
theory Detectors
  imports Pattern_Facts Json_Value
begin

text \<open>
  \<open>lib.rs\<close> of \<open>kasgraph-detectors\<close>: covenant ids, detection in an output, the payload, the
  exported schema. blake2b and the two functions of the \<open>hex\<close> crate are parameters.
\<close>

record detected_pattern =
  dp_kind :: detector_kind
  dp_covenant_id :: "string option"
  dp_tx_hash :: string
  dp_output_index :: u32
  dp_payload :: json

definition covenant_id_domain :: "u8 list" where
  "covenant_id_domain = as_bytes ''kasgraph.covenant_id.v1''"

text \<open>The input the hasher has absorbed, and the id.\<close>

definition covenant_id_preimage :: "string \<Rightarrow> u32 \<Rightarrow> u8 list" where
  "covenant_id_preimage genesis_tx genesis_output =
     covenant_id_domain @ as_bytes genesis_tx @ u32_to_be_bytes genesis_output"

definition genesis_covenant_id ::
  "(u8 list \<Rightarrow> u8 list) \<Rightarrow> (u8 list \<Rightarrow> string) \<Rightarrow> string \<Rightarrow> u32 \<Rightarrow> string" where
  "genesis_covenant_id H hexe genesis_tx genesis_output =
     hexe (H (covenant_id_preimage genesis_tx genesis_output))"

definition payload_to_json :: "(u8 list \<Rightarrow> string) \<Rightarrow> fields \<Rightarrow> json" where
  "payload_to_json hexe payload =
     JObject (foldl (\<lambda>m (field, bytes). bt_insert field (JString (hexe bytes)) m) [] payload)"

fun detect_entries ::
  "(u8 list \<Rightarrow> string) \<Rightarrow> u8 list \<Rightarrow> string \<Rightarrow> u32 \<Rightarrow> detector_entry list \<Rightarrow> detected_pattern list run" where
  "detect_entries hexe script tx_hash output_index [] = Returns []"
| "detect_entries hexe script tx_hash output_index (e # es) =
     run_bind (pm_match_and_extract (entry_matcher e) script) (\<lambda>m.
       case m of
         None \<Rightarrow> detect_entries hexe script tx_hash output_index es
       | Some payload \<Rightarrow>
           run_map ((#) \<lparr>dp_kind = entry_kind e, dp_covenant_id = None, dp_tx_hash = tx_hash,
                         dp_output_index = output_index,
                         dp_payload = payload_to_json hexe payload\<rparr>)
             (detect_entries hexe script tx_hash output_index es))"

definition detect_in_output ::
  "hex_decoder \<Rightarrow> (u8 list \<Rightarrow> string) \<Rightarrow> u8 list \<Rightarrow> string \<Rightarrow> u32 \<Rightarrow> detected_pattern list run" where
  "detect_in_output hexd hexe script tx_hash output_index =
     run_bind (build_registry hexd) (detect_entries hexe script tx_hash output_index)"

record detector_schema =
  sch_kind :: detector_kind
  sch_fields :: "(string \<times> nat) list"

record registry_schema_doc =
  rs_version :: string
  rs_detectors :: "detector_schema list"

definition registry_schema :: "string \<Rightarrow> detector_entry list \<Rightarrow> registry_schema_doc" where
  "registry_schema version reg =
     \<lparr>rs_version = version,
      rs_detectors = map (\<lambda>e. \<lparr>sch_kind = entry_kind e,
        sch_fields = map (\<lambda>w. (w_field w, w_len w)) (pm_windows (entry_matcher e))\<rparr>) reg\<rparr>"

section \<open>The payload\<close>

lemma payload_fold:
  assumes "bt_ok m"
  shows "map_of (foldl (\<lambda>m (field, bytes). bt_insert field (JString (hexe bytes)) m) m payload) k =
      (case map_of (rev payload) k of Some b \<Rightarrow> Some (JString (hexe b)) | None \<Rightarrow> map_of m k)"
  using assms
  by (induction payload arbitrary: m) (auto simp: map_add_def split: option.split)

lemma payload_get:
  assumes "distinct (map fst payload)"
  shows "get_str (payload_to_json hexe payload) k = map_option hexe (map_of payload k)"
proof -
  have "map_of (rev payload) = map_of payload"
    using assms by (metis distinct_map distinct_rev map_of_inject_set rev_map set_rev)
  then show ?thesis
    by (auto simp: payload_to_json_def payload_fold split: option.split)
qed

section \<open>Detection over the registry\<close>

definition disjoint_registry :: "detector_entry list \<Rightarrow> bool" where
  "disjoint_registry reg \<longleftrightarrow> (\<forall>e \<in> set reg. pm_ok (entry_matcher e)) \<and>
     sorted_wrt (\<lambda>d e. \<forall>s. pm_matches (entry_matcher d) s \<longrightarrow> \<not> pm_matches (entry_matcher e) s) reg"

lemma registered_kinds: "list_all2 registered reg ps \<Longrightarrow> map entry_kind reg = map fst ps"
  by (induction reg ps rule: list_all2_induct) (auto simp: registered_def)

lemma registry_disjoint:
  "\<exists>reg. build_registry base16_decode = Returns reg \<and> disjoint_registry reg \<and>
    map entry_kind reg = map fst registry_signatures"
proof -
  obtain reg where reg: "build_registry base16_decode = Returns reg"
    "list_all2 registered reg registry_signatures"
    using build_registry_ok by blast
  have "\<forall>e \<in> set reg. pm_ok (entry_matcher e)"
    using list_all2_set1 [OF reg(2)] by (auto simp: registered_def)
  moreover have "map entry_kind reg = map fst registry_signatures"
    using reg(2) by (rule registered_kinds)
  ultimately show ?thesis
    using reg(1) registered_disjoint [OF reg(2) signatures_conflict] by (auto simp: disjoint_registry_def)
qed

lemma pm_no_match: "\<not> pm_matches m s \<Longrightarrow> pm_match_and_extract m s = Returns None"
  by (cases m) (auto simp: fp_match_and_extract_def af_match_and_extract_def)

lemma detect_none:
  "(\<And>e. e \<in> set reg \<Longrightarrow> \<not> pm_matches (entry_matcher e) s) \<Longrightarrow>
    detect_entries hexe s tx ix reg = Returns []"
  by (induction reg) (auto simp: pm_no_match)

text \<open>What the loop over a disjoint registry finds: the one entry that matches, if any.\<close>

lemma detect_disjoint:
  assumes "disjoint_registry reg" "e \<in> set reg" "pm_matches (entry_matcher e) s"
  shows "\<exists>out. pm_match_and_extract (entry_matcher e) s = Returns (Some out) \<and> bt_ok out \<and>
    map_of out = field_value (pm_windows (entry_matcher e)) s \<and>
    detect_entries hexe s tx ix reg = Returns [\<lparr>dp_kind = entry_kind e, dp_covenant_id = None,
      dp_tx_hash = tx, dp_output_index = ix, dp_payload = payload_to_json hexe out\<rparr>]"
  using assms
proof (induction reg)
  case (Cons d reg)
  show ?case
  proof (cases "pm_matches (entry_matcher d) s")
    case True
    then have e: "e = d" using Cons.prems by (auto simp: disjoint_registry_def)
    obtain out where "pm_match_and_extract (entry_matcher d) s = Returns (Some out)" "bt_ok out"
      "map_of out = field_value (pm_windows (entry_matcher d)) s"
      using pm_extract [OF _ True] Cons.prems(1) by (auto simp: disjoint_registry_def)
    moreover have "detect_entries hexe s tx ix reg = Returns []"
      using Cons.prems(1) True by (intro detect_none) (auto simp: disjoint_registry_def)
    ultimately show ?thesis using e by simp
  next
    case False
    then show ?thesis
      using Cons.IH Cons.prems by (auto simp: disjoint_registry_def pm_no_match)
  qed
qed simp

section \<open>Properties\<close>

text \<open>C19: the registry is sound as shipped. If the \<open>hex\<close> crate decodes base 16, building it never
  panics; it holds the seventeen kinds in order, each once; every matcher validates, with distinct
  field names; and no script whatsoever matches two of the seventeen patterns.\<close>

theorem registry_sound:
  assumes "\<And>s. hexd s = base16_decode s"
  shows "\<exists>reg. build_registry hexd = Returns reg \<and> length reg = 17 \<and>
    distinct (map entry_kind reg) \<and>
    (\<forall>e \<in> set reg. pm_validate (entry_matcher e) = Inr () \<and>
       distinct (map w_field (pm_windows (entry_matcher e)))) \<and>
    sorted_wrt (\<lambda>d e. \<forall>s. pm_matches (entry_matcher d) s \<longrightarrow> \<not> pm_matches (entry_matcher e) s) reg"
proof -
  have h: "hexd = base16_decode" using assms by auto
  obtain reg where reg: "build_registry base16_decode = Returns reg" "disjoint_registry reg"
    "map entry_kind reg = map fst registry_signatures"
    using registry_disjoint by blast
  have "length reg = 17"
    using arg_cong [OF reg(3), of length] by (simp add: registry_signatures_def)
  moreover have "distinct (map entry_kind reg)"
    unfolding reg(3) by (simp add: registry_signatures_def)
  ultimately show ?thesis
    using reg(1,2) by (auto simp: h disjoint_registry_def pm_ok_def)
qed

lemma registry_sound_witness:
  "\<exists>reg. build_registry base16_decode = Returns reg \<and> length reg = 17"
  using registry_sound [of base16_decode] by auto

text \<open>Detection is exact. For any script, detection never panics and reports at most one hit;
  and for the script of an instance of a registered pattern, with field values of the declared
  widths and any loop-unrolled middle, it reports exactly that pattern, at that outpoint, with every
  state field as the encoding of its value.\<close>

theorem detect_instance:
  assumes "\<And>s. hexd s = base16_decode s"
  shows "(\<exists>hits. detect_in_output hexd hexe script tx ix = Returns hits \<and> length hits \<le> 1) \<and>
    (\<exists>reg. build_registry hexd = Returns reg \<and>
      (\<forall>e \<in> set reg. \<forall>val mid.
        (\<forall>w \<in> set (pm_windows (entry_matcher e)). length (val (w_field w)) = w_len w) \<longrightarrow>
        (\<exists>hit. detect_in_output hexd hexe (pm_instance (entry_matcher e) val mid) tx ix = Returns [hit] \<and>
          dp_kind hit = entry_kind e \<and> dp_tx_hash hit = tx \<and> dp_output_index hit = ix \<and>
          (\<forall>w \<in> set (pm_windows (entry_matcher e)).
            get_str (dp_payload hit) (w_field w) = Some (hexe (val (w_field w)))))))"
proof -
  have h: "hexd = base16_decode" using assms by auto
  obtain reg where reg: "build_registry base16_decode = Returns reg" "disjoint_registry reg"
    using registry_disjoint by blast
  have one: "\<exists>hits. detect_entries hexe script tx ix reg = Returns hits \<and> length hits \<le> 1"
  proof (cases "\<exists>e \<in> set reg. pm_matches (entry_matcher e) script")
    case True
    then show ?thesis using detect_disjoint [OF reg(2), of _ script hexe tx ix] by fastforce
  next
    case False
    then show ?thesis using detect_none [of reg script hexe tx ix] by auto
  qed
  have inst: "\<exists>hit. detect_entries hexe (pm_instance (entry_matcher e) val mid) tx ix reg = Returns [hit] \<and>
      dp_kind hit = entry_kind e \<and> dp_tx_hash hit = tx \<and> dp_output_index hit = ix \<and>
      (\<forall>w \<in> set (pm_windows (entry_matcher e)).
        get_str (dp_payload hit) (w_field w) = Some (hexe (val (w_field w))))"
    if e: "e \<in> set reg"
      and val: "\<forall>w \<in> set (pm_windows (entry_matcher e)). length (val (w_field w)) = w_len w" for e val mid
  proof -
    have ok: "pm_ok (entry_matcher e)" using reg(2) e by (auto simp: disjoint_registry_def)
    obtain out where out: "bt_ok out"
      "map_of out = field_value (pm_windows (entry_matcher e)) (pm_instance (entry_matcher e) val mid)"
      "detect_entries hexe (pm_instance (entry_matcher e) val mid) tx ix reg =
        Returns [\<lparr>dp_kind = entry_kind e, dp_covenant_id = None,
          dp_tx_hash = tx, dp_output_index = ix, dp_payload = payload_to_json hexe out\<rparr>]"
      using detect_disjoint [OF reg(2) e pm_instance_matches [OF ok], where hexe = hexe and tx = tx and ix = ix]
      by blast
    show ?thesis
      unfolding out(3)
      using out(2) instance_field [OF ok val, of mid]
      by (auto simp: payload_get bt_ok_distinct [OF out(1)])
  qed
  show ?thesis
    using one inst reg(1) by (auto simp: h detect_in_output_def)
qed

lemma detect_instance_witness:
  "\<exists>hits. detect_in_output base16_decode base16_encode [1, 2, 3] ''t'' 0 = Returns hits \<and> length hits \<le> 1"
  using detect_instance [of base16_decode] by blast

text \<open>Covenant ids identify the genesis outpoint. Two outpoints have the same id only if they are
  equal or blake2b collides on two different, fully determined inputs.\<close>

theorem covenant_id_binding:
  assumes "\<And>a b. hexe a = hexe b \<Longrightarrow> a = b"
    and "genesis_covenant_id H hexe tx ix = genesis_covenant_id H hexe tx' ix'"
  shows "tx = tx' \<and> ix = ix' \<or>
    covenant_id_preimage tx ix \<noteq> covenant_id_preimage tx' ix' \<and>
    H (covenant_id_preimage tx ix) = H (covenant_id_preimage tx' ix')"
proof -
  have eq: "H (covenant_id_preimage tx ix) = H (covenant_id_preimage tx' ix')"
    using assms(1) [OF assms(2) [unfolded genesis_covenant_id_def]] .
  have "tx = tx' \<and> ix = ix'" if "covenant_id_preimage tx ix = covenant_id_preimage tx' ix'"
  proof -
    have "as_bytes tx = as_bytes tx' \<and> u32_to_be_bytes ix = u32_to_be_bytes ix'"
      using that by (simp add: covenant_id_preimage_def append_eq_append_conv)
    then show ?thesis by simp
  qed
  with eq show ?thesis by blast
qed

lemma covenant_id_binding_witness:
  "covenant_id_preimage ''a'' 1 \<noteq> covenant_id_preimage ''b'' 1 \<and> take 8 (covenant_id_preimage ''a'' 1) =
    take 8 (covenant_id_preimage ''b'' 1)"
  using covenant_id_binding [of base16_encode "take 8" "''a''" 1 "''b''" 1]
  by (simp add: genesis_covenant_id_def covenant_id_preimage_def covenant_id_domain_def)

end
