(* ===== verification/Poi.thy ===== *)
theory Poi
  imports Rust_Str Json_Value "HOL-Library.Multiset"
begin

text \<open>
  \<open>kasgraph-poi\<close>: the proof-of-indexing hash chain, its verifier, and the canonical bytes of a block.
  blake2b-256 (\<open>H\<close>), the \<open>hex\<close> crate and the serializer of \<open>serde_json\<close> (\<open>ser\<close>) are parameters. A
  \<open>PoiHash\<close> is its list of 32 bytes.
\<close>

section \<open>Definitions\<close>

type_synonym poi_hash = "u8 list"

record canonical_entity =
  ce_type :: string
  ce_id :: string
  ce_state :: json

datatype poi_error = EmptyEntityBytes | InvalidHex

definition genesis_poi :: poi_hash where
  "genesis_poi = replicate 32 0"

definition compute_poi :: "(u8 list \<Rightarrow> u8 list) \<Rightarrow> poi_hash \<Rightarrow> u8 list \<Rightarrow> poi_error + poi_hash" where
  "compute_poi H prior bytes =
     (if bytes = [] then Inl EmptyEntityBytes else Inr (H (prior @ bytes)))"

definition poi_hex :: "(u8 list \<Rightarrow> string) \<Rightarrow> poi_hash \<Rightarrow> string" where
  "poi_hex hexe poi = hexe poi"

definition poi_from_hex :: "hex_decoder \<Rightarrow> string \<Rightarrow> poi_error + poi_hash" where
  "poi_from_hex hexd s =
     (case hexd s of
        None \<Rightarrow> Inl InvalidHex
      | Some bytes \<Rightarrow> if length bytes = 32 then Inr bytes else Inl InvalidHex)"

record poi_checkpoint =
  cp_bytes :: "u8 list"
  cp_expected :: poi_hash

datatype poi_verification = Valid poi_hash | Diverged nat poi_hash poi_hash

text \<open>The loop of \<open>verify_poi_chain\<close>, from checkpoint number \<open>index\<close> with the POI before it.\<close>

fun verify_from ::
  "(u8 list \<Rightarrow> u8 list) \<Rightarrow> nat \<Rightarrow> poi_hash \<Rightarrow> poi_checkpoint list \<Rightarrow> poi_error + poi_verification" where
  "verify_from H index prior [] = Inr (Valid prior)"
| "verify_from H index prior (cp # cps) =
     (case compute_poi H prior (cp_bytes cp) of
        Inl e \<Rightarrow> Inl e
      | Inr recomputed \<Rightarrow>
          if recomputed \<noteq> cp_expected cp then Inr (Diverged index (cp_expected cp) recomputed)
          else verify_from H (Suc index) recomputed cps)"

definition verify_poi_chain ::
  "(u8 list \<Rightarrow> u8 list) \<Rightarrow> poi_checkpoint list \<Rightarrow> poi_error + poi_verification" where
  "verify_poi_chain H cps = verify_from H 0 genesis_poi cps"

definition push_field :: "u8 list \<Rightarrow> u8 list" where
  "push_field bytes = u32_to_le_bytes (word_of_nat (length bytes)) @ bytes"

text \<open>Object keys sorted and inserted one by one into a fresh map, at every depth.\<close>

fun canonicalize_value :: "json \<Rightarrow> json" where
  "canonicalize_value (JArray items) = JArray (map canonicalize_value items)"
| "canonicalize_value (JObject m) =
     JObject (foldl (\<lambda>acc e. bt_insert (fst e) (snd e) acc) []
       (sort_key fst (map (\<lambda>e. (fst e, canonicalize_value (snd e))) m)))"
| "canonicalize_value v = v"

definition canonical_json :: "(json \<Rightarrow> u8 list) \<Rightarrow> json \<Rightarrow> u8 list" where
  "canonical_json ser v = ser (canonicalize_value v)"

definition entity_bytes :: "(json \<Rightarrow> u8 list) \<Rightarrow> canonical_entity \<Rightarrow> u8 list" where
  "entity_bytes ser e =
     push_field (as_bytes (ce_type e)) @ push_field (as_bytes (ce_id e)) @
     push_field (canonical_json ser (ce_state e))"

definition entity_key :: "canonical_entity \<Rightarrow> string \<times> string" where
  "entity_key e = (ce_type e, ce_id e)"

definition canonical_block_bytes :: "(json \<Rightarrow> u8 list) \<Rightarrow> canonical_entity list \<Rightarrow> u8 list" where
  "canonical_block_bytes ser entities =
     (let sorted = sort_key entity_key entities
      in u32_to_le_bytes (word_of_nat (length sorted)) @ concat (map (entity_bytes ser) sorted))"

section \<open>The chain\<close>

text \<open>The chain an honest indexer publishes for the canonical bytes of its blocks.\<close>

fun poi_chain :: "(u8 list \<Rightarrow> u8 list) \<Rightarrow> poi_hash \<Rightarrow> u8 list list \<Rightarrow> poi_hash list" where
  "poi_chain H prior [] = []"
| "poi_chain H prior (b # bs) = H (prior @ b) # poi_chain H (H (prior @ b)) bs"

definition published :: "u8 list list \<Rightarrow> poi_hash list \<Rightarrow> poi_checkpoint list" where
  "published bs ps = map (\<lambda>(b, p). \<lparr>cp_bytes = b, cp_expected = p\<rparr>) (zip bs ps)"

definition final_poi :: "(u8 list \<Rightarrow> u8 list) \<Rightarrow> poi_hash \<Rightarrow> u8 list list \<Rightarrow> poi_hash" where
  "final_poi H prior bs = foldl (\<lambda>p b. H (p @ b)) prior bs"

lemma length_poi_chain [simp]: "length (poi_chain H prior bs) = length bs"
  by (induction bs arbitrary: prior) auto

lemma canonical_bytes_nonempty: "canonical_block_bytes ser es \<noteq> []"
proof -
  have "u32_to_le_bytes w \<noteq> []" for w
    by (metis length_u32_bytes(1) list.size(3) zero_neq_numeral)
  then show ?thesis by (simp add: canonical_block_bytes_def Let_def)
qed

lemma verify_honest:
  assumes "list_all (\<lambda>b. b \<noteq> []) bs" "length ps = length bs"
  shows "verify_from H k prior (published bs ps) =
    (case find (\<lambda>i. ps ! i \<noteq> poi_chain H prior bs ! i) [0..<length bs] of
       None \<Rightarrow> Inr (Valid (final_poi H prior bs))
     | Some i \<Rightarrow> Inr (Diverged (k + i) (ps ! i) (poi_chain H prior bs ! i)))"
  using assms
proof (induction bs arbitrary: ps k prior)
  case (Cons b bs)
  obtain p ps' where ps: "ps = p # ps'" "length ps' = length bs"
    using Cons.prems(2) by (cases ps) auto
  let ?h = "H (prior @ b)"
  have find: "find P (map Suc xs) = map_option Suc (find (P \<circ> Suc) xs)" for P xs
    by (induction xs) auto
  show ?case
  proof (cases "p = ?h")
    case True
    then show ?thesis
      using Cons.IH [of ps' "Suc k" ?h] Cons.prems(1) ps
      by (auto simp: published_def compute_poi_def final_poi_def upt_Suc_map find comp_def
          simp del: upt_Suc split: option.split)
  next
    case False
    then show ?thesis
      using Cons.prems(1) ps by (simp add: published_def compute_poi_def upt_Suc_map del: upt_Suc)
  qed
qed (simp add: published_def final_poi_def)

lemma final_poi_snoc: "final_poi H prior (bs @ [b]) = H (final_poi H prior bs @ b)"
  by (simp add: final_poi_def)

text \<open>What the verifier hashes for the checkpoints of a chain it accepts: each one's bytes after the POI published
  before them.\<close>

definition absorbed :: "poi_checkpoint list \<Rightarrow> u8 list list" where
  "absorbed cps = map2 (\<lambda>prior cp. prior @ cp_bytes cp) (genesis_poi # map cp_expected cps) cps"

lemma absorbed_snoc: "absorbed (cps @ [cp]) = absorbed cps @ [last (genesis_poi # map cp_expected cps) @ cp_bytes cp]"
proof -
  have "zip (p # map cp_expected cps @ [q]) (cps @ [cp]) =
      zip (p # map cp_expected cps) cps @ [(last (p # map cp_expected cps), cp)]" for p q
    by (induction cps arbitrary: p) auto
  then show ?thesis by (simp add: absorbed_def)
qed

text \<open>The verifier accepts one more checkpoint if it accepts the ones before and the last POI is the hash.\<close>

lemma verify_from_snoc:
  "verify_from H k prior (cps @ [cp]) = Inr (Valid q) \<longleftrightarrow>
    (\<exists>p. verify_from H k prior cps = Inr (Valid p) \<and> cp_bytes cp \<noteq> [] \<and> cp_expected cp = H (p @ cp_bytes cp) \<and> q = cp_expected cp)"
  by (induction cps arbitrary: k prior) (auto simp: compute_poi_def)

lemma verify_from_last: "verify_from H k prior cps = Inr (Valid p) \<Longrightarrow> p = last (prior # map cp_expected cps)"
  by (induction cps arbitrary: k prior) (auto simp: compute_poi_def split: if_splits)

lemma verified_length:
  assumes "\<And>x. length (H x) = 32" "verify_from H k genesis_poi cps = Inr (Valid p)"
  shows "length p = 32"
  using assms(2) by (cases cps rule: rev_cases) (auto simp: verify_from_snoc assms(1) genesis_poi_def)

section \<open>Canonical bytes\<close>

lemma word_of_nat_u32_inject:
  "m < 2 ^ 32 \<Longrightarrow> n < 2 ^ 32 \<Longrightarrow> (word_of_nat m :: u32) = word_of_nat n \<longleftrightarrow> m = n"
proof -
  assume "m < 2 ^ 32" "n < 2 ^ 32"
  then have "unat (word_of_nat m :: u32) = m" "unat (word_of_nat n :: u32) = n"
    by (simp_all add: unat_of_nat)
  then show ?thesis by metis
qed

lemma push_field_inject:
  assumes "push_field a @ r = push_field b @ s" "length a < 2 ^ 32" "length b < 2 ^ 32"
  shows "a = b \<and> r = s"
proof -
  have "u32_to_le_bytes (word_of_nat (length a)) = u32_to_le_bytes (word_of_nat (length b))"
    "a @ r = b @ s"
    using assms(1) by (simp_all add: push_field_def append_eq_append_conv)
  then have "length a = length b"
    using assms(2,3) by (simp add: word_of_nat_u32_inject)
  with \<open>a @ r = b @ s\<close> show ?thesis by (simp add: append_eq_append_conv)
qed

definition fits :: "(json \<Rightarrow> u8 list) \<Rightarrow> canonical_entity \<Rightarrow> bool" where
  "fits ser e \<longleftrightarrow> length (ce_type e) < 2 ^ 32 \<and> length (ce_id e) < 2 ^ 32 \<and>
     length (canonical_json ser (ce_state e)) < 2 ^ 32"

lemma entity_bytes_inject:
  assumes "entity_bytes ser a @ r = entity_bytes ser b @ s" "fits ser a" "fits ser b"
  shows "entity_key a = entity_key b \<and>
    canonical_json ser (ce_state a) = canonical_json ser (ce_state b) \<and> r = s"
  using assms
  by (auto simp: entity_bytes_def fits_def entity_key_def dest!: push_field_inject)

lemma entities_bytes_inject:
  assumes "concat (map (entity_bytes ser) xs) = concat (map (entity_bytes ser) ys)"
    "length xs = length ys" "list_all (fits ser) xs" "list_all (fits ser) ys"
  shows "map (\<lambda>e. (entity_key e, canonical_json ser (ce_state e))) xs =
    map (\<lambda>e. (entity_key e, canonical_json ser (ce_state e))) ys"
  using assms
proof (induction xs arbitrary: ys)
  case (Cons x xs)
  then obtain y ys' where "ys = y # ys'" by (cases ys) auto
  then show ?case
    using Cons.prems Cons.IH [of ys']
      entity_bytes_inject [of ser x "concat (map (entity_bytes ser) xs)" y
        "concat (map (entity_bytes ser) ys')"]
    by simp
qed simp

text \<open>Values equal up to the order in which objects list their entries, at any depth.\<close>

inductive same_json :: "json \<Rightarrow> json \<Rightarrow> bool" where
  "same_json v v"
| "list_all2 same_json xs ys \<Longrightarrow> same_json (JArray xs) (JArray ys)"
| "distinct (map fst m) \<Longrightarrow> distinct (map fst n) \<Longrightarrow> dom (map_of m) = dom (map_of n) \<Longrightarrow>
     (\<And>k a b. map_of m k = Some a \<Longrightarrow> map_of n k = Some b \<Longrightarrow> same_json a b) \<Longrightarrow>
     same_json (JObject m) (JObject n)"
monos list_all2_mono

lemma fold_insert_ok: "bt_ok acc \<Longrightarrow> bt_ok (foldl (\<lambda>acc e. bt_insert (fst e) (snd e) acc) acc m)"
  by (induction m arbitrary: acc) auto

lemma fold_insert_get:
  "distinct (map fst m) \<Longrightarrow> map_of (foldl (\<lambda>acc e. bt_insert (fst e) (snd e) acc) acc m) k =
    (case map_of m k of Some v \<Rightarrow> Some v | None \<Rightarrow> map_of acc k)"
proof (induction m arbitrary: acc)
  case (Cons e m)
  have "map_of m (fst e) = None"
    using Cons.prems by (simp add: map_of_eq_None_iff)
  then show ?case
    using Cons by (cases e) (auto split: option.split)
qed simp

lemma distinct_map_sort: "distinct (map f (sort_key g xs)) \<longleftrightarrow> distinct (map f xs)"
  by (simp add: distinct_map)

lemma canonical_object:
  assumes "distinct (map fst m)"
  shows "\<exists>c. canonicalize_value (JObject m) = JObject c \<and> bt_ok c \<and>
    map_of c = (\<lambda>k. map_option canonicalize_value (map_of m k))"
proof -
  let ?m = "map (\<lambda>e. (fst e, canonicalize_value (snd e))) m"
  let ?s = "sort_key fst ?m"
  have d: "distinct (map fst ?s)" "distinct (map fst ?m)"
  proof -
    show "distinct (map fst ?m)" using assms by (simp add: comp_def)
    then show "distinct (map fst ?s)"
      by (simp only: distinct_map_sort)
  qed
  have "map_of ?s = map_of ?m"
    using map_of_inject_set [OF d] by simp
  moreover have "map_of ?m k = map_option canonicalize_value (map_of m k)" for k
    by (induction m) auto
  ultimately show ?thesis
    using fold_insert_ok [of "[]" ?s] fold_insert_get [OF d(1), of "[]"]
    by (auto simp: fun_eq_iff split: option.splits)
qed

lemma canonicalize_same: "same_json v w \<Longrightarrow> canonicalize_value v = canonicalize_value w"
proof (induction v w rule: same_json.induct)
  case (2 xs ys)
  then show ?case by (auto simp: list_all2_conv_all_nth intro: nth_equalityI)
next
  case (3 m n)
  obtain c d where c: "canonicalize_value (JObject m) = JObject c" "bt_ok c"
      "map_of c = (\<lambda>k. map_option canonicalize_value (map_of m k))"
    and d: "canonicalize_value (JObject n) = JObject d" "bt_ok d"
      "map_of d = (\<lambda>k. map_option canonicalize_value (map_of n k))"
    using canonical_object [OF 3(1)] canonical_object [OF 3(2)] by blast
  have "map_of c k = map_of d k" for k
  proof (cases "map_of m k")
    case None
    then have "map_of n k = None" using 3(3) by (metis domIff)
    then show ?thesis using None by (simp add: c(3) d(3))
  next
    case (Some a)
    then obtain b where "map_of n k = Some b" using 3(3) by (metis domD domI)
    then show ?thesis using Some 3(5) [of k a b] by (simp add: c(3) d(3))
  qed
  then have "c = d"
    using c(2) d(2) by (intro bt_ok_ext) auto
  then show ?case using c(1) d(1) by simp
qed simp

text \<open>A value \<open>serde_json\<close> holds lists its entries in key order already and is left as it is.\<close>

lemma insert_sorted_all:
  "sorted_wrt (<) (map fst (acc @ m)) \<Longrightarrow> foldl (\<lambda>acc e. bt_insert (fst e) (snd e) acc) acc m = acc @ m"
proof (induction m arbitrary: acc)
  case (Cons e m)
  have "bt_insert k v acc = acc @ [(k, v)]" if "\<forall>x \<in> set acc. fst x < k" for k v
    using that by (induction acc) (auto simp: not_less_iff_gr_or_eq)
  then have "bt_insert (fst e) (snd e) acc = acc @ [e]"
    using Cons.prems by (auto simp: sorted_wrt_append)
  then show ?case using Cons by simp
qed simp

lemma canonicalize_ok: "json_ok v \<Longrightarrow> canonicalize_value v = v"
proof (induction v rule: canonicalize_value.induct)
  case (1 items)
  then show ?case by (simp add: map_idI)
next
  case (2 m)
  have "map (\<lambda>e. (fst e, canonicalize_value (snd e))) m = m"
    using 2 by (intro map_idI) (auto simp: prod_eq_iff)
  moreover have "sorted_wrt (<) (map fst m)" using 2(2) by (simp add: bt_ok_def)
  moreover from this have "sort_key fst m = m" by (intro sort_key_id_if_sorted) (simp add: strict_sorted_imp_sorted)
  ultimately show ?case using insert_sorted_all [of "[]" m] by simp
qed simp_all

lemma canonical_json_same: "same_json v w \<Longrightarrow> canonical_json ser v = canonical_json ser w"
  by (simp add: canonical_json_def canonicalize_same)

text \<open>Blocks with the same entities, in any order and with any order of object keys.\<close>

definition same_entity :: "canonical_entity \<Rightarrow> canonical_entity \<Rightarrow> bool" where
  "same_entity a b \<longleftrightarrow> entity_key a = entity_key b \<and> same_json (ce_state a) (ce_state b)"

lemma entity_bytes_same: "same_entity a b \<Longrightarrow> entity_bytes ser a = entity_bytes ser b"
  using canonical_json_same [of "ce_state a" "ce_state b" ser]
  by (simp add: same_entity_def entity_bytes_def entity_key_def)

lemma block_bytes_permute:
  assumes "mset xs = mset ys" "distinct (map entity_key xs)"
  shows "canonical_block_bytes ser xs = canonical_block_bytes ser ys"
proof -
  have "inj_on entity_key (set xs)"
    using assms(2) by (simp add: distinct_map)
  then have "sort_key entity_key xs = sort_key entity_key ys"
    using assms(1) by (intro sort_key_inj_key_eq) auto
  then show ?thesis by (simp add: canonical_block_bytes_def)
qed

lemma map_sort_key: "map f (sort_key (g \<circ> f) xs) = sort_key g (map f xs)"
proof -
  have "map f (insort_key (g \<circ> f) x ys) = insort_key g (f x) (map f ys)" for x ys
    by (induction ys) auto
  then show ?thesis by (induction xs) (simp_all del: comp_apply)
qed

lemma sort_key_same:
  assumes "list_all2 same_entity xs ys" "distinct (map entity_key xs)"
  shows "map (entity_bytes ser) (sort_key entity_key xs) = map (entity_bytes ser) (sort_key entity_key ys)"
proof -
  define pair where "pair e = (entity_key e, entity_bytes ser e)" for e
  have p: "map pair xs = map pair ys"
    using assms(1)
    by (induction xs ys rule: list_all2_induct)
      (auto simp: pair_def entity_bytes_same same_entity_def)
  have "map pair (sort_key entity_key zs) = sort_key fst (map pair zs)" for zs
    using map_sort_key [of pair fst zs] by (simp add: pair_def comp_def)
  then have "map pair (sort_key entity_key xs) = map pair (sort_key entity_key ys)"
    by (simp add: p)
  then have "map snd (map pair (sort_key entity_key xs)) = map snd (map pair (sort_key entity_key ys))"
    by (rule arg_cong)
  then show ?thesis by (simp add: pair_def comp_def)
qed

section \<open>Properties\<close>

text \<open>C36: the verifier is right about honest and dishonest chains. Given the blocks' canonical bytes,
  it accepts exactly the POIs an honest indexer publishes, and otherwise names the first block whose
  published POI differs, with the published and the correct value.\<close>

theorem poi_verify_exact:
  assumes "list_all (\<lambda>b. b \<noteq> []) bs" "length ps = length bs"
  shows "verify_poi_chain H (published bs ps) =
    (case find (\<lambda>i. ps ! i \<noteq> poi_chain H genesis_poi bs ! i) [0..<length bs] of
       None \<Rightarrow> Inr (Valid (final_poi H genesis_poi bs))
     | Some i \<Rightarrow> Inr (Diverged i (ps ! i) (poi_chain H genesis_poi bs ! i)))"
  using verify_honest [OF assms, of H 0 genesis_poi] by (simp add: verify_poi_chain_def cong: option.case_cong)

lemma poi_verify_exact_witness:
  "verify_poi_chain (take 32) (published [[1], [2]] [genesis_poi, [7]]) =
    Inr (Diverged 1 [7] genesis_poi)"
  using poi_verify_exact [of "[[1], [2]]" "[genesis_poi, [7]]" "take 32"]
  by (simp add: genesis_poi_def numeral_eq_Suc)

text \<open>C29: an accepted POI commits to the whole history. If the verifier accepts two chains of checkpoints, of any
  lengths, and ends with the same POI, the chains are the same checkpoint by checkpoint, bytes and POIs; or it
  hashed, in checking them, two different inputs on which blake2b collides, or an input whose hash is the POI of
  genesis, thirty-two zero bytes.\<close>

theorem poi_chain_binding:
  assumes "\<And>x. length (H x) = 32" "verify_poi_chain H cps = Inr (Valid p)" "verify_poi_chain H ds = Inr (Valid p)"
  shows "cps = ds \<or> (\<exists>x \<in> set (absorbed cps). \<exists>y \<in> set (absorbed ds). x \<noteq> y \<and> H x = H y) \<or>
    (\<exists>x \<in> set (absorbed cps) \<union> set (absorbed ds). H x = genesis_poi)"
  using assms(2,3) unfolding verify_poi_chain_def
proof (induction cps arbitrary: ds p rule: rev_induct)
  case Nil
  then show ?case
    by (cases ds rule: rev_cases) (auto simp: verify_from_snoc absorbed_snoc dest!: verify_from_last)
next
  case (snoc c cs)
  obtain q where q: "verify_from H 0 genesis_poi cs = Inr (Valid q)" "p = H (q @ cp_bytes c)" "cp_expected c = p"
    using snoc.prems(1) by (auto simp: verify_from_snoc)
  have c_in: "q @ cp_bytes c \<in> set (absorbed (cs @ [c]))" using verify_from_last [OF q(1)] by (simp add: absorbed_snoc)
  show ?case
  proof (cases ds rule: rev_cases)
    case Nil
    then have "p = genesis_poi" using snoc.prems(2) by simp
    then show ?thesis using c_in q(2) by auto
  next
    case (snoc es e)
    obtain r where r: "verify_from H 0 genesis_poi es = Inr (Valid r)" "p = H (r @ cp_bytes e)" "cp_expected e = p"
      using snoc.prems(2) snoc by (auto simp: verify_from_snoc)
    have e_in: "r @ cp_bytes e \<in> set (absorbed ds)" using verify_from_last [OF r(1)] snoc by (simp add: absorbed_snoc)
    show ?thesis
    proof (cases "q @ cp_bytes c = r @ cp_bytes e")
      case True
      then have "q = r" "cp_bytes c = cp_bytes e"
        using verified_length [OF assms(1) q(1)] verified_length [OF assms(1) r(1)] by (simp_all add: append_eq_append_conv)
      moreover from this have "c = e" using q(3) r(3) by (cases c; cases e) simp
      ultimately show ?thesis using snoc.IH [OF q(1), of es] r(1) snoc by (auto simp: absorbed_snoc)
    next
      case False
      moreover have "H (q @ cp_bytes c) = H (r @ cp_bytes e)" using q(2) r(2) by simp
      ultimately show ?thesis using c_in e_in by blast
    qed
  qed
qed

lemma poi_chain_binding_witness:
  "\<exists>x \<in> set (absorbed [\<lparr>cp_bytes = [1], cp_expected = replicate 32 7\<rparr>]).
    \<exists>y \<in> set (absorbed [\<lparr>cp_bytes = [2], cp_expected = replicate 32 7\<rparr>]). x \<noteq> y \<and> replicate 32 (7 :: u8) = replicate 32 7"
proof -
  let ?H = "\<lambda>_ :: u8 list. replicate 32 7 :: u8 list"
  have "?H [] \<noteq> genesis_poi" by (simp add: genesis_poi_def replicate_eq_replicate)
  moreover have "verify_poi_chain ?H [\<lparr>cp_bytes = [1], cp_expected = replicate 32 7\<rparr>] = Inr (Valid (replicate 32 7))"
      "verify_poi_chain ?H [\<lparr>cp_bytes = [2], cp_expected = replicate 32 7\<rparr>] = Inr (Valid (replicate 32 7))"
    by (simp_all add: verify_poi_chain_def compute_poi_def)
  ultimately show ?thesis
    using poi_chain_binding [of ?H "[\<lparr>cp_bytes = [1], cp_expected = replicate 32 7\<rparr>]" "replicate 32 7"
        "[\<lparr>cp_bytes = [2], cp_expected = replicate 32 7\<rparr>]"] by auto
qed

text \<open>The canonical bytes do not depend on how the state was collected or stored. Two blocks with
  the same entities, each at most once, have the same canonical bytes in whatever order the entities
  were collected and in whatever order their JSON objects, at any depth, list their keys.\<close>

theorem canonical_bytes_order_free:
  assumes "mset xs = mset zs" "list_all2 same_entity zs ys" "distinct (map entity_key xs)"
  shows "canonical_block_bytes ser xs = canonical_block_bytes ser ys"
proof -
  have d: "distinct (map entity_key zs)"
    using assms(1,3) by (metis mset_eq_imp_distinct_iff mset_map)
  have "canonical_block_bytes ser zs = canonical_block_bytes ser ys"
    using sort_key_same [OF assms(2) d, of ser] list_all2_lengthD [OF assms(2)]
    by (simp add: canonical_block_bytes_def)
  then show ?thesis
    using block_bytes_permute [OF assms(1,3), of ser] by simp
qed

definition sample_entity :: "string \<Rightarrow> (string \<times> json) list \<Rightarrow> canonical_entity" where
  "sample_entity i m = \<lparr>ce_type = ''T'', ce_id = i, ce_state = JObject m\<rparr>"

lemma canonical_bytes_order_free_witness:
  "canonical_block_bytes (\<lambda>_. [0])
      [sample_entity ''b'' [], sample_entity ''a'' [(''x'', JNull), (''y'', JBool True)]] =
    canonical_block_bytes (\<lambda>_. [0])
      [sample_entity ''a'' [(''y'', JBool True), (''x'', JNull)], sample_entity ''b'' []]"
proof (rule canonical_bytes_order_free)
  show "mset [sample_entity ''b'' [], sample_entity ''a'' [(''x'', JNull), (''y'', JBool True)]] =
      mset [sample_entity ''a'' [(''x'', JNull), (''y'', JBool True)], sample_entity ''b'' []]"
    by simp
  have "same_json (JObject [(''x'', JNull), (''y'', JBool True)])
      (JObject [(''y'', JBool True), (''x'', JNull)])"
    by (rule same_json.intros(3)) (auto split: if_splits intro: same_json.intros(1))
  then show "list_all2 same_entity
      [sample_entity ''a'' [(''x'', JNull), (''y'', JBool True)], sample_entity ''b'' []]
      [sample_entity ''a'' [(''y'', JBool True), (''x'', JNull)], sample_entity ''b'' []]"
    by (simp add: same_entity_def sample_entity_def entity_key_def same_json.intros(1))
qed (simp add: sample_entity_def entity_key_def)

text \<open>C21: the canonical bytes determine the state. Let the serializer of \<open>serde_json\<close> print different values
  differently, as its parser recovers what was printed. If two blocks, within the 32-bit length prefixes, have the
  same canonical bytes, they hold the same entities, state included: sorted by type and id the two lists are
  equal. No two states, field splits or entity lists are confused.\<close>

theorem canonical_bytes_injective:
  assumes "\<And>v w. json_ok v \<Longrightarrow> json_ok w \<Longrightarrow> ser v = ser w \<Longrightarrow> v = w"
    and "canonical_block_bytes ser xs = canonical_block_bytes ser ys"
    and "length xs < 2 ^ 32" "length ys < 2 ^ 32" "list_all (fits ser) xs" "list_all (fits ser) ys"
    and "\<forall>e \<in> set (xs @ ys). json_ok (ce_state e)"
  shows "sort_key entity_key xs = sort_key entity_key ys"
proof -
  have "u32_to_le_bytes (word_of_nat (length xs)) = u32_to_le_bytes (word_of_nat (length ys))"
    and bytes: "concat (map (entity_bytes ser) (sort_key entity_key xs)) = concat (map (entity_bytes ser) (sort_key entity_key ys))"
    using assms(2) by (simp_all add: canonical_block_bytes_def append_eq_append_conv)
  then have "length xs = length ys" using assms(3,4) by (simp add: word_of_nat_u32_inject)
  with bytes have "map (\<lambda>e. (entity_key e, canonical_json ser (ce_state e))) (sort_key entity_key xs) =
      map (\<lambda>e. (entity_key e, canonical_json ser (ce_state e))) (sort_key entity_key ys)"
    using assms(5,6) by (intro entities_bytes_inject) (simp_all add: list_all_iff)
  moreover have "inj_on (\<lambda>e. (entity_key e, canonical_json ser (ce_state e))) (set xs \<union> set ys)"
    using assms(1,7) by (auto intro!: inj_onI canonical_entity.equality simp: canonical_json_def entity_key_def canonicalize_ok)
  ultimately show ?thesis by (simp add: inj_on_map_eq_map)
qed

text \<open>A serializer that prints different values differently: a tag, then the parts, each with its end marked.\<close>

definition mark_nat :: "nat \<Rightarrow> u8 list" where
  "mark_nat n = replicate n 1 @ [0]"

definition mark_string :: "string \<Rightarrow> u8 list" where
  "mark_string s = mark_nat (length s) @ as_bytes s"

fun tag_json :: "json \<Rightarrow> u8 list" where
  "tag_json JNull = [0]"
| "tag_json (JBool b) = [1, if b then 1 else 0]"
| "tag_json (JNumber (PosInt w)) = 2 # mark_nat (unat w)"
| "tag_json (JNumber (NegInt i)) = 3 # (if i < 0 then 1 else 0) # mark_nat (nat \<bar>i\<bar>)"
| "tag_json (JNumber (Float s)) = 4 # mark_string s"
| "tag_json (JString s) = 5 # mark_string s"
| "tag_json (JArray vs) = 6 # mark_nat (length vs) @ concat (map tag_json vs)"
| "tag_json (JObject m) = 7 # mark_nat (length m) @ concat (map (\<lambda>e. mark_string (fst e) @ tag_json (snd e)) m)"

lemma mark_nat_inject: "mark_nat m @ r = mark_nat n @ s \<longleftrightarrow> m = n \<and> r = s"
proof (induction m arbitrary: n)
  case 0
  then show ?case by (cases n) (auto simp: mark_nat_def)
next
  case (Suc m)
  then show ?case by (cases n) (auto simp: mark_nat_def)
qed

lemma mark_string_inject: "mark_string a @ r = mark_string b @ s \<longleftrightarrow> a = b \<and> r = s"
  by (auto simp: mark_string_def mark_nat_inject append_eq_append_conv)

lemma prefix_free_list:
  assumes "\<And>x y r s. x \<in> set xs \<Longrightarrow> f x @ r = f y @ s \<Longrightarrow> x = y \<and> r = s"
  shows "length xs = length ys \<Longrightarrow> concat (map f xs) @ r = concat (map f ys) @ s \<Longrightarrow> xs = ys \<and> r = s"
  using assms
proof (induction xs arbitrary: ys)
  case (Cons x xs)
  then obtain y ys' where ys: "ys = y # ys'" by (cases ys) auto
  then have "x = y" "concat (map f xs) @ r = concat (map f ys') @ s"
    using Cons.prems(3) [of x "concat (map f xs) @ r" y "concat (map f ys') @ s"] Cons.prems(2) by auto
  then show ?case using Cons.IH [of ys'] Cons.prems(1,3) ys by auto
qed simp

lemma tag_json_inject: "tag_json v @ r = tag_json w @ s \<Longrightarrow> v = w \<and> r = s"
proof (induction v arbitrary: w r s rule: tag_json.induct)
  case (7 vs)
  then obtain ws where ws: "w = JArray ws" by (cases w rule: tag_json.cases) auto
  then show ?case
    using 7 prefix_free_list [of vs tag_json ws r s] by (auto simp: mark_nat_inject)
next
  case (8 m)
  then obtain n where n: "w = JObject n" by (cases w rule: tag_json.cases) auto
  have "m = n \<and> r = s"
  proof (rule prefix_free_list [where f = "\<lambda>e. mark_string (fst e) @ tag_json (snd e)"])
    show "x = y \<and> r = s" if "x \<in> set m" "(mark_string (fst x) @ tag_json (snd x)) @ r = (mark_string (fst y) @ tag_json (snd y)) @ s" for x y r s
      using that(2) 8(1) [OF that(1)] by (auto simp: mark_string_inject prod_eq_iff)
  qed (use 8(2) n in \<open>simp_all add: mark_nat_inject\<close>)
  then show ?case using n by simp
next
  case 1
  then show ?case by (cases w rule: tag_json.cases) auto
next
  case (2 b)
  then show ?case by (cases w rule: tag_json.cases) (auto split: if_splits)
next
  case (3 n)
  then show ?case by (cases w rule: tag_json.cases) (auto simp: mark_nat_inject word_unat_eq_iff)
next
  case (4 i)
  then show ?case by (cases w rule: tag_json.cases) (auto simp: mark_nat_inject split: if_splits)
next
  case (5 x)
  then show ?case by (cases w rule: tag_json.cases) (auto simp: mark_string_inject)
next
  case (6 x)
  then show ?case by (cases w rule: tag_json.cases) (auto simp: mark_string_inject)
qed

lemma canonical_bytes_injective_witness:
  "canonical_block_bytes tag_json [sample_entity ''a'' [(''x'', JNull)]] \<noteq> canonical_block_bytes tag_json [sample_entity ''a'' [(''x'', JBool True)]]"
proof
  have inj: "v = w" if "tag_json v = tag_json w" for v w using tag_json_inject [of v "[]" w "[]"] that by simp
  have fits: "list_all (fits tag_json) [sample_entity ''a'' [(''x'', JNull)]]" "list_all (fits tag_json) [sample_entity ''a'' [(''x'', JBool True)]]"
    by (simp_all add: fits_def sample_entity_def canonical_json_def mark_string_def mark_nat_def)
  assume "canonical_block_bytes tag_json [sample_entity ''a'' [(''x'', JNull)]] = canonical_block_bytes tag_json [sample_entity ''a'' [(''x'', JBool True)]]"
  from canonical_bytes_injective [OF inj this _ _ fits] show False
    by (simp add: sample_entity_def bt_ok_def)
qed

text \<open>Distinct keys are needed: two versions of one entity in the same block are hashed in the order
  they were collected.\<close>

lemma canonical_bytes_duplicate_order:
  assumes "ser JNull = [1]" "ser (JBool True) = [2]"
  shows "canonical_block_bytes ser
      [\<lparr>ce_type = ''T'', ce_id = ''a'', ce_state = JNull\<rparr>, \<lparr>ce_type = ''T'', ce_id = ''a'', ce_state = JBool True\<rparr>] \<noteq>
    canonical_block_bytes ser
      [\<lparr>ce_type = ''T'', ce_id = ''a'', ce_state = JBool True\<rparr>, \<lparr>ce_type = ''T'', ce_id = ''a'', ce_state = JNull\<rparr>]"
  using assms
  by (simp add: canonical_block_bytes_def entity_key_def entity_bytes_def canonical_json_def push_field_def)

end
