(* ===== verification/Chain_Types.thy ===== *)
theory Chain_Types
  imports Detectors Poi
begin

text \<open>
  The data the chain side of KasGraph exchanges: the blocks and notifications of \<open>kasgraph-rpc\<close>
  (\<open>src/crates/kasgraph-rpc/src/lib.rs\<close>) and the text formats of numbers, booleans, detector kinds and
  strings that the node builds keys and hash inputs from.
\<close>

section \<open>Blocks and notifications\<close>

record ingested_output =
  io_tx_hash :: string
  io_output_index :: u32
  io_script :: "u8 list"
  io_value :: u64

record ingested_input =
  ii_spending_tx :: string
  ii_previous_tx :: string
  ii_previous_index :: u32

record ingested_payload =
  ip_tx_hash :: string
  ip_payload :: "u8 list"

record ingested_block =
  ib_hash :: string
  ib_daa :: u64
  ib_blue :: u64
  ib_finalized :: bool
  ib_served_by :: string
  ib_outputs :: "ingested_output list"
  ib_inputs :: "ingested_input list"
  ib_payloads :: "ingested_payload list"

datatype chain_notification =
    BlockAdded ingested_block
  | VirtualChainChanged "string list" "ingested_block list"
  | RecoveryRequired u64 u64 string

section \<open>Formatting\<close>

text \<open>\<open>Display\<close> of the integers and of \<open>bool\<close>.\<close>

definition int_to_string :: "int \<Rightarrow> string" where
  "int_to_string i = (if i < 0 then ''-'' @ nat_to_string (nat (- i)) else nat_to_string (nat i))"

definition u32_to_string :: "u32 \<Rightarrow> string" where
  "u32_to_string w = nat_to_string (unat w)"

definition bool_to_string :: "bool \<Rightarrow> string" where
  "bool_to_string b = (if b then ''true'' else ''false'')"

text \<open>The key of a transaction output, \<open>format!("{}:{}", tx, index)\<close>.\<close>

definition outpoint :: "string \<Rightarrow> u32 \<Rightarrow> string" where
  "outpoint tx i = tx @ '':'' @ u32_to_string i"

text \<open>The derived \<open>Debug\<close> of \<open>DetectorKind\<close>: the name of the variant.\<close>

fun kind_name :: "detector_kind \<Rightarrow> string" where
  "kind_name OpenSilverOwnable = ''OpenSilverOwnable''"
| "kind_name OpenSilverMultisig = ''OpenSilverMultisig''"
| "kind_name OpenSilverTimeLock = ''OpenSilverTimeLock''"
| "kind_name OpenSilverVault = ''OpenSilverVault''"
| "kind_name OpenSilverEscrowBilateral = ''OpenSilverEscrowBilateral''"
| "kind_name OpenSilverEscrowMilestone = ''OpenSilverEscrowMilestone''"
| "kind_name OpenSilverStreamingPayment = ''OpenSilverStreamingPayment''"
| "kind_name OpenSilverVesting = ''OpenSilverVesting''"
| "kind_name OpenSilverDeadMansSwitch = ''OpenSilverDeadMansSwitch''"
| "kind_name OpenSilverSocialRecovery = ''OpenSilverSocialRecovery''"
| "kind_name OpenSilverAtomicSwapHTLC = ''OpenSilverAtomicSwapHTLC''"
| "kind_name OpenSilverFreelancePayroll = ''OpenSilverFreelancePayroll''"
| "kind_name KCC20Asset = ''KCC20Asset''"
| "kind_name KCC20OwnableController = ''KCC20OwnableController''"
| "kind_name KCC20PausableController = ''KCC20PausableController''"
| "kind_name KCC20CappedController = ''KCC20CappedController''"
| "kind_name KCC20VestingController = ''KCC20VestingController''"
| "kind_name ZkVerifiedComputation = ''ZkVerifiedComputation''"
| "kind_name ZkPrivateAssetTransfer = ''ZkPrivateAssetTransfer''"
| "kind_name ZkVerifiedOracle = ''ZkVerifiedOracle''"
| "kind_name ZkVerifiedOracleV2 = ''ZkVerifiedOracleV2''"
| "kind_name ZkProofStitchedMultiPattern = ''ZkProofStitchedMultiPattern''"
| "kind_name Krc721Collection = ''Krc721Collection''"
| "kind_name Krc721Nft = ''Krc721Nft''"
| "kind_name KasBondsBond = ''KasBondsBond''"

text \<open>The \<open>Debug\<close> of a string: quoted, with the escapes of \<open>str\<close>. Bytes beyond ASCII are copied;
  the few non-printable characters there, which Rust escapes, do not occur in field names.\<close>

definition debug_char :: "char \<Rightarrow> string" where
  "debug_char c =
     (if c = CHR 0x22 then [CHR 0x5C, CHR 0x22]
      else if c = CHR 0x5C then [CHR 0x5C, CHR 0x5C]
      else if c = CHR 0x09 then [CHR 0x5C, CHR ''t'']
      else if c = CHR 0x0A then [CHR 0x5C, CHR ''n'']
      else if c = CHR 0x0D then [CHR 0x5C, CHR ''r'']
      else if c = CHR 0x00 then [CHR 0x5C, CHR ''0'']
      else if (of_char c :: nat) < 16 then [CHR 0x5C, CHR ''u'', CHR ''{'', nibble_char (of_char c), CHR ''}'']
      else if (of_char c :: nat) < 32 \<or> (of_char c :: nat) = 127
        then [CHR 0x5C, CHR ''u'', CHR ''{'', nibble_char (of_char c div 16), nibble_char (of_char c mod 16), CHR ''}'']
      else [c])"

definition debug_str :: "string \<Rightarrow> string" where
  "debug_str s = CHR 0x22 # concat (map debug_char s) @ [CHR 0x22]"

text \<open>\<open>parts.join(",")\<close>.\<close>

fun join :: "string \<Rightarrow> string list \<Rightarrow> string" where
  "join sep [] = []"
| "join sep [s] = s"
| "join sep (s # t # ss) = s @ sep @ join sep (t # ss)"

lemma kind_name_inject [simp]: "kind_name a = kind_name b \<longleftrightarrow> a = b"
  by (cases a; cases b) simp_all

lemma nat_to_string_inject [simp]: "nat_to_string m = nat_to_string n \<longleftrightarrow> m = n"
proof -
  have "foldl (\<lambda>a c. a * 10 + digit_value c) 0 (nat_to_string n) = n" for n
  proof (induction n rule: nat_to_string.induct)
    case (1 n)
    then show ?case by (cases "n < 10") (simp_all add: nat_to_string.simps [of n])
  qed
  then show ?thesis by metis
qed

lemma u32_to_string_inject [simp]: "u32_to_string a = u32_to_string b \<longleftrightarrow> a = b"
  by (simp add: u32_to_string_def unsigned_word_eqI [of a b] word_unat_eq_iff)

text \<open>A decimal number holds no colon, so an outpoint key determines the output.\<close>

lemma colon_not_digit: "list_all is_ascii_digit s \<Longrightarrow> CHR '':'' \<notin> set s"
  by (auto simp: list_all_iff is_ascii_digit_alt)

lemma last_colon_split:
  assumes "CHR '':'' \<notin> set s" "CHR '':'' \<notin> set t"
  shows "a @ CHR '':'' # s = b @ CHR '':'' # t \<Longrightarrow> a = b \<and> s = t"
proof (induction a arbitrary: b)
  case Nil
  with assms show ?case by (cases b) auto
next
  case (Cons x a)
  with assms show ?case by (cases b) auto
qed

lemma outpoint_inject [simp]: "outpoint tx i = outpoint tx' i' \<longleftrightarrow> tx = tx' \<and> i = i'"
proof
  assume "outpoint tx i = outpoint tx' i'"
  then have "tx @ CHR '':'' # u32_to_string i = tx' @ CHR '':'' # u32_to_string i'"
    by (simp add: outpoint_def)
  moreover have "CHR '':'' \<notin> set (u32_to_string i)" for i
    using nat_to_string_digits [of "unat i"] by (simp add: u32_to_string_def colon_not_digit)
  ultimately show "tx = tx' \<and> i = i'"
    using last_colon_split [of "u32_to_string i" "u32_to_string i'" tx tx'] by simp
qed simp

end
