(* ===== verification/Ingestion.thy ===== *)
theory Ingestion
  imports Chain_Types
begin

text \<open>
  The block-DAG view of the node: \<open>IngestionState\<close> of \<open>src/crates/kasgraph-node/src/main.rs\<close>, the
  conversion of an RPC block, and the transition a notification makes. The two functions of the
  \<open>hex\<close> crate and \<open>serde_json::Value::to_string\<close> (\<open>ser\<close>) are parameters.
\<close>

section \<open>Blocks\<close>

record bootstrap_block =
  bb_hash :: string
  bb_daa :: i64
  bb_blue :: i64
  bb_served_by :: string
  bb_finalized :: bool
  bb_bytes :: "u8 list"
  bb_outputs :: "ingested_output list"
  bb_inputs :: "ingested_input list"
  bb_hits :: "detected_pattern list"

fun canonicalize_json :: "(json \<Rightarrow> string) \<Rightarrow> json \<Rightarrow> string" where
  "canonicalize_json ser (JObject m) =
     ''{'' @ join '','' (map (\<lambda>e. debug_str (fst e) @ '':'' @ snd e)
        (foldl (\<lambda>acc e. bt_insert (fst e) (snd e) acc) []
          (map (\<lambda>e. (fst e, canonicalize_json ser (snd e))) m))) @ ''}''"
| "canonicalize_json ser (JArray items) =
     ''['' @ join '','' (map (canonicalize_json ser) items) @ '']''"
| "canonicalize_json ser v = ser v"

definition hit_key :: "detected_pattern \<Rightarrow> string \<times> u32 \<times> string" where
  "hit_key h = (dp_tx_hash h, dp_output_index h, kind_name (dp_kind h))"

definition hit_row :: "(json \<Rightarrow> string) \<Rightarrow> detected_pattern \<Rightarrow> string" where
  "hit_row ser h =
     ''::det:'' @ dp_tx_hash h @ '':'' @ u32_to_string (dp_output_index h) @ '':'' @
     kind_name (dp_kind h) @ '':'' @ (case dp_covenant_id h of None \<Rightarrow> '''' | Some c \<Rightarrow> c) @ '':'' @
     canonicalize_json ser (dp_payload h)"

definition canonical_bytes_for_block ::
  "(json \<Rightarrow> string) \<Rightarrow> ingested_block \<Rightarrow> detected_pattern list \<Rightarrow> u8 list" where
  "canonical_bytes_for_block ser b hits = as_bytes
     (''hash='' @ ib_hash b @ ''::daa='' @ u64_to_string (ib_daa b) @
      ''::blue='' @ u64_to_string (ib_blue b) @ ''::finalized='' @ bool_to_string (ib_finalized b) @
      ''::served_by='' @ ib_served_by b @ concat (map (hit_row ser) (sort_key hit_key hits)))"

fun detect_outputs ::
  "hex_decoder \<Rightarrow> (u8 list \<Rightarrow> string) \<Rightarrow> ingested_output list \<Rightarrow> detected_pattern list run" where
  "detect_outputs hexd hexe [] = Returns []"
| "detect_outputs hexd hexe (out # outs) =
     run_bind (detect_in_output hexd hexe (io_script out) (io_tx_hash out) (io_output_index out))
       (\<lambda>hits. run_map ((@) hits) (detect_outputs hexd hexe outs))"

definition block_from_rpc ::
  "hex_decoder \<Rightarrow> (u8 list \<Rightarrow> string) \<Rightarrow> (json \<Rightarrow> string) \<Rightarrow> ingested_block \<Rightarrow> bootstrap_block run" where
  "block_from_rpc hexd hexe ser b =
     run_map (\<lambda>hits. \<lparr>bb_hash = ib_hash b, bb_daa = u64_as_i64 (ib_daa b),
       bb_blue = u64_as_i64 (ib_blue b), bb_served_by = ib_served_by b, bb_finalized = ib_finalized b,
       bb_bytes = canonical_bytes_for_block ser b hits, bb_outputs = ib_outputs b,
       bb_inputs = ib_inputs b, bb_hits = hits\<rparr>) (detect_outputs hexd hexe (ib_outputs b))"

definition block_to_rpc :: "bootstrap_block \<Rightarrow> ingested_block" where
  "block_to_rpc b = \<lparr>ib_hash = bb_hash b, ib_daa = i64_as_u64 (bb_daa b), ib_blue = i64_as_u64 (bb_blue b),
     ib_finalized = bb_finalized b, ib_served_by = bb_served_by b, ib_outputs = bb_outputs b,
     ib_inputs = bb_inputs b, ib_payloads = []\<rparr>"

section \<open>The state\<close>

type_synonym block_map = "(i64 \<times> bootstrap_block) list"

record ingestion_state =
  ing_committed :: block_map
  ing_probabilistic :: block_map
  ing_prior_poi :: poi_hash
  ing_finality_depth :: "u64 option"

record ingestion_transition =
  tr_writes :: "bootstrap_block list"
  tr_rolled_back :: "bootstrap_block list"
  tr_unwinds :: "bootstrap_block list"
  tr_recovery :: "(u64 \<times> u64) option"

definition with_finality_depth :: "u64 option \<Rightarrow> ingestion_state" where
  "with_finality_depth d = \<lparr>ing_committed = [], ing_probabilistic = [], ing_prior_poi = genesis_poi,
     ing_finality_depth = d\<rparr>"

definition reseed_prior_poi :: "poi_hash \<Rightarrow> ingestion_state \<Rightarrow> ingestion_state" where
  "reseed_prior_poi poi st = st\<lparr>ing_prior_poi := poi\<rparr>"

definition no_writes :: "bootstrap_block list \<Rightarrow> ingestion_transition" where
  "no_writes rolled = \<lparr>tr_writes = [], tr_rolled_back = rolled, tr_unwinds = [], tr_recovery = None\<rparr>"

definition derived_finalized_cutoff :: "ingestion_state \<Rightarrow> i64 \<Rightarrow> i64 option" where
  "derived_finalized_cutoff st observed =
     (case ing_finality_depth st of
        None \<Rightarrow> None
      | Some d \<Rightarrow> map_option (\<lambda>depth. i64_saturating_sub observed depth) (i64_try_from_u64 d))"

definition highest_finalized_daa :: "block_map \<Rightarrow> i64" where
  "highest_finalized_daa prob =
     (case map fst (filter (\<lambda>e. bb_finalized (snd e)) prob) of [] \<Rightarrow> 0 | ks \<Rightarrow> Max (set ks))"

text \<open>The removal loops: one \<open>BTreeMap::remove\<close> per score collected before.\<close>

fun remove_scores :: "i64 list \<Rightarrow> block_map \<Rightarrow> bootstrap_block list \<times> block_map" where
  "remove_scores [] m = ([], m)"
| "remove_scores (s # ss) m =
     (case map_of m s of
        None \<Rightarrow> remove_scores ss m
      | Some b \<Rightarrow> (let (removed, m') = remove_scores ss (bt_remove s m) in (b # removed, m')))"

definition remove_by_hashes :: "string list \<Rightarrow> block_map \<Rightarrow> bootstrap_block list \<times> block_map" where
  "remove_by_hashes hashes m =
     remove_scores (map fst (filter (\<lambda>e. bb_hash (snd e) \<in> set hashes) m)) m"

definition remove_committed_by_hashes ::
  "string list \<Rightarrow> ingestion_state \<Rightarrow> bootstrap_block list \<times> ingestion_state" where
  "remove_committed_by_hashes hashes st =
     (let (removed, m) = remove_by_hashes hashes (ing_committed st) in (removed, st\<lparr>ing_committed := m\<rparr>))"

definition remove_probabilistic_by_hashes ::
  "string list \<Rightarrow> ingestion_state \<Rightarrow> bootstrap_block list \<times> ingestion_state" where
  "remove_probabilistic_by_hashes hashes st =
     (let (removed, m) = remove_by_hashes hashes (ing_probabilistic st)
      in (removed, st\<lparr>ing_probabilistic := m\<rparr>))"

text \<open>\<open>BTreeMap::range(from..=to)\<close> panics when \<open>from > to\<close>.\<close>

definition remove_probabilistic_in_range ::
  "i64 \<Rightarrow> i64 \<Rightarrow> ingestion_state \<Rightarrow> (bootstrap_block list \<times> ingestion_state) run" where
  "remove_probabilistic_in_range lo hi st =
     (if lo > hi then Panics
      else let (removed, m) = remove_scores
             (map fst (filter (\<lambda>e. lo \<le> fst e \<and> fst e \<le> hi) (ing_probabilistic st))) (ing_probabilistic st)
           in Returns (removed, st\<lparr>ing_probabilistic := m\<rparr>))"

text \<open>The promotion loop of \<open>apply_block\<close>: each score moves from the probabilistic to the committed
  map and is written.\<close>

fun promote ::
  "i64 list \<Rightarrow> block_map \<Rightarrow> block_map \<Rightarrow> bootstrap_block list \<times> block_map \<times> block_map" where
  "promote [] prob comm = ([], prob, comm)"
| "promote (s # ss) prob comm =
     (case map_of prob s of
        None \<Rightarrow> promote ss prob comm
      | Some b \<Rightarrow>
          (let (writes, p, c) = promote ss (bt_remove s prob) (bt_insert s b comm) in (b # writes, p, c)))"

definition apply_block ::
  "ingestion_state \<Rightarrow> bootstrap_block \<Rightarrow> ingestion_state \<times> ingestion_transition" where
  "apply_block st block =
     (let cutoff = derived_finalized_cutoff st (bb_daa block) in
      case map_of (ing_committed st) (bb_daa block) of
        Some existing \<Rightarrow> (st, no_writes [])
      | None \<Rightarrow>
          (let (rolled, prob) = remove_scores
                 (map fst (filter (\<lambda>e. bb_daa block \<le> fst e \<and> bb_hash (snd e) \<noteq> bb_hash block)
                    (ing_probabilistic st)))
                 (ing_probabilistic st);
               block = (if (\<exists>c \<in> set_option cutoff. bb_daa block \<le> c)
                        then block\<lparr>bb_finalized := True\<rparr> else block);
               prob = bt_insert (bb_daa block) block prob
           in if \<not> bb_finalized block \<and> cutoff = None
              then (st\<lparr>ing_probabilistic := prob\<rparr>, no_writes rolled)
              else
                (let prob = (case cutoff of
                       None \<Rightarrow> prob
                     | Some c \<Rightarrow> map (\<lambda>(k, b). (k, if bb_daa b \<le> c then b\<lparr>bb_finalized := True\<rparr> else b)) prob);
                     scores = map fst (filter (\<lambda>e. fst e \<le> highest_finalized_daa prob) prob);
                     (writes, prob, comm) = promote scores prob (ing_committed st)
                 in (st\<lparr>ing_committed := comm, ing_probabilistic := prob\<rparr>,
                     (no_writes rolled)\<lparr>tr_writes := writes\<rparr>))))"

text \<open>The loop over the added blocks of \<open>VirtualChainChanged\<close>.\<close>

fun apply_added ::
  "(ingested_block \<Rightarrow> bootstrap_block run) \<Rightarrow> ingested_block list \<Rightarrow> ingestion_state \<times> ingestion_transition
     \<Rightarrow> (ingestion_state \<times> ingestion_transition) run" where
  "apply_added conv [] (st, t) = Returns (st, t)"
| "apply_added conv (b # bs) (st, t) =
     run_bind (conv b) (\<lambda>block.
       (let (st', t') = apply_block st block
        in apply_added conv bs (st', t\<lparr>tr_rolled_back := tr_rolled_back t @ tr_rolled_back t',
                                      tr_writes := tr_writes t @ tr_writes t'\<rparr>)))"

fun apply_notification ::
  "(ingested_block \<Rightarrow> bootstrap_block run) \<Rightarrow> ingestion_state \<Rightarrow> chain_notification
     \<Rightarrow> (ingestion_state \<times> ingestion_transition) run" where
  "apply_notification conv st (BlockAdded b) = run_map (apply_block st) (conv b)"
| "apply_notification conv st (VirtualChainChanged removed added) =
     (let (rolled, st1) = remove_probabilistic_by_hashes removed st;
          (unwinds, st2) = remove_committed_by_hashes removed st1
      in apply_added conv added
           (st2, \<lparr>tr_writes = [], tr_rolled_back = rolled, tr_unwinds = unwinds, tr_recovery = None\<rparr>))"
| "apply_notification conv st (RecoveryRequired lo hi reason) =
     run_map (\<lambda>(rolled, st'). (st', \<lparr>tr_writes = [], tr_rolled_back = rolled, tr_unwinds = [],
                                  tr_recovery = Some (lo, hi)\<rparr>))
       (remove_probabilistic_in_range (u64_as_i64 lo) (u64_as_i64 hi) st)"

text \<open>\<open>max_by_key\<close> keeps the last of equal maxima; the two maps are chained, the committed one first.\<close>

fun max_by_score :: "block_map \<Rightarrow> (i64 \<times> bootstrap_block) option" where
  "max_by_score [] = None"
| "max_by_score (e # es) =
     (case max_by_score es of None \<Rightarrow> Some e | Some m \<Rightarrow> Some (if fst m < fst e then e else m))"

definition recovery_anchor_hash :: "ingestion_state \<Rightarrow> u64 \<Rightarrow> string option" where
  "recovery_anchor_hash st from_daa =
     (let cutoff = u64_as_i64 (u64_saturating_sub from_daa 1)
      in map_option (\<lambda>e. bb_hash (snd e))
           (max_by_score (filter (\<lambda>e. fst e \<le> cutoff) (ing_committed st @ ing_probabilistic st))))"


section \<open>The removal and promotion loops\<close>

lemma remove_scores_skip:
  "k \<notin> set ks \<Longrightarrow> remove_scores ks ((k, v) # m) =
     (fst (remove_scores ks m), (k, v) # snd (remove_scores ks m))"
  by (induction ks arbitrary: m) (auto simp: bt_remove_def split: option.split prod.split)

lemma remove_scores_filter:
  "bt_ok m \<Longrightarrow> remove_scores (map fst (filter P m)) m = (map snd (filter P m), filter (\<lambda>e. \<not> P e) m)"
proof (induction m)
  case (Cons e m)
  obtain k v where e: "e = (k, v)" by force
  have fresh: "k \<notin> fst ` set m" and ok: "bt_ok m"
    using Cons.prems by (auto simp: e bt_ok_Cons)
  have "bt_remove k m = m"
    using fresh by (auto simp: bt_remove_def intro!: filter_True)
  moreover have "k \<notin> set (map fst (filter P m))"
    using fresh by auto
  ultimately show ?case
    using Cons.IH [OF ok] by (simp add: e remove_scores_skip) (simp add: bt_remove_def)
qed simp

definition commit :: "block_map \<Rightarrow> bootstrap_block list \<Rightarrow> block_map" where
  "commit m bs = foldl (\<lambda>m b. bt_insert (bb_daa b) b m) m bs"

definition keyed :: "block_map \<Rightarrow> bool" where
  "keyed m \<longleftrightarrow> (\<forall>e \<in> set m. bb_daa (snd e) = fst e)"

lemma promote_skip:
  "k \<notin> set ks \<Longrightarrow> promote ks ((k, v) # m) c =
     (fst (promote ks m c), (k, v) # fst (snd (promote ks m c)), snd (snd (promote ks m c)))"
  by (induction ks arbitrary: m c) (auto simp: bt_remove_def split: option.split prod.split)

lemma promote_filter:
  "bt_ok m \<Longrightarrow> keyed m \<Longrightarrow> promote (map fst (filter P m)) m c =
     (map snd (filter P m), filter (\<lambda>e. \<not> P e) m, commit c (map snd (filter P m)))"
proof (induction m arbitrary: c)
  case (Cons e m)
  obtain k v where e: "e = (k, v)" by force
  have fresh: "k \<notin> fst ` set m" and ok: "bt_ok m" "keyed m" "bb_daa v = k"
    using Cons.prems by (auto simp: e bt_ok_Cons keyed_def)
  have "bt_remove k m = m"
    using fresh by (auto simp: bt_remove_def intro!: filter_True)
  moreover have "k \<notin> set (map fst (filter P m))"
    using fresh by auto
  ultimately show ?case
    using Cons.IH [OF ok(1,2)] ok(3) by (simp add: e promote_skip) (simp add: bt_remove_def commit_def)
qed (simp add: commit_def)

section \<open>One block\<close>

definition finalize :: "i64 option \<Rightarrow> bootstrap_block \<Rightarrow> bootstrap_block" where
  "finalize cutoff b = (if \<exists>c \<in> set_option cutoff. bb_daa b \<le> c then b\<lparr>bb_finalized := True\<rparr> else b)"

definition mark :: "i64 option \<Rightarrow> block_map \<Rightarrow> block_map" where
  "mark cutoff m = map (\<lambda>(k, b). (k, finalize cutoff b)) m"

definition displaced :: "bootstrap_block \<Rightarrow> i64 \<times> bootstrap_block \<Rightarrow> bool" where
  "displaced b e \<longleftrightarrow> bb_daa b \<le> fst e \<and> bb_hash (snd e) \<noteq> bb_hash b"

definition observed :: "ingestion_state \<Rightarrow> bootstrap_block \<Rightarrow> block_map" where
  "observed st b =
     (let cutoff = derived_finalized_cutoff st (bb_daa b)
      in mark cutoff (bt_insert (bb_daa b) b (filter (\<lambda>e. \<not> displaced b e) (ing_probabilistic st))))"

definition promotable :: "ingestion_state \<Rightarrow> bootstrap_block \<Rightarrow> i64 \<times> bootstrap_block \<Rightarrow> bool" where
  "promotable st b e \<longleftrightarrow> (bb_finalized b \<or> derived_finalized_cutoff st (bb_daa b) \<noteq> None) \<and>
     fst e \<le> highest_finalized_daa (observed st b)"

definition ing_ok :: "ingestion_state \<Rightarrow> bool" where
  "ing_ok st \<longleftrightarrow> bt_ok (ing_committed st) \<and> bt_ok (ing_probabilistic st) \<and>
     keyed (ing_committed st) \<and> keyed (ing_probabilistic st) \<and>
     fst ` set (ing_committed st) \<inter> fst ` set (ing_probabilistic st) = {} \<and>
     (\<forall>e \<in> set (ing_probabilistic st). \<not> bb_finalized (snd e))"

lemma finalize_simps [simp]:
  "bb_daa (finalize c b) = bb_daa b" "bb_hash (finalize c b) = bb_hash b"
  "finalize None b = b" "finalize c (finalize c b) = finalize c b"
  by (auto simp: finalize_def)

lemma fst_mark [simp]: "map fst (mark c m) = map fst m"
  by (simp add: mark_def case_prod_beta comp_def)

lemma bt_ok_mark [simp]: "bt_ok (mark c m) = bt_ok m"
  by (simp add: bt_ok_def)

lemma mark_None [simp]: "mark None m = m"
  by (simp add: mark_def)

lemma keyed_mark [simp]: "keyed (mark c m) = keyed m"
  by (auto simp: keyed_def mark_def)

lemma set_mark: "set (mark c m) = (\<lambda>e. (fst e, finalize c (snd e))) ` set m"
  by (auto simp: mark_def case_prod_beta)

lemma mark_insert_finalized: "mark c (bt_insert k (finalize c b) m) = mark c (bt_insert k b m)"
  by (induction k b m rule: bt_insert.induct) (simp_all add: mark_def)

lemma set_bt_insert: "bt_ok m \<Longrightarrow> set (bt_insert k v m) = insert (k, v) {e \<in> set m. fst e \<noteq> k}"
  by (induction k v m rule: bt_insert.induct) (force simp: bt_ok_Cons)+

lemma keyed_insert: "bt_ok m \<Longrightarrow> keyed m \<Longrightarrow> bb_daa b = k \<Longrightarrow> keyed (bt_insert k b m)"
  by (auto simp: keyed_def set_bt_insert)

lemma keyed_filter: "keyed m \<Longrightarrow> keyed (filter P m)"
  by (auto simp: keyed_def)

lemma observed_ok:
  assumes "ing_ok st"
  shows "bt_ok (observed st b)" "keyed (observed st b)"
  using assms by (auto simp: observed_def Let_def ing_ok_def keyed_insert keyed_filter)

lemma apply_block_committed:
  "map_of (ing_committed st) (bb_daa b) = Some e \<Longrightarrow> apply_block st b = (st, no_writes [])"
  by (simp add: apply_block_def)

text \<open>The closed form of \<open>apply_block\<close> on a block at a free score.\<close>

lemma apply_block_free:
  assumes ok: "ing_ok st" and free: "map_of (ing_committed st) (bb_daa b) = None"
  shows "apply_block st b =
    (let w = filter (promotable st b) (observed st b)
     in (st\<lparr>ing_committed := commit (ing_committed st) (map snd w),
            ing_probabilistic := filter (\<lambda>e. \<not> promotable st b e) (observed st b)\<rparr>,
         (no_writes (map snd (filter (displaced b) (ing_probabilistic st))))\<lparr>tr_writes := map snd w\<rparr>))"
proof -
  define cutoff where "cutoff = derived_finalized_cutoff st (bb_daa b)"
  define prob where "prob = filter (\<lambda>e. \<not> displaced b e) (ing_probabilistic st)"
  have rm: "remove_scores (map fst (filter (displaced b) (ing_probabilistic st))) (ing_probabilistic st) =
      (map snd (filter (displaced b) (ing_probabilistic st)), prob)"
    using ok by (simp add: remove_scores_filter prob_def ing_ok_def)
  have obs: "observed st b = mark cutoff (bt_insert (bb_daa b) b prob)"
    by (simp add: observed_def Let_def cutoff_def prob_def)
  show ?thesis
  proof (cases "\<not> bb_finalized b \<and> cutoff = None")
    case True
    then have "promotable st b = (\<lambda>e. False)"
      by (auto simp: promotable_def cutoff_def)
    with True rm show ?thesis
      by (simp add: apply_block_def free obs displaced_def [abs_def] Let_def no_writes_def commit_def
          flip: cutoff_def)
  next
    case False
    then have P: "promotable st b = (\<lambda>e. fst e \<le> highest_finalized_daa (observed st b))"
      by (auto simp: promotable_def cutoff_def)
    have m: "(case cutoff of None \<Rightarrow> q
          | Some c \<Rightarrow> map (\<lambda>(k, b). (k, if bb_daa b \<le> c then b\<lparr>bb_finalized := True\<rparr> else b)) q) = mark cutoff q" for q
      by (cases cutoff) (simp_all add: mark_def finalize_def)
    have f: "(if \<exists>c \<in> set_option cutoff. bb_daa b \<le> c then b\<lparr>bb_finalized := True\<rparr> else b) = finalize cutoff b"
      by (simp add: finalize_def)
    have nf: "(\<not> bb_finalized (finalize cutoff b) \<and> cutoff = None) = False"
      using False by (auto simp: finalize_def)
    show ?thesis
      using rm promote_filter [OF observed_ok [OF ok], of "promotable st b" b "ing_committed st"]
      by (simp add: apply_block_def free displaced_def [abs_def] Let_def P no_writes_def
          f m nf mark_insert_finalized obs flip: cutoff_def)
  qed
qed


section \<open>What one block changes\<close>

definition block_id :: "bootstrap_block \<Rightarrow> i64 \<times> string" where
  "block_id b = (bb_daa b, bb_hash b)"

lemma block_id_finalize [simp]: "block_id (finalize c b) = block_id b"
  by (simp add: block_id_def)

lemma no_writes_simps [simp]:
  "tr_writes (no_writes r) = []" "tr_rolled_back (no_writes r) = r" "tr_unwinds (no_writes r) = []"
  "tr_recovery (no_writes r) = None"
  by (simp_all add: no_writes_def)

lemma map_of_None_keys: "map_of m k = None \<longleftrightarrow> k \<notin> fst ` set m"
  by (simp add: map_of_eq_None_iff)

lemma set_observed:
  assumes "ing_ok st"
  shows "set (observed st b) =
    (\<lambda>e. (fst e, finalize (derived_finalized_cutoff st (bb_daa b)) (snd e))) `
      insert (bb_daa b, b) {e \<in> set (ing_probabilistic st). \<not> displaced b e \<and> fst e \<noteq> bb_daa b}"
  using assms by (auto simp: observed_def Let_def set_mark set_bt_insert ing_ok_def)

lemma bt_ok_commit: "bt_ok m \<Longrightarrow> bt_ok (commit m bs)"
  by (induction bs arbitrary: m) (auto simp: commit_def)

lemma keys_commit: "fst ` set (commit m bs) = fst ` set m \<union> bb_daa ` set bs"
  by (induction bs arbitrary: m) (auto simp: commit_def)

lemma keyed_commit: "bt_ok m \<Longrightarrow> keyed m \<Longrightarrow> keyed (commit m bs)"
  by (induction bs arbitrary: m) (simp_all add: commit_def keyed_insert)

lemma highest_finalized_alt:
  "highest_finalized_daa m =
     (let F = fst ` {e \<in> set m. bb_finalized (snd e)} in if F = {} then 0 else Max F)"
proof -
  define ks where "ks = map fst (filter (\<lambda>e. bb_finalized (snd e)) m)"
  have "set ks = fst ` {e \<in> set m. bb_finalized (snd e)}"
    by (simp add: ks_def)
  then show ?thesis
    unfolding highest_finalized_daa_def Let_def ks_def [symmetric] by (cases ks) auto
qed

lemma highest_finalized_ge:
  assumes "e \<in> set m" "bb_finalized (snd e)"
  shows "fst e \<le> highest_finalized_daa m"
proof -
  have "fst e \<in> fst ` {e \<in> set m. bb_finalized (snd e)}"
    using assms by blast
  moreover from this have "fst e \<le> Max (fst ` {e \<in> set m. bb_finalized (snd e)})"
    by (intro Max_ge) auto
  ultimately show ?thesis
    unfolding highest_finalized_alt Let_def by (simp only: if_split) blast
qed

lemma highest_finalized_cases:
  "highest_finalized_daa m = 0 \<or>
    (\<exists>e \<in> set m. bb_finalized (snd e) \<and> fst e = highest_finalized_daa m)"
proof (cases "{e \<in> set m. bb_finalized (snd e)} = {}")
  case False
  then have "Max (fst ` {e \<in> set m. bb_finalized (snd e)}) \<in> fst ` {e \<in> set m. bb_finalized (snd e)}"
    by (intro Max_in) auto
  with False show ?thesis
    by (fastforce simp: highest_finalized_alt)
qed (simp add: highest_finalized_alt)

lemma keys_observed:
  assumes "ing_ok st"
  shows "fst ` set (observed st b) \<subseteq> insert (bb_daa b) (fst ` set (ing_probabilistic st))"
proof -
  have "fst ` set (observed st b) =
      fst ` insert (bb_daa b, b) {e \<in> set (ing_probabilistic st). \<not> displaced b e \<and> fst e \<noteq> bb_daa b}"
    by (simp only: set_observed [OF assms] image_image fst_conv)
  also have "\<dots> \<subseteq> insert (bb_daa b) (fst ` set (ing_probabilistic st))"
    unfolding image_insert fst_conv by blast
  finally show ?thesis .
qed

lemma observed_finalized:
  assumes "ing_ok st" "e \<in> set (observed st b)" "bb_finalized (snd e)"
  shows "bb_finalized b \<or> derived_finalized_cutoff st (bb_daa b) \<noteq> None"
proof -
  obtain d where d: "d \<in> insert (bb_daa b, b) (set (ing_probabilistic st))"
      "snd e = finalize (derived_finalized_cutoff st (bb_daa b)) (snd d)"
    using assms(2) unfolding set_observed [OF assms(1)] by (rule imageE) (simp, blast)
  have "d = (bb_daa b, b) \<or> \<not> bb_finalized (snd d)"
    using d(1) assms(1) by (auto simp: ing_ok_def)
  then show ?thesis
    using d(2) assms(3) by (cases "derived_finalized_cutoff st (bb_daa b)") auto
qed

lemma apply_block_ok:
  assumes ok: "ing_ok st"
  shows "ing_ok (fst (apply_block st b))"
proof (cases "map_of (ing_committed st) (bb_daa b)")
  case (Some e)
  then show ?thesis using ok by (simp add: apply_block_committed)
next
  case None
  have o: "bt_ok (observed st b)" "keyed (observed st b)" using observed_ok [OF ok] .
  have fresh: "fst ` set (ing_committed st) \<inter> fst ` set (observed st b) = {}"
  proof -
    have "fst ` set (ing_committed st) \<inter> insert (bb_daa b) (fst ` set (ing_probabilistic st)) = {}"
      using None ok by (simp add: map_of_None_keys ing_ok_def)
    then show ?thesis using keys_observed [OF ok, of b] by blast
  qed
  have "fst ` set (commit (ing_committed st) (map snd (filter (promotable st b) (observed st b)))) =
      fst ` set (ing_committed st) \<union> fst ` set (filter (promotable st b) (observed st b))"
    using o(2) by (force simp: keys_commit keyed_def)
  moreover have "fst ` set (filter (promotable st b) (observed st b)) \<inter>
      fst ` set (filter (\<lambda>e. \<not> promotable st b e) (observed st b)) = {}"
    by (auto simp: promotable_def)
  moreover have "\<not> bb_finalized (snd e)"
    if "e \<in> set (observed st b)" "\<not> promotable st b e" for e
    using that highest_finalized_ge [of e "observed st b"] observed_finalized [OF ok, of e b]
    by (auto simp: promotable_def)
  ultimately show ?thesis
    using ok o fresh unfolding apply_block_free [OF ok None]
    by (auto simp: ing_ok_def Let_def bt_ok_commit keyed_commit keyed_filter)
qed

lemma keyed_ids: "keyed m \<Longrightarrow> (\<lambda>e. (fst e, bb_hash (snd e))) ` set m = block_id ` snd ` set m"
  by (force simp: keyed_def block_id_def)

lemma ids_observed:
  assumes "ing_ok st"
  shows "block_id ` snd ` set (observed st b) =
    insert (block_id b) {i \<in> block_id ` snd ` set (ing_probabilistic st). \<not> (bb_daa b \<le> fst i \<and> snd i \<noteq> bb_hash b)}"
proof -
  have "block_id ` snd ` set (observed st b) = block_id ` snd `
      insert (bb_daa b, b) {e \<in> set (ing_probabilistic st). \<not> displaced b e \<and> fst e \<noteq> bb_daa b}"
    by (simp add: set_observed [OF assms] image_image)
  also have "\<dots> = insert (block_id b)
      (block_id ` snd ` {e \<in> set (ing_probabilistic st). \<not> displaced b e \<and> fst e \<noteq> bb_daa b})"
    by simp
  also have "\<dots> = insert (block_id b) (block_id ` snd ` {e \<in> set (ing_probabilistic st). \<not> displaced b e})"
  proof -
    have "block_id (snd e) = block_id b"
      if "e \<in> set (ing_probabilistic st)" "\<not> displaced b e" "fst e = bb_daa b" for e
      using that assms by (simp add: displaced_def block_id_def ing_ok_def keyed_def)
    then show ?thesis by blast
  qed
  also have "block_id ` snd ` {e \<in> set (ing_probabilistic st). \<not> displaced b e} =
      {i \<in> block_id ` snd ` set (ing_probabilistic st). \<not> (bb_daa b \<le> fst i \<and> snd i \<noteq> bb_hash b)}"
  proof -
    have "displaced b e \<longleftrightarrow> bb_daa b \<le> fst (block_id (snd e)) \<and> snd (block_id (snd e)) \<noteq> bb_hash b"
      if "e \<in> set (ing_probabilistic st)" for e
      using that assms by (simp add: displaced_def block_id_def ing_ok_def keyed_def)
    then show ?thesis by blast
  qed
  finally show ?thesis .
qed


section \<open>The committed map as a ledger\<close>

text \<open>The abstract ledger: an unwind must name a block that is committed, a write must go to a score
  that is free; anything else is \<^const>\<open>None\<close>.\<close>

fun unwind_all :: "bootstrap_block list \<Rightarrow> block_map \<Rightarrow> block_map option" where
  "unwind_all [] m = Some m"
| "unwind_all (b # bs) m =
     (if map_of m (bb_daa b) = Some b then unwind_all bs (bt_remove (bb_daa b) m) else None)"

fun write_all :: "bootstrap_block list \<Rightarrow> block_map \<Rightarrow> block_map option" where
  "write_all [] m = Some m"
| "write_all (b # bs) m =
     (if map_of m (bb_daa b) = None then write_all bs (bt_insert (bb_daa b) b m) else None)"

definition ledger_step :: "ingestion_transition \<Rightarrow> block_map \<Rightarrow> block_map option" where
  "ledger_step t m = Option.bind (unwind_all (tr_unwinds t) m) (write_all (tr_writes t))"

fun ledger_replay :: "ingestion_transition list \<Rightarrow> block_map \<Rightarrow> block_map option" where
  "ledger_replay [] m = Some m"
| "ledger_replay (t # ts) m = Option.bind (ledger_step t m) (ledger_replay ts)"

fun run_notifications ::
  "(ingested_block \<Rightarrow> bootstrap_block run) \<Rightarrow> ingestion_state \<Rightarrow> chain_notification list
     \<Rightarrow> (ingestion_state \<times> ingestion_transition list) run" where
  "run_notifications conv st [] = Returns (st, [])"
| "run_notifications conv st (n # ns) =
     run_bind (apply_notification conv st n) (\<lambda>(st', t).
       run_map (\<lambda>(s, ts). (s, t # ts)) (run_notifications conv st' ns))"

lemma write_all_append: "write_all (as @ bs) m = Option.bind (write_all as m) (write_all bs)"
  by (induction "as" m rule: write_all.induct) auto

lemma write_all_fresh:
  "distinct (map bb_daa bs) \<Longrightarrow> fst ` set m \<inter> bb_daa ` set bs = {} \<Longrightarrow> write_all bs m = Some (commit m bs)"
proof (induction bs arbitrary: m)
  case (Cons b bs)
  have "map_of m (bb_daa b) = None"
    using Cons.prems(2) by (auto simp: map_of_None_keys)
  moreover have "write_all bs (bt_insert (bb_daa b) b m) = Some (commit (bt_insert (bb_daa b) b m) bs)"
    using Cons.prems by (intro Cons.IH) auto
  ultimately show ?case by (simp add: commit_def)
qed (simp add: commit_def)

lemma unwind_all_skip:
  "k \<notin> bb_daa ` set bs \<Longrightarrow> unwind_all bs ((k, v) # m) = map_option ((#) (k, v)) (unwind_all bs m)"
  by (induction bs m rule: unwind_all.induct) (auto simp: bt_remove_def)

lemma unwind_all_filter:
  "bt_ok m \<Longrightarrow> keyed m \<Longrightarrow> unwind_all (map snd (filter P m)) m = Some (filter (\<lambda>e. \<not> P e) m)"
proof (induction m)
  case (Cons e m)
  obtain k v where e: "e = (k, v)" by force
  have fresh: "k \<notin> fst ` set m" and ok: "bt_ok m" "keyed m" "bb_daa v = k"
    using Cons.prems by (auto simp: e bt_ok_Cons keyed_def)
  have "bt_remove k m = m"
    using fresh by (auto simp: bt_remove_def intro!: filter_True)
  moreover have "k \<notin> bb_daa ` set (map snd (filter P m))"
    using fresh ok(2) by (force simp: keyed_def)
  ultimately show ?case
    using Cons.IH [OF ok(1,2)] ok(3) by (simp add: e unwind_all_skip) (simp add: bt_remove_def)
qed simp

lemma daa_keyed: "keyed m \<Longrightarrow> map bb_daa (map snd (filter P m)) = map fst (filter P m)"
  by (auto simp: keyed_def)

lemma apply_block_writes:
  assumes ok: "ing_ok st"
  shows "write_all (tr_writes (snd (apply_block st b))) (ing_committed st) =
    Some (ing_committed (fst (apply_block st b)))"
proof (cases "map_of (ing_committed st) (bb_daa b)")
  case (Some e)
  then show ?thesis by (simp add: apply_block_committed)
next
  case None
  let ?w = "filter (promotable st b) (observed st b)"
  have o: "bt_ok (observed st b)" "keyed (observed st b)" using observed_ok [OF ok] .
  have k: "map bb_daa (map snd ?w) = map fst ?w" by (rule daa_keyed [OF o(2)])
  have "distinct (map fst ?w)" using o(1) by (simp add: bt_ok_distinct)
  moreover have "fst ` set (ing_committed st) \<inter> fst ` set ?w = {}"
  proof -
    have "fst ` set (ing_committed st) \<inter> insert (bb_daa b) (fst ` set (ing_probabilistic st)) = {}"
      using None ok by (simp add: map_of_None_keys ing_ok_def)
    moreover have "fst ` set ?w \<subseteq> fst ` set (observed st b)" by auto
    ultimately show ?thesis using keys_observed [OF ok, of b] by blast
  qed
  moreover have "bb_daa ` set (map snd ?w) = fst ` set ?w"
    using arg_cong [OF k, of set] by (simp only: set_map)
  ultimately have "write_all (map snd ?w) (ing_committed st) = Some (commit (ing_committed st) (map snd ?w))"
    by (intro write_all_fresh) (simp_all only: k)
  then show ?thesis
    by (simp add: apply_block_free [OF ok None] Let_def)
qed

lemma apply_added_ledger:
  assumes "apply_added conv bs (st, t) = Returns (st', t')" "ing_ok st"
  shows "ing_ok st' \<and> tr_unwinds t' = tr_unwinds t \<and> (\<exists>w. tr_writes t' = tr_writes t @ w \<and>
    write_all w (ing_committed st) = Some (ing_committed st'))"
  using assms
proof (induction bs arbitrary: st t)
  case (Cons b bs)
  then obtain block where b: "conv b = Returns block"
    by (auto simp: run_bind_Returns_iff)
  obtain s1 t1 where a: "apply_block st block = (s1, t1)" by force
  have ok: "ing_ok s1" using apply_block_ok [OF Cons.prems(2), of block] a by simp
  have w1: "write_all (tr_writes t1) (ing_committed st) = Some (ing_committed s1)"
    using apply_block_writes [OF Cons.prems(2), of block] a by simp
  from Cons.IH [OF _ ok] Cons.prems(1) obtain w where
    "ing_ok st'" "tr_unwinds t' = tr_unwinds t" "tr_writes t' = (tr_writes t @ tr_writes t1) @ w"
    "write_all w (ing_committed s1) = Some (ing_committed st')"
    by (fastforce simp: b a)
  with w1 show ?case by (auto simp: write_all_append)
qed auto

lemma remove_by_hashes_eq:
  "bt_ok m \<Longrightarrow> remove_by_hashes hs m =
     (map snd (filter (\<lambda>e. bb_hash (snd e) \<in> set hs) m), filter (\<lambda>e. bb_hash (snd e) \<notin> set hs) m)"
  by (simp add: remove_by_hashes_def remove_scores_filter)

lemma ing_ok_filter:
  "ing_ok st \<Longrightarrow> ing_ok (st\<lparr>ing_probabilistic := filter Q (ing_probabilistic st),
     ing_committed := filter P (ing_committed st)\<rparr>)"
  by (auto simp: ing_ok_def keyed_filter)

lemma apply_notification_ledger:
  assumes "apply_notification conv st n = Returns (st', t)" "ing_ok st"
  shows "ing_ok st' \<and> ledger_step t (ing_committed st) = Some (ing_committed st')"
proof (cases n)
  case (BlockAdded b)
  then obtain block where "apply_block st block = (st', t)"
    using assms(1) by (auto simp: run_map_Returns_iff)
  moreover from this have "tr_unwinds t = []"
    using assms(2) by (cases "map_of (ing_committed st) (bb_daa block)")
      (auto simp: apply_block_committed apply_block_free Let_def)
  ultimately show ?thesis
    using apply_block_ok [OF assms(2), of block] apply_block_writes [OF assms(2), of block]
    by (simp add: ledger_step_def)
next
  case (VirtualChainChanged removed added)
  let ?hit = "\<lambda>e. bb_hash (snd e) \<in> set removed"
  let ?st = "st\<lparr>ing_probabilistic := filter (\<lambda>e. \<not> ?hit e) (ing_probabilistic st),
    ing_committed := filter (\<lambda>e. \<not> ?hit e) (ing_committed st)\<rparr>"
  have ok: "bt_ok (ing_committed st)" "bt_ok (ing_probabilistic st)" "keyed (ing_committed st)"
    using assms(2) by (simp_all add: ing_ok_def)
  have "apply_added conv added (?st, \<lparr>tr_writes = [],
      tr_rolled_back = map snd (filter ?hit (ing_probabilistic st)),
      tr_unwinds = map snd (filter ?hit (ing_committed st)), tr_recovery = None\<rparr>) = Returns (st', t)"
    using assms(1) ok
    by (simp add: VirtualChainChanged remove_probabilistic_by_hashes_def remove_committed_by_hashes_def
        remove_by_hashes_eq Let_def)
  from apply_added_ledger [OF this ing_ok_filter [OF assms(2)]] show ?thesis
    using unwind_all_filter [OF ok(1,3), of ?hit] by (auto simp: ledger_step_def)
next
  case (RecoveryRequired lo hi reason)
  have "bt_ok (ing_probabilistic st)" using assms(2) by (simp add: ing_ok_def)
  then have "st' = st\<lparr>ing_probabilistic :=
      filter (\<lambda>e. \<not> (u64_as_i64 lo \<le> fst e \<and> fst e \<le> u64_as_i64 hi)) (ing_probabilistic st)\<rparr> \<and>
      tr_unwinds t = [] \<and> tr_writes t = []"
    using assms(1) by (auto simp: RecoveryRequired run_map_Returns_iff remove_probabilistic_in_range_def
        remove_scores_filter Let_def split: if_splits)
  then show ?thesis
    using assms(2) by (auto simp: ledger_step_def ing_ok_def keyed_filter)
qed

lemma run_notifications_ledger:
  assumes "run_notifications conv st ns = Returns (st', ts)" "ing_ok st"
  shows "ing_ok st' \<and> ledger_replay ts (ing_committed st) = Some (ing_committed st')"
  using assms
proof (induction ns arbitrary: st ts)
  case (Cons n ns)
  then obtain s1 t ts' where n: "apply_notification conv st n = Returns (s1, t)"
      "run_notifications conv s1 ns = Returns (st', ts')" "ts = t # ts'"
    by (auto simp: run_bind_Returns_iff run_map_Returns_iff)
  have "ing_ok s1" "ledger_step t (ing_committed st) = Some (ing_committed s1)"
    using apply_notification_ledger [OF n(1) Cons.prems(2)] by auto
  with Cons.IH [OF n(2)] n(3) show ?case by simp
qed auto

lemma ing_ok_init: "ing_ok (with_finality_depth d)"
  by (simp add: ing_ok_def with_finality_depth_def keyed_def)

section \<open>Properties\<close>

text \<open>C6: the committed blocks are the ledger of the transitions. Whatever notifications arrive, the
  two maps stay ordered, keyed by the blocks' own scores and disjoint, no finalised block is left
  probabilistic, and the committed map is what replaying the reported transitions on an abstract
  ledger gives, where unwinding a block that is not committed and writing to an occupied score are
  errors: no committed block is ever overwritten, and none leaves unless a notification removed it.\<close>

theorem committed_ledger:
  assumes "run_notifications conv (with_finality_depth d) ns = Returns (st, ts)"
  shows "ing_ok st \<and> ledger_replay ts [] = Some (ing_committed st)"
  using run_notifications_ledger [OF assms ing_ok_init] by (simp_all add: with_finality_depth_def)

definition header_block :: "string \<Rightarrow> u64 \<Rightarrow> bool \<Rightarrow> ingested_block" where
  "header_block h d f = \<lparr>ib_hash = h, ib_daa = d, ib_blue = d, ib_finalized = f, ib_served_by = ''rpc'',
     ib_outputs = [], ib_inputs = [], ib_payloads = []\<rparr>"

definition sample_notifications :: "chain_notification list" where
  "sample_notifications =
     [BlockAdded (header_block ''a'' 5 False), BlockAdded (header_block ''b'' 8 False),
      VirtualChainChanged [''a''] [header_block ''c'' 6 False, header_block ''d'' 12 False]]"

lemma committed_ledger_witness:
  "\<exists>st ts. run_notifications (block_from_rpc base16_decode base16_encode (\<lambda>_. []))
      (with_finality_depth (Some 3)) sample_notifications = Returns (st, ts) \<and>
    map fst (ing_committed st) = [6] \<and> ledger_replay ts [] = Some (ing_committed st)"
proof -
  let ?r = "run_notifications (block_from_rpc base16_decode base16_encode (\<lambda>_. []))
    (with_finality_depth (Some 3)) sample_notifications"
  have "case ?r of Returns (st, ts) \<Rightarrow> map fst (ing_committed st) = [6] | Panics \<Rightarrow> False"
    by code_simp
  then obtain st ts where r: "?r = Returns (st, ts)" "map fst (ing_committed st) = [6]"
    by (auto split: run.splits)
  have "ledger_replay ts [] = Some (ing_committed st)"
    using committed_ledger [OF r(1)] by simp
  with r show ?thesis by (intro exI conjI)
qed

text \<open>C14: no block is lost. A block at a committed score changes nothing and reports nothing. A block at
  a free score joins the probabilistic blocks, and every block known before or arriving then is in
  exactly one place: still probabilistic, written, or reported as rolled back; rolled back are exactly
  the probabilistic blocks at or above its score with another hash.\<close>

theorem no_block_lost:
  assumes "ing_ok st" "apply_block st b = (st', t)"
  shows "if \<exists>c \<in> set (ing_committed st). fst c = bb_daa b
    then st' = st \<and> tr_writes t = [] \<and> tr_rolled_back t = []
    else block_id ` snd ` set (ing_probabilistic st') \<union> block_id ` set (tr_writes t) \<union> block_id ` set (tr_rolled_back t) =
           insert (block_id b) (block_id ` snd ` set (ing_probabilistic st)) \<and>
         block_id ` snd ` set (ing_probabilistic st') \<inter> block_id ` set (tr_writes t) = {} \<and>
         (block_id ` snd ` set (ing_probabilistic st') \<union> block_id ` set (tr_writes t)) \<inter> block_id ` set (tr_rolled_back t) = {} \<and>
         block_id ` set (tr_rolled_back t) =
           {i \<in> block_id ` snd ` set (ing_probabilistic st). bb_daa b \<le> fst i \<and> snd i \<noteq> bb_hash b}"
proof (cases "map_of (ing_committed st) (bb_daa b)")
  case (Some e)
  then have "(bb_daa b, e) \<in> set (ing_committed st)" by (rule map_of_SomeD)
  then show ?thesis
    using assms(2) by (force simp: apply_block_committed [OF Some])
next
  case None
  let ?O = "observed st b" and ?P = "promotable st b"
  have t: "ing_probabilistic st' = filter (\<lambda>e. \<not> ?P e) ?O" "tr_writes t = map snd (filter ?P ?O)"
      "tr_rolled_back t = map snd (filter (displaced b) (ing_probabilistic st))"
    using assms(2) by (auto simp: apply_block_free [OF assms(1) None] Let_def)
  have rolled: "block_id ` set (tr_rolled_back t) =
      {i \<in> block_id ` snd ` set (ing_probabilistic st). bb_daa b \<le> fst i \<and> snd i \<noteq> bb_hash b}"
  proof -
    have "displaced b e \<longleftrightarrow> bb_daa b \<le> fst (block_id (snd e)) \<and> snd (block_id (snd e)) \<noteq> bb_hash b"
      if "e \<in> set (ing_probabilistic st)" for e
      using that assms(1) by (simp add: displaced_def block_id_def ing_ok_def keyed_def)
    then show ?thesis unfolding t set_map set_filter by blast
  qed
  have all: "block_id ` snd ` set (ing_probabilistic st') \<union> block_id ` set (tr_writes t) = block_id ` snd ` set ?O"
    unfolding t set_map set_filter by blast
  have disj: "block_id ` snd ` set (ing_probabilistic st') \<inter> block_id ` set (tr_writes t) = {}"
  proof -
    have "fst (block_id (snd e)) = fst e" if "e \<in> set ?O" for e
      using that observed_ok(2) [OF assms(1)] by (simp add: keyed_def block_id_def)
    moreover have "?P e \<longleftrightarrow> ?P d" if "fst e = fst d" for e d
      using that by (simp add: promotable_def)
    ultimately have "block_id (snd e) \<noteq> block_id (snd d)" if "e \<in> set ?O" "d \<in> set ?O" "\<not> ?P e" "?P d" for e d
      using that by metis
    then show ?thesis unfolding t set_map set_filter by blast
  qed
  have "block_id b \<notin> block_id ` set (tr_rolled_back t)"
    unfolding rolled by (simp add: block_id_def)
  then have apart: "block_id ` snd ` set ?O \<inter> block_id ` set (tr_rolled_back t) = {}"
    unfolding ids_observed [OF assms(1)] rolled by blast
  have union: "block_id ` snd ` set ?O \<union> block_id ` set (tr_rolled_back t) =
      insert (block_id b) (block_id ` snd ` set (ing_probabilistic st))"
    unfolding ids_observed [OF assms(1)] rolled by blast
  have "\<not> (\<exists>c \<in> set (ing_committed st). fst c = bb_daa b)"
    using None unfolding map_of_None_keys by (metis image_eqI)
  then show ?thesis
    unfolding if_not_P [OF \<open>\<not> (\<exists>c \<in> set (ing_committed st). fst c = bb_daa b)\<close>]
    using all disj rolled apart union by (simp only: all simp_thms)
qed

definition plain_block :: "string \<Rightarrow> i64 \<Rightarrow> bool \<Rightarrow> bootstrap_block" where
  "plain_block h d f = \<lparr>bb_hash = h, bb_daa = d, bb_blue = d, bb_served_by = ''rpc'', bb_finalized = f,
     bb_bytes = [], bb_outputs = [], bb_inputs = [], bb_hits = []\<rparr>"

definition sample_state :: ingestion_state where
  "sample_state = \<lparr>ing_committed = [(3, plain_block ''a'' 3 True)],
     ing_probabilistic = [(5, plain_block ''b'' 5 False), (8, plain_block ''c'' 8 False)],
     ing_prior_poi = genesis_poi, ing_finality_depth = Some 2\<rparr>"

lemma sample_state_ok: "ing_ok sample_state"
  by (simp add: ing_ok_def sample_state_def keyed_def bt_ok_def plain_block_def)

lemma no_block_lost_witness:
  "(let (st', t) = apply_block sample_state (plain_block ''d'' 7 False) in
     block_id ` set (tr_rolled_back t) = {(8, ''c'')} \<and> tr_writes t \<noteq> [])"
proof -
  let ?r = "apply_block sample_state (plain_block ''d'' 7 False)"
  have n: "\<not> (\<exists>c \<in> set (ing_committed sample_state). fst c = bb_daa (plain_block ''d'' 7 False))"
    by (simp add: sample_state_def plain_block_def)
  have "{i \<in> block_id ` snd ` set (ing_probabilistic sample_state).
      bb_daa (plain_block ''d'' 7 False) \<le> fst i \<and> snd i \<noteq> bb_hash (plain_block ''d'' 7 False)} = {(8, ''c'')}"
    by code_simp
  then have "block_id ` set (tr_rolled_back (snd ?r)) = {(8, ''c'')}"
    using no_block_lost [OF sample_state_ok surjective_pairing [of ?r], unfolded if_not_P [OF n]] by metis
  moreover have "tr_writes (snd ?r) \<noteq> []" by code_simp
  ultimately show ?thesis by (simp add: case_prod_beta)
qed

text \<open>What one arriving block may write: blocks in strictly increasing score order, each at or below a written block
  that the RPC declared final on its arrival, or that is at least the finality depth below the arriving block; but a
  score at or below zero needs none.\<close>

definition promoted_by :: "ingestion_state \<Rightarrow> bootstrap_block \<Rightarrow> bootstrap_block list \<Rightarrow> bool" where
  "promoted_by st b ws \<longleftrightarrow> sorted_wrt (<) (map bb_daa ws) \<and>
     (\<forall>w \<in> set ws. bb_daa w \<le> 0 \<or>
       (\<exists>f \<in> set ws. bb_daa w \<le> bb_daa f \<and> bb_finalized f \<and>
         (block_id f = block_id b \<and> bb_finalized b \<or>
          (\<exists>c. derived_finalized_cutoff st (bb_daa b) = Some c \<and> bb_daa f \<le> c))))"

lemma block_promotes:
  assumes "ing_ok st" "apply_block st b = (st', t)"
  shows "promoted_by st b (tr_writes t)"
proof (cases "map_of (ing_committed st) (bb_daa b)")
  case (Some e)
  then show ?thesis using assms(2) by (auto simp: apply_block_committed promoted_by_def)
next
  case None
  let ?O = "observed st b" and ?P = "promotable st b" and ?c = "derived_finalized_cutoff st (bb_daa b)"
  have o: "bt_ok ?O" "keyed ?O" using observed_ok [OF assms(1)] .
  have w: "tr_writes t = map snd (filter ?P ?O)"
    using assms(2) by (auto simp: apply_block_free [OF assms(1) None] Let_def)
  have "sorted_wrt (<) (map bb_daa (tr_writes t))"
    unfolding w daa_keyed [OF o(2)] using o(1) bt_ok_filter [OF o(1)] by (simp add: bt_ok_def)
  moreover have "bb_daa w \<le> 0 \<or> (\<exists>f \<in> set (tr_writes t). bb_daa w \<le> bb_daa f \<and> bb_finalized f \<and>
        (block_id f = block_id b \<and> bb_finalized b \<or> (\<exists>c. ?c = Some c \<and> bb_daa f \<le> c)))"
    if w_in: "w \<in> set (tr_writes t)" for w
  proof -
    obtain e where e: "e \<in> set ?O" "?P e" "w = snd e"
      using w_in unfolding w set_map set_filter by blast
    then have le: "bb_daa w \<le> highest_finalized_daa ?O"
      using o(2) by (simp add: promotable_def keyed_def)
    from highest_finalized_cases [of ?O] show ?thesis
    proof
      assume "\<exists>e \<in> set ?O. bb_finalized (snd e) \<and> fst e = highest_finalized_daa ?O"
      then obtain d where d: "d \<in> set ?O" "bb_finalized (snd d)" "fst d = highest_finalized_daa ?O"
        by blast
      then have f: "snd d \<in> set (tr_writes t)" "bb_daa (snd d) = highest_finalized_daa ?O"
        using e(2) o(2) by (auto simp: w promotable_def keyed_def)
      obtain g where g: "g \<in> insert (bb_daa b, b) (set (ing_probabilistic st))" "snd d = finalize ?c (snd g)"
        using d(1) unfolding set_observed [OF assms(1)] by (rule imageE) (simp, blast)
      have "g = (bb_daa b, b) \<or> \<not> bb_finalized (snd g)"
        using g(1) assms(1) by (auto simp: ing_ok_def)
      then have "block_id (snd d) = block_id b \<and> bb_finalized b \<or> (\<exists>c. ?c = Some c \<and> bb_daa (snd d) \<le> c)"
        using g(2) d(2) by (auto simp: finalize_def split: if_splits)
      moreover have "bb_daa w \<le> bb_daa (snd d)" using f(2) le by simp
      ultimately show ?thesis using f(1) d(2) by blast
    qed (use le in simp)
  qed
  ultimately show ?thesis unfolding promoted_by_def by blast
qed

lemma apply_block_depth: "ing_ok st \<Longrightarrow> ing_finality_depth (fst (apply_block st b)) = ing_finality_depth st"
  by (cases "map_of (ing_committed st) (bb_daa b)") (simp_all add: apply_block_committed apply_block_free Let_def)

lemma added_promote:
  assumes "apply_added conv bs (st, t) = Returns (st', t')" "ing_ok st"
  shows "\<exists>as segs. map conv bs = map Returns as \<and> tr_writes t' = tr_writes t @ concat segs \<and> list_all2 (promoted_by st) as segs"
  using assms
proof (induction bs arbitrary: st t)
  case (Cons b bs)
  then obtain a where b: "conv b = Returns a" by (auto simp: run_bind_Returns_iff)
  obtain s1 t1 where s1: "apply_block st a = (s1, t1)" by force
  have ok: "ing_ok s1" using apply_block_ok [OF Cons.prems(2), of a] s1 by simp
  have "derived_finalized_cutoff s1 = derived_finalized_cutoff st"
    using apply_block_depth [OF Cons.prems(2), of a] s1 by (simp add: derived_finalized_cutoff_def fun_eq_iff)
  then have same: "promoted_by s1 = promoted_by st" by (simp add: promoted_by_def fun_eq_iff)
  from Cons.IH [OF _ ok] Cons.prems(1) obtain as segs where
    "map conv bs = map Returns as" "tr_writes t' = (tr_writes t @ tr_writes t1) @ concat segs" "list_all2 (promoted_by s1) as segs"
    by (fastforce simp: b s1)
  then show ?case
    using block_promotes [OF Cons.prems(2) s1] b same by (intro exI [of _ "a # as"] exI [of _ "tr_writes t1 # segs"]) simp
qed auto

fun arriving :: "chain_notification \<Rightarrow> ingested_block list" where
  "arriving (BlockAdded b) = [b]"
| "arriving (VirtualChainChanged removed added) = added"
| "arriving (RecoveryRequired lo hi reason) = []"

fun removed_hashes :: "chain_notification \<Rightarrow> string list" where
  "removed_hashes (VirtualChainChanged removed added) = removed"
| "removed_hashes n = []"

lemma notification_promotes:
  assumes "apply_notification conv st n = Returns (st', t)" "ing_ok st"
  shows "\<exists>as segs. map conv (arriving n) = map Returns as \<and> tr_writes t = concat segs \<and> list_all2 (promoted_by st) as segs"
proof (cases n)
  case (BlockAdded b)
  then obtain a where "conv b = Returns a" "apply_block st a = (st', t)" using assms(1) by (auto simp: run_map_Returns_iff)
  with block_promotes [OF assms(2)] show ?thesis
    by (intro exI [of _ "[a]"] exI [of _ "[tr_writes t]"]) (simp add: BlockAdded)
next
  case (VirtualChainChanged removed added)
  obtain st2 t2 where st2: "apply_added conv added (st2, t2) = Returns (st', t)" "tr_writes t2 = []" "ing_ok st2"
      "ing_finality_depth st2 = ing_finality_depth st"
    using assms ing_ok_filter [OF assms(2)] unfolding VirtualChainChanged
    by (fastforce simp: ing_ok_def remove_probabilistic_by_hashes_def remove_committed_by_hashes_def remove_by_hashes_eq Let_def)
  have "promoted_by st2 = promoted_by st" by (simp add: promoted_by_def derived_finalized_cutoff_def fun_eq_iff st2(4))
  with added_promote [OF st2(1,3)] st2(2) show ?thesis by (simp add: VirtualChainChanged)
next
  case (RecoveryRequired lo hi reason)
  then have "tr_writes t = []" using assms(1)
    by (auto simp: run_map_Returns_iff remove_probabilistic_in_range_def Let_def split: if_splits prod.splits)
  then show ?thesis by (simp add: RecoveryRequired)
qed

text \<open>Writing to an abstract ledger keeps its entries, and unwinding the blocks with a hash removes just those.\<close>

lemma set_write_all:
  "write_all ws m = Some m' \<Longrightarrow> bt_ok m \<Longrightarrow> set m' = set m \<union> (\<lambda>w. (bb_daa w, w)) ` set ws"
proof (induction ws m rule: write_all.induct)
  case (2 b bs m)
  then have free: "map_of m (bb_daa b) = None" by (auto split: if_splits)
  then have "{e \<in> set m. fst e \<noteq> bb_daa b} = set m" by (force simp: map_of_None_keys)
  with 2 free show ?case by (auto simp: set_bt_insert)
qed simp

lemma notification_unwinds:
  assumes "apply_notification conv st n = Returns (st', t)" "ing_ok st"
  shows "unwind_all (tr_unwinds t) (ing_committed st) =
    Some (filter (\<lambda>e. bb_hash (snd e) \<notin> set (removed_hashes n)) (ing_committed st))"
proof (cases n)
  case (BlockAdded b)
  then obtain a where "apply_block st a = (st', t)" using assms(1) by (auto simp: run_map_Returns_iff)
  then have "tr_unwinds t = []"
    using assms(2) by (cases "map_of (ing_committed st) (bb_daa a)") (auto simp: apply_block_committed apply_block_free Let_def)
  then show ?thesis by (simp add: BlockAdded)
next
  case (VirtualChainChanged removed added)
  have ok: "bt_ok (ing_committed st)" "bt_ok (ing_probabilistic st)" "keyed (ing_committed st)"
    using assms(2) by (simp_all add: ing_ok_def)
  obtain st2 t2 where st2: "apply_added conv added (st2, t2) = Returns (st', t)" "ing_ok st2"
      "tr_unwinds t2 = map snd (filter (\<lambda>e. bb_hash (snd e) \<in> set removed) (ing_committed st))"
    using assms ok ing_ok_filter [OF assms(2)] unfolding VirtualChainChanged
    by (fastforce simp: remove_probabilistic_by_hashes_def remove_committed_by_hashes_def remove_by_hashes_eq Let_def)
  then show ?thesis
    using apply_added_ledger [OF st2(1,2)] unwind_all_filter [OF ok(1,3), of "\<lambda>e. bb_hash (snd e) \<in> set removed"]
    by (simp add: VirtualChainChanged)
next
  case (RecoveryRequired lo hi reason)
  then have "tr_unwinds t = []" using assms(1)
    by (auto simp: run_map_Returns_iff remove_probabilistic_in_range_def Let_def split: if_splits prod.splits)
  then show ?thesis by (simp add: RecoveryRequired)
qed

text \<open>C15: nothing is committed before it is final, and it stays. In any notification, each arriving block
  writes its own run of blocks, one run after the other; within a run the scores strictly increase, and each block
  lies at or below one written in that run that the RPC declared final on its arrival or that is at least the finality
  depth below the arriving block, the one exception being a score at or below zero. From one run to the next the score may fall.
  Afterwards the committed blocks are those written and those that were committed and were not named as removed.\<close>

theorem commit_is_final:
  assumes "ing_ok st" "apply_notification conv st n = Returns (st', t)"
  shows "(\<exists>as segs. map conv (arriving n) = map Returns as \<and> tr_writes t = concat segs \<and> list_all2 (promoted_by st) as segs) \<and>
    set (ing_committed st') = {e \<in> set (ing_committed st). bb_hash (snd e) \<notin> set (removed_hashes n)} \<union>
      (\<lambda>w. (bb_daa w, w)) ` set (tr_writes t)"
proof -
  have "write_all (tr_writes t) (filter (\<lambda>e. bb_hash (snd e) \<notin> set (removed_hashes n)) (ing_committed st)) = Some (ing_committed st')"
    using apply_notification_ledger [OF assms(2,1)] notification_unwinds [OF assms(2,1)] by (simp add: ledger_step_def)
  moreover have "bt_ok (filter (\<lambda>e. bb_hash (snd e) \<notin> set (removed_hashes n)) (ing_committed st))"
    using assms(1) by (simp add: ing_ok_def)
  ultimately show ?thesis using notification_promotes [OF assms(2,1)] set_write_all by fastforce
qed

lemma commit_is_final_witness:
  "\<exists>st t. apply_notification (block_from_rpc base16_decode base16_encode (\<lambda>_. [])) sample_state
      (BlockAdded (header_block ''d'' 7 False)) = Returns (st, t) \<and>
    (3, plain_block ''a'' 3 True) \<in> set (ing_committed st) \<and> (\<forall>w \<in> set (tr_writes t). bb_daa w \<le> 5)"
proof -
  let ?conv = "block_from_rpc base16_decode base16_encode (\<lambda>_. [])" and ?b = "header_block ''d'' 7 False"
  obtain a where a: "?conv ?b = Returns a" "\<not> bb_finalized a" "bb_daa a = 7"
    by (auto simp: block_from_rpc_def header_block_def u64_as_i64_def)
  obtain st t where st: "apply_notification ?conv sample_state (BlockAdded ?b) = Returns (st, t)"
    by (simp add: a) (metis surj_pair)
  obtain segs where segs: "tr_writes t = concat segs" "list_all2 (promoted_by sample_state) [a] segs"
    using commit_is_final [OF sample_state_ok st] a(1) by auto
  then have "promoted_by sample_state a (tr_writes t)" by (auto simp: list_all2_Cons1)
  moreover have "derived_finalized_cutoff sample_state 7 = Some 5" by code_simp
  ultimately have "\<forall>w \<in> set (tr_writes t). bb_daa w \<le> 5" using a(2,3) by (fastforce simp: promoted_by_def)
  moreover have "(3, plain_block ''a'' 3 True) \<in> set (ing_committed st)"
    using commit_is_final [OF sample_state_ok st] by (simp add: sample_state_def)
  ultimately show ?thesis using st by blast
qed

text \<open>From one arriving block to the next the scores can fall: a block declared final below an already committed one
  is still committed.\<close>

lemma lower_score_committed_later:
  "(case apply_notification (block_from_rpc base16_decode base16_encode (\<lambda>_. [])) (with_finality_depth None)
      (VirtualChainChanged [] [header_block ''a'' 8 True, header_block ''b'' 5 True]) of
      Panics \<Rightarrow> [] | Returns (st, t) \<Rightarrow> map bb_daa (tr_writes t)) = [8, 5]"
  by code_simp

text \<open>The exception is real: the scan for the highest finalised score starts at \<open>0\<close>, so a block at score
  \<open>0\<close> is committed at once however far it is from final.\<close>

lemma score_zero_committed_early:
  "tr_writes (snd (apply_block (with_finality_depth (Some 100)) (plain_block ''a'' 0 False))) =
    [plain_block ''a'' 0 False]"
  by code_simp

text \<open>Delivery is idempotent: after a block was applied, applying it again changes nothing: no block
  is written or rolled back a second time.\<close>

theorem redelivery_idempotent:
  assumes "ing_ok st" "\<forall>e \<in> set (ing_probabilistic st). 0 \<le> fst e" "0 \<le> bb_daa b"
    and "apply_block st b = (st', t)"
  shows "apply_block st' b = (st', no_writes [])"
proof (cases "map_of (ing_committed st) (bb_daa b)")
  case (Some e)
  then show ?thesis using assms(4) by (simp add: apply_block_committed)
next
  case None
  let ?O = "observed st b" and ?P = "promotable st b" and ?c = "derived_finalized_cutoff st (bb_daa b)"
  have o: "bt_ok ?O" "keyed ?O" using observed_ok [OF assms(1)] .
  have st': "ing_probabilistic st' = filter (\<lambda>e. \<not> ?P e) ?O"
      "ing_committed st' = commit (ing_committed st) (map snd (filter ?P ?O))"
      "ing_finality_depth st' = ing_finality_depth st"
    using assms(4) by (auto simp: apply_block_free [OF assms(1) None] Let_def)
  have ok: "ing_ok st'" using apply_block_ok [OF assms(1), of b] assms(4) by simp
  have cut: "derived_finalized_cutoff st' (bb_daa b) = ?c"
    by (simp add: derived_finalized_cutoff_def st'(3))
  show ?thesis
  proof (cases "map_of (ing_committed st') (bb_daa b)")
    case (Some e)
    then show ?thesis by (simp add: apply_block_committed)
  next
    case free: None
    have b_in: "(bb_daa b, finalize ?c b) \<in> set ?O"
      unfolding set_observed [OF assms(1)] by (rule image_eqI [of _ _ "(bb_daa b, b)"]) simp_all
    have "\<not> ?P (bb_daa b, finalize ?c b)"
    proof
      assume "?P (bb_daa b, finalize ?c b)"
      with b_in have "(bb_daa b, finalize ?c b) \<in> set (filter ?P ?O)" by simp
      then have "snd (bb_daa b, finalize ?c b) \<in> set (map snd (filter ?P ?O))"
        unfolding set_map by (rule imageI)
      then have "bb_daa (finalize ?c b) \<in> bb_daa ` set (map snd (filter ?P ?O))"
        unfolding snd_conv by (rule imageI)
      then have "bb_daa b \<in> fst ` set (ing_committed st')" by (simp add: st'(2) keys_commit)
      with free show False by (simp add: map_of_None_keys)
    qed
    then have b_st: "(bb_daa b, finalize ?c b) \<in> set (ing_probabilistic st')"
      using b_in by (simp add: st'(1))
    then have unfinal: "\<not> bb_finalized (finalize ?c b)"
      using ok by (auto simp: ing_ok_def)
    then have same: "finalize ?c b = b" by (auto simp: finalize_def split: if_splits)
    have hash: "\<not> displaced b e" if "e \<in> set (ing_probabilistic st')" for e
    proof -
      from that have "e \<in> set ?O" by (simp add: st'(1))
      then obtain d where "d \<in> insert (bb_daa b, b) {e \<in> set (ing_probabilistic st). \<not> displaced b e \<and> fst e \<noteq> bb_daa b}"
          "e = (fst d, finalize ?c (snd d))"
        unfolding set_observed [OF assms(1)] by blast
      then show ?thesis by (auto simp: displaced_def)
    qed
    then have keep: "filter (\<lambda>e. \<not> displaced b e) (ing_probabilistic st') = ing_probabilistic st'"
        "filter (displaced b) (ing_probabilistic st') = []"
      by (simp_all add: filter_empty_conv)
    have okp: "bt_ok (ing_probabilistic st')" using ok by (simp add: ing_ok_def)
    have "bt_insert (bb_daa b) b (ing_probabilistic st') = ing_probabilistic st'"
      using b_st same okp by (intro bt.ins_same) (simp_all add: bt_ok_get)
    moreover have "mark ?c (ing_probabilistic st') = ing_probabilistic st'"
      unfolding mark_def
    proof (rule map_idI)
      fix e assume e: "e \<in> set (ing_probabilistic st')"
      then have "e \<in> set ?O" by (simp add: st'(1))
      then obtain d where "snd e = finalize ?c (snd d)"
        unfolding set_observed [OF assms(1)] by (force simp del: image_insert)
      then have "finalize ?c (snd e) = snd e" by simp
      then show "(case e of (k, b) \<Rightarrow> (k, finalize ?c b)) = e" by (simp add: case_prod_beta)
    qed
    ultimately have obs: "observed st' b = ing_probabilistic st'"
      by (simp add: observed_def Let_def cut keep)
    have none: "filter (promotable st' b) (ing_probabilistic st') = []"
    proof -
      have "highest_finalized_daa (ing_probabilistic st') = 0"
        using ok highest_finalized_cases [of "ing_probabilistic st'"] by (auto simp: ing_ok_def)
      moreover have "\<not> (fst e \<le> 0 \<and> (bb_finalized b \<or> ?c \<noteq> None))" if e: "e \<in> set (ing_probabilistic st')" for e
      proof
        assume le: "fst e \<le> 0 \<and> (bb_finalized b \<or> ?c \<noteq> None)"
        have "0 \<le> highest_finalized_daa ?O"
        proof -
          have "0 \<le> fst d" if "d \<in> set ?O" for d
          proof -
            have "fst d \<in> insert (bb_daa b) (fst ` set (ing_probabilistic st))"
              using keys_observed [OF assms(1), of b] that by blast
            then show ?thesis using assms(2,3) by (metis imageE insertE)
          qed
          then show ?thesis using highest_finalized_cases [of ?O] by force
        qed
        with le have "?P e" by (simp add: promotable_def)
        with e show False by (simp add: st'(1))
      qed
      ultimately show ?thesis
        by (auto simp: filter_empty_conv promotable_def obs cut)
    qed
    then have "filter (\<lambda>e. \<not> promotable st' b e) (ing_probabilistic st') = ing_probabilistic st'"
      by (simp add: filter_empty_conv)
    then show ?thesis
      using none keep by (simp add: apply_block_free [OF ok free] obs Let_def commit_def no_writes_def)
  qed
qed

lemma redelivery_idempotent_witness:
  "(let st' = fst (apply_block sample_state (plain_block ''d'' 7 False))
    in apply_block st' (plain_block ''d'' 7 False) = (st', no_writes []))"
proof -
  have "\<forall>e \<in> set (ing_probabilistic sample_state). 0 \<le> fst e" "0 \<le> bb_daa (plain_block ''d'' 7 False)"
    by (simp_all add: sample_state_def plain_block_def)
  then show ?thesis
    unfolding Let_def by (rule redelivery_idempotent [OF sample_state_ok _ _ surjective_pairing])
qed

text \<open>A recovery request rolls back exactly its range, and an inverted range panics. With the bounds
  in order, the probabilistic blocks from the first to the last score are reported and dropped, and
  the committed ones stay; when the first score, cast to a signed integer, exceeds the last, the node
  panics in \<open>BTreeMap::range\<close>.\<close>

theorem recovery_range:
  assumes "ing_ok st"
  shows "apply_notification conv st (RecoveryRequired lo hi reason) =
    (let inside = \<lambda>e. u64_as_i64 lo \<le> fst e \<and> fst e \<le> u64_as_i64 hi
     in if u64_as_i64 hi < u64_as_i64 lo then Panics
        else Returns (st\<lparr>ing_probabilistic := filter (\<lambda>e. \<not> inside e) (ing_probabilistic st)\<rparr>,
               \<lparr>tr_writes = [], tr_rolled_back = map snd (filter inside (ing_probabilistic st)),
                tr_unwinds = [], tr_recovery = Some (lo, hi)\<rparr>))"
proof -
  have "bt_ok (ing_probabilistic st)" using assms by (simp add: ing_ok_def)
  then show ?thesis
    by (simp add: remove_probabilistic_in_range_def remove_scores_filter Let_def)
qed

lemma recovery_range_witness:
  "apply_notification (\<lambda>_. Panics) sample_state (RecoveryRequired 20 10 ''gap'') = Panics"
proof -
  have "u64_as_i64 10 < u64_as_i64 20" by code_simp
  then show ?thesis using recovery_range [OF sample_state_ok, of "\<lambda>_. Panics" 20 10] by simp
qed

definition gap_anchor :: "ingestion_state \<Rightarrow> u64 \<Rightarrow> i64 \<times> bootstrap_block \<Rightarrow> bool" where
  "gap_anchor st from_daa e \<longleftrightarrow>
     (let known = ing_committed st @ ing_probabilistic st; cutoff = u64_as_i64 (u64_saturating_sub from_daa 1)
      in e \<in> set known \<and> fst e \<le> cutoff \<and> (\<forall>d \<in> set known. fst d \<le> cutoff \<longrightarrow> fst d \<le> fst e))"

lemma max_by_score_None [simp]: "max_by_score m = None \<longleftrightarrow> m = []"
  by (cases m) (auto split: option.split)

lemma max_by_score_Some: "max_by_score m = Some e \<Longrightarrow> e \<in> set m \<and> (\<forall>d \<in> set m. fst d \<le> fst e)"
  by (induction m arbitrary: e) (fastforce split: option.splits if_splits)+

text \<open>Gap recovery starts from the right block. The anchor is the hash of the known block, committed
  or probabilistic, with the greatest score below the gap, and there is none exactly when no known
  block lies below the gap.\<close>

theorem recovery_anchor_greatest:
  assumes "ing_ok st"
  shows "case recovery_anchor_hash st from_daa of
      None \<Rightarrow> \<forall>e \<in> set (ing_committed st @ ing_probabilistic st). u64_as_i64 (u64_saturating_sub from_daa 1) < fst e
    | Some h \<Rightarrow> \<exists>e. bb_hash (snd e) = h \<and> gap_anchor st from_daa e \<and> (\<forall>d. gap_anchor st from_daa d \<longrightarrow> d = e)"
proof -
  let ?K = "ing_committed st @ ing_probabilistic st"
    and ?c = "u64_as_i64 (u64_saturating_sub from_daa 1)"
  have "distinct (map fst ?K)"
    using assms by (auto simp: ing_ok_def bt_ok_distinct)
  then have inj: "inj_on fst (set ?K)"
    unfolding distinct_map by (rule conjunct2)
  show ?thesis
  proof (cases "max_by_score (filter (\<lambda>e. fst e \<le> ?c) ?K)")
    case None
    then show ?thesis
      by (simp add: recovery_anchor_hash_def Let_def filter_empty_conv not_le del: filter_append)
  next
    case (Some e)
    have e: "gap_anchor st from_daa e"
      using max_by_score_Some [OF Some] unfolding gap_anchor_def Let_def set_filter by blast
    have "d = e" if d: "gap_anchor st from_daa d" for d
    proof (rule inj_onD [OF inj])
      show "d \<in> set ?K" "e \<in> set ?K"
        using d e by (simp_all only: gap_anchor_def Let_def)
      show "fst d = fst e"
        using d e unfolding gap_anchor_def Let_def by (metis order_antisym)
    qed
    then have u: "\<forall>d. gap_anchor st from_daa d \<longrightarrow> d = e" by (intro allI impI)
    have r: "recovery_anchor_hash st from_daa = Some (bb_hash (snd e))"
      using Some by (simp only: recovery_anchor_hash_def Let_def option.map)
    show ?thesis
      unfolding r option.case by (intro exI [of _ e] conjI refl e u)
  qed
qed

lemma recovery_anchor_greatest_witness:
  "\<exists>e. bb_hash (snd e) = ''b'' \<and> gap_anchor sample_state 8 e"
proof -
  have "recovery_anchor_hash sample_state 8 = Some ''b''"
    by code_simp
  then show ?thesis using recovery_anchor_greatest [OF sample_state_ok, of 8] by auto
qed

end
