(* ===== verification/Rpc_Parse.thy ===== *)
theory Rpc_Parse
  imports Chain_Types
begin

text \<open>
  Reading what a Kaspa node sends: the parsers of \<open>src/crates/kasgraph-rpc/src/lib.rs\<close> from a JSON value
  to blocks, capabilities and notifications. Parsing and printing JSON text (\<open>serde_json\<close>) and the
  \<open>hex\<close> crate are the fields of \<open>wire\<close>; an error carries the text the code puts into it.
\<close>

section \<open>Errors and parameters\<close>

datatype rpc_error =
    AllEndpointsFailed
  | Transport string string
  | Subscription_rejected string string
  | MalformedResponse string

record wire =
  wi_parse :: "string \<Rightarrow> string + json"
  wi_print :: "json \<Rightarrow> string"
  wi_hex :: hex_decoder

text \<open>The \<open>?\<close> operator, and the two fallible loops over a list.\<close>

definition attempt :: "'e + 'a \<Rightarrow> ('a \<Rightarrow> 'e + 'b) \<Rightarrow> 'e + 'b" where
  "attempt r f = (case r of Inl e \<Rightarrow> Inl e | Inr x \<Rightarrow> f x)"

lemma attempt_simps [simp]: "attempt (Inl e) f = Inl e" "attempt (Inr x) f = f x"
  by (simp_all add: attempt_def)

lemma attempt_Inr: "attempt r f = Inr y \<longleftrightarrow> (\<exists>x. r = Inr x \<and> f x = Inr y)"
  by (cases r) simp_all

definition ok_or :: "'a option \<Rightarrow> 'e \<Rightarrow> 'e + 'a" where
  "ok_or x e = (case x of None \<Rightarrow> Inl e | Some v \<Rightarrow> Inr v)"

fun try_map :: "('a \<Rightarrow> 'e + 'b) \<Rightarrow> 'a list \<Rightarrow> 'e + 'b list" where
  "try_map f [] = Inr []"
| "try_map f (x # xs) = attempt (f x) (\<lambda>y. attempt (try_map f xs) (\<lambda>ys. Inr (y # ys)))"

fun or_else :: "'a option \<Rightarrow> 'a option \<Rightarrow> 'a option" where
  "or_else (Some x) y = Some x"
| "or_else None y = y"

fun as_bool :: "json \<Rightarrow> bool option" where
  "as_bool (JBool b) = Some b"
| "as_bool _ = None"

definition get_u64 :: "json \<Rightarrow> string \<Rightarrow> u64 option" where
  "get_u64 v k = Option.bind (jget v k) as_u64"

definition get_bool :: "json \<Rightarrow> string \<Rightarrow> bool option" where
  "get_bool v k = Option.bind (jget v k) as_bool"

definition get_array :: "json \<Rightarrow> string \<Rightarrow> json list option" where
  "get_array v k = Option.bind (jget v k) as_array"

text \<open>\<open>Value::pointer("/a/b")\<close> for keys that are no array index.\<close>

definition pointer :: "json \<Rightarrow> string \<Rightarrow> string \<Rightarrow> json option" where
  "pointer v a b = Option.bind (jget v a) (\<lambda>x. jget x b)"

definition unwrap_or :: "'a option \<Rightarrow> 'a \<Rightarrow> 'a" where
  "unwrap_or x d = (case x of None \<Rightarrow> d | Some v \<Rightarrow> v)"

section \<open>Fields\<close>

fun extract_string :: "wire \<Rightarrow> json option list \<Rightarrow> json \<Rightarrow> rpc_error + string" where
  "extract_string w [] original = Inl (MalformedResponse (wi_print w original))"
| "extract_string w (c # cs) original =
     (case Option.bind c as_str of Some s \<Rightarrow> Inr s | None \<Rightarrow> extract_string w cs original)"

fun extract_u64 :: "wire \<Rightarrow> json option list \<Rightarrow> json \<Rightarrow> rpc_error + u64" where
  "extract_u64 w [] original = Inl (MalformedResponse (wi_print w original))"
| "extract_u64 w (None # cs) original = extract_u64 w cs original"
| "extract_u64 w (Some v # cs) original =
     (case as_u64 v of
        Some n \<Rightarrow> Inr n
      | None \<Rightarrow> (case Option.bind (as_str v) rust_parse_u64 of
          Some n \<Rightarrow> Inr n
        | None \<Rightarrow> extract_u64 w cs original))"

section \<open>Transactions\<close>

definition transaction_id :: "json \<Rightarrow> string" where
  "transaction_id tx =
     unwrap_or (or_else (Option.bind (pointer tx ''verboseData'' ''transactionId'') as_str)
       (or_else (get_str tx ''transactionId'') (get_str tx ''id''))) ''''"

definition output_of :: "wire \<Rightarrow> string \<Rightarrow> nat \<Rightarrow> json \<Rightarrow> ingested_output" where
  "output_of w tx_hash idx v =
     (let script_hex = unwrap_or (or_else (Option.bind (pointer v ''scriptPublicKey'' ''scriptPublicKey'') as_str)
                                          (get_str v ''scriptPublicKey'')) '''';
          amount = unwrap_or (Option.bind (jget v ''value'')
                     (\<lambda>x. or_else (Option.bind (as_str x) rust_parse_u64) (as_u64 x))) 0
      in \<lparr>io_tx_hash = tx_hash, io_output_index = word_of_nat idx,
          io_script = unwrap_or (wi_hex w script_hex) [], io_value = amount\<rparr>)"

fun extract_transaction_outputs :: "wire \<Rightarrow> json list \<Rightarrow> ingested_output list" where
  "extract_transaction_outputs w [] = []"
| "extract_transaction_outputs w (tx # txs) =
     (case get_array tx ''outputs'' of
        None \<Rightarrow> []
      | Some outs \<Rightarrow> map (\<lambda>(idx, v). output_of w (transaction_id tx) idx v) (List.enumerate 0 outs))
     @ extract_transaction_outputs w txs"

definition input_of :: "string \<Rightarrow> json \<Rightarrow> ingested_input option" where
  "input_of spending v =
     (case Option.bind (pointer v ''previousOutpoint'' ''transactionId'') as_str of
        None \<Rightarrow> None
      | Some previous \<Rightarrow>
          Some \<lparr>ii_spending_tx = spending, ii_previous_tx = previous,
                ii_previous_index = ucast (unwrap_or (Option.bind (pointer v ''previousOutpoint'' ''index'')
                  (\<lambda>x. or_else (as_u64 x) (Option.bind (as_str x) rust_parse_u64))) 0)\<rparr>)"

fun extract_transaction_inputs :: "json list \<Rightarrow> ingested_input list" where
  "extract_transaction_inputs [] = []"
| "extract_transaction_inputs (tx # txs) =
     (case get_array tx ''inputs'' of
        None \<Rightarrow> []
      | Some ins \<Rightarrow> List.map_filter (input_of (transaction_id tx)) ins)
     @ extract_transaction_inputs txs"

fun extract_transaction_payloads :: "wire \<Rightarrow> json list \<Rightarrow> ingested_payload list" where
  "extract_transaction_payloads w [] = []"
| "extract_transaction_payloads w (tx # txs) =
     (let payload_hex = unwrap_or (get_str tx ''payload'') '''' in
      if payload_hex = [] then extract_transaction_payloads w txs
      else (case wi_hex w payload_hex of
              None \<Rightarrow> extract_transaction_payloads w txs
            | Some payload \<Rightarrow>
                if payload = [] then extract_transaction_payloads w txs
                else \<lparr>ip_tx_hash = transaction_id tx, ip_payload = payload\<rparr> #
                     extract_transaction_payloads w txs))"

section \<open>Blocks and responses\<close>

definition parse_block_value :: "wire \<Rightarrow> json \<Rightarrow> string \<Rightarrow> rpc_error + ingested_block" where
  "parse_block_value w v served_by =
     (let header = unwrap_or (jget v ''header'') v in
      attempt (extract_string w [jget v ''hash'', jget header ''hash''] v) (\<lambda>hash.
      attempt (extract_u64 w [jget header ''daaScore'', jget v ''daaScore''] v) (\<lambda>daa.
      attempt (extract_u64 w [jget header ''blueScore'', jget v ''blueScore''] v) (\<lambda>blue.
        let txs = get_array v ''transactions'' in
        Inr \<lparr>ib_hash = hash, ib_daa = daa, ib_blue = blue,
             ib_finalized = unwrap_or (get_bool v ''isFinalized'') False, ib_served_by = served_by,
             ib_outputs = unwrap_or (map_option (extract_transaction_outputs w) txs) [],
             ib_inputs = unwrap_or (map_option extract_transaction_inputs txs) [],
             ib_payloads = unwrap_or (map_option (extract_transaction_payloads w) txs) []\<rparr>))))"

definition response_result :: "wire \<Rightarrow> json \<Rightarrow> rpc_error + json" where
  "response_result w v =
     ok_or (or_else (jget v ''result'') (jget v ''params'')) (MalformedResponse (wi_print w v))"

definition parse_ingested_block :: "wire \<Rightarrow> json \<Rightarrow> string \<Rightarrow> rpc_error + ingested_block" where
  "parse_ingested_block w v served_by =
     attempt (response_result w v) (\<lambda>result.
     attempt (parse_block_value w (unwrap_or (jget result ''block'') result) served_by) (\<lambda>block.
       Inr (case get_bool result ''isFinalized'' of None \<Rightarrow> block | Some f \<Rightarrow> block\<lparr>ib_finalized := f\<rparr>)))"

definition string_items :: "json \<Rightarrow> string \<Rightarrow> string list" where
  "string_items v k = unwrap_or (map_option (List.map_filter as_str) (get_array v k)) []"

definition parse_virtual_chain_hashes :: "wire \<Rightarrow> json \<Rightarrow> rpc_error + string list \<times> string list" where
  "parse_virtual_chain_hashes w v =
     attempt (response_result w v) (\<lambda>result.
       Inr (string_items result ''removedChainBlockHashes'', string_items result ''addedChainBlockHashes''))"

record server_info =
  si_server_version :: string
  si_network_id :: string
  si_rpc_api_version :: u64
  si_rpc_api_revision :: u64
  si_is_synced :: bool
  si_has_utxo_index :: bool
  si_virtual_daa_score :: "u64 option"

record node_info =
  ni_server_version :: string
  ni_is_synced :: bool
  ni_has_message_id :: bool
  ni_has_notify_command :: bool
  ni_is_utxo_indexed :: bool
  ni_mempool_size :: "u64 option"
  ni_p2p_id :: "string option"

definition required_bool :: "wire \<Rightarrow> json \<Rightarrow> string \<Rightarrow> rpc_error + bool" where
  "required_bool w result k = ok_or (get_bool result k) (MalformedResponse (wi_print w result))"

definition parse_server_info :: "wire \<Rightarrow> json \<Rightarrow> rpc_error + server_info" where
  "parse_server_info w v =
     attempt (response_result w v) (\<lambda>result.
     attempt (extract_string w [jget result ''serverVersion''] result) (\<lambda>server_version.
     attempt (extract_string w [jget result ''networkId''] result) (\<lambda>network_id.
     attempt (extract_u64 w [jget result ''rpcApiVersion''] result) (\<lambda>rpc_api_version.
     attempt (extract_u64 w [jget result ''rpcApiRevision''] result) (\<lambda>rpc_api_revision.
     attempt (required_bool w result ''isSynced'') (\<lambda>is_synced.
     attempt (required_bool w result ''hasUtxoIndex'') (\<lambda>has_utxo_index.
       Inr \<lparr>si_server_version = server_version, si_network_id = network_id,
            si_rpc_api_version = rpc_api_version, si_rpc_api_revision = rpc_api_revision,
            si_is_synced = is_synced, si_has_utxo_index = has_utxo_index,
            si_virtual_daa_score = get_u64 result ''virtualDaaScore''\<rparr>)))))))"

definition parse_node_info :: "wire \<Rightarrow> json \<Rightarrow> rpc_error + node_info" where
  "parse_node_info w v =
     attempt (response_result w v) (\<lambda>result.
     attempt (extract_string w [jget result ''serverVersion''] result) (\<lambda>server_version.
     attempt (required_bool w result ''isSynced'') (\<lambda>is_synced.
     attempt (required_bool w result ''hasMessageId'') (\<lambda>has_message_id.
     attempt (required_bool w result ''hasNotifyCommand'') (\<lambda>has_notify_command.
     attempt (required_bool w result ''isUtxoIndexed'') (\<lambda>is_utxo_indexed.
       Inr \<lparr>ni_server_version = server_version, ni_is_synced = is_synced,
            ni_has_message_id = has_message_id, ni_has_notify_command = has_notify_command,
            ni_is_utxo_indexed = is_utxo_indexed, ni_mempool_size = get_u64 result ''mempoolSize'',
            ni_p2p_id = get_str result ''p2pId''\<rparr>))))))"

text \<open>A response over a websocket may carry its result under \<open>params\<close>.\<close>

definition normalize_rpc_response_shape :: "json \<Rightarrow> json" where
  "normalize_rpc_response_shape v =
     (case as_object v of
        None \<Rightarrow> v
      | Some m \<Rightarrow>
          if map_of m ''result'' \<noteq> None \<or> map_of m ''error'' \<noteq> None then v
          else (case map_of m ''params'' of
                  None \<Rightarrow> v
                | Some params \<Rightarrow> JObject (bt_insert ''result'' params m)))"

section \<open>Notifications\<close>

datatype parsed_notification =
    Ready chain_notification
  | VirtualChainByHashes "string list" "string list"
  | SubscriptionAck
  | SubscriptionRejected string
  | Ignore

definition normalize_notification_kind :: "string \<Rightarrow> string option" where
  "normalize_notification_kind raw =
     (if raw \<in> set [''BlockAdded'', ''blockAdded'', ''BlockAddedNotification'',
                    ''blockAddedNotification'', ''block-added'']
      then Some ''BlockAdded''
      else if raw \<in> set [''VirtualChainChanged'', ''virtualChainChanged'', ''VirtualChainChangedNotification'',
                         ''virtualChainChangedNotification'', ''virtual-chain-changed'']
      then Some ''VirtualChainChanged''
      else if raw \<in> set [''RecoveryRequired'', ''recoveryRequired'', ''recovery-required'']
      then Some ''RecoveryRequired''
      else None)"

definition parse_chain_notification_kind ::
  "wire \<Rightarrow> string \<Rightarrow> json \<Rightarrow> string \<Rightarrow> rpc_error + parsed_notification" where
  "parse_chain_notification_kind w kind v served_by =
     (let payload = unwrap_or (jget v kind) v in
      if kind = ''BlockAdded'' then
        attempt (parse_block_value w (unwrap_or (jget payload ''block'') payload) served_by)
          (\<lambda>block. Inr (Ready (BlockAdded block)))
      else if kind = ''VirtualChainChanged'' then
        (let removed = string_items payload ''removedChainBlockHashes'' in
         case get_array payload ''addedChainBlocks'' of
           Some added \<Rightarrow>
             attempt (try_map (\<lambda>b. parse_block_value w b served_by) added)
               (\<lambda>blocks. Inr (Ready (VirtualChainChanged removed blocks)))
         | None \<Rightarrow> Inr (VirtualChainByHashes removed (string_items payload ''addedChainBlockHashes'')))
      else if kind = ''RecoveryRequired'' then
        attempt (ok_or (get_u64 payload ''fromDaaScore'') (MalformedResponse (wi_print w payload))) (\<lambda>lo.
        attempt (ok_or (get_u64 payload ''toDaaScore'') (MalformedResponse (wi_print w payload))) (\<lambda>hi.
          Inr (Ready (RecoveryRequired lo hi (unwrap_or (get_str payload ''reason'') ''notification-stream'')))))
      else Inl (MalformedResponse (wi_print w v)))"

definition parse_chain_notification_envelope ::
  "wire \<Rightarrow> json \<Rightarrow> string \<Rightarrow> rpc_error + parsed_notification" where
  "parse_chain_notification_envelope w v served_by =
     (case get_str v ''kind'' of
        Some kind \<Rightarrow> parse_chain_notification_kind w kind v served_by
      | None \<Rightarrow>
     (case get_str v ''method'' of
        Some m \<Rightarrow>
          (case normalize_notification_kind m of
             Some kind \<Rightarrow>
               parse_chain_notification_kind w kind
                 (unwrap_or (or_else (jget v ''params'') (jget v ''result'')) v) served_by
           | None \<Rightarrow>
               if m \<in> {''subscribe'', ''unsubscribe''} then
                 (if jget v ''error'' \<noteq> None then
                    Inr (SubscriptionRejected
                      (unwrap_or (Option.bind (pointer v ''error'' ''message'') as_str) (wi_print w v)))
                  else if jget v ''params'' \<noteq> None \<or> jget v ''result'' \<noteq> None then Inr SubscriptionAck
                  else Inr Ignore)
               else Inr Ignore)
      | None \<Rightarrow>
     (case Option.bind (get_str v ''event'') normalize_notification_kind of
        Some kind \<Rightarrow> parse_chain_notification_kind w kind (unwrap_or (jget v ''data'') v) served_by
      | None \<Rightarrow>
          if jget v ''id'' \<noteq> None then
            (case jget v ''error'' of
               Some err \<Rightarrow> Inr (SubscriptionRejected (unwrap_or (get_str err ''message'') (wi_print w err)))
             | None \<Rightarrow> if jget v ''result'' \<noteq> None then Inr SubscriptionAck
                 else Inl (MalformedResponse (wi_print w v)))
          else Inl (MalformedResponse (wi_print w v)))))"

definition parse_chain_notification :: "wire \<Rightarrow> json \<Rightarrow> string \<Rightarrow> rpc_error + chain_notification" where
  "parse_chain_notification w v served_by =
     attempt (parse_chain_notification_envelope w v served_by) (\<lambda>p.
       case p of
         Ready n \<Rightarrow> Inr n
       | VirtualChainByHashes removed added \<Rightarrow>
           Inl (MalformedResponse ''virtual-chain notification only provided block hashes'')
       | SubscriptionAck \<Rightarrow> Inl (MalformedResponse ''message only contained a subscription acknowledgement'')
       | SubscriptionRejected message \<Rightarrow> Inl (Subscription_rejected served_by message)
       | Ignore \<Rightarrow> Inl (MalformedResponse ''message did not contain a chain notification''))"

text \<open>\<open>str::lines\<close>: lines end at a line feed, which takes a carriage return before it along.\<close>

definition strip_cr :: "string \<Rightarrow> string" where
  "strip_cr s = (if s \<noteq> [] \<and> last s = char_of (13 :: nat) then butlast s else s)"

definition rust_lines :: "string \<Rightarrow> string list" where
  "rust_lines s =
     (let ps = rust_split (char_of (10 :: nat)) s
      in map strip_cr (butlast ps) @ (if last ps = [] then [] else [last ps]))"

fun parse_lines :: "wire \<Rightarrow> string list \<Rightarrow> string \<Rightarrow> rpc_error + chain_notification list" where
  "parse_lines w [] served_by = Inr []"
| "parse_lines w (line # rest) served_by =
     (let trimmed = rust_trim line in
      if trimmed = [] then parse_lines w rest served_by
      else (case wi_parse w trimmed of
              Inl e \<Rightarrow> Inl (MalformedResponse e)
            | Inr v \<Rightarrow> attempt (parse_chain_notification w v served_by) (\<lambda>n.
                attempt (parse_lines w rest served_by) (\<lambda>ns. Inr (n # ns)))))"

definition parse_notifications_jsonl :: "wire \<Rightarrow> string \<Rightarrow> string \<Rightarrow> rpc_error + chain_notification list" where
  "parse_notifications_jsonl w jsonl served_by = parse_lines w (rust_lines jsonl) served_by"

end
