(* ===== verification/Utf8.thy ===== *)
theory Utf8
  imports Kas_Prelude
begin

text \<open>
  Bytes read as UTF-8, the way the standard library does it: \<open>String::from_utf8\<close> accepts exactly the
  well-formed byte sequences of the Unicode standard, and \<open>String::from_utf8_lossy\<close> replaces each maximal
  ill-formed part by \<open>U+FFFD\<close>. A string is the list of its bytes.
\<close>

definition string_of_bytes :: "u8 list \<Rightarrow> string" where
  "string_of_bytes bytes = map (\<lambda>b. char_of (unat b)) bytes"

definition continuation :: "u8 \<Rightarrow> bool" where
  "continuation b \<longleftrightarrow> 128 \<le> b \<and> b \<le> 191"

fun utf8_ok :: "u8 list \<Rightarrow> bool" where
  "utf8_ok [] = True"
| "utf8_ok (a # bs) =
     (if a \<le> 127 then utf8_ok bs
      else if 194 \<le> a \<and> a \<le> 223 then (case bs of b # r \<Rightarrow> continuation b \<and> utf8_ok r | _ \<Rightarrow> False)
      else if 224 \<le> a \<and> a \<le> 239 then
        (case bs of
           b # c # r \<Rightarrow> (if a = 224 then 160 \<le> b \<and> b \<le> 191 else if a = 237 then 128 \<le> b \<and> b \<le> 159
                       else continuation b) \<and> continuation c \<and> utf8_ok r
         | _ \<Rightarrow> False)
      else if 240 \<le> a \<and> a \<le> 244 then
        (case bs of
           b # c # d # r \<Rightarrow> (if a = 240 then 144 \<le> b \<and> b \<le> 191 else if a = 244 then 128 \<le> b \<and> b \<le> 143
                           else continuation b) \<and> continuation c \<and> continuation d \<and> utf8_ok r
         | _ \<Rightarrow> False)
      else False)"

text \<open>The first character of the input: whether it is well formed, and how many bytes it or the ill-formed
  part in its place takes.\<close>

fun utf8_next :: "u8 list \<Rightarrow> bool \<times> nat" where
  "utf8_next [] = (True, 0)"
| "utf8_next (a # bs) =
     (if a \<le> 127 then (True, 1)
      else if 194 \<le> a \<and> a \<le> 223 then (case bs of b # r \<Rightarrow> if continuation b then (True, 2) else (False, 1) | _ \<Rightarrow> (False, 1))
      else if 224 \<le> a \<and> a \<le> 239 then
        (case bs of
           b # r \<Rightarrow>
             if (if a = 224 then 160 \<le> b \<and> b \<le> 191 else if a = 237 then 128 \<le> b \<and> b \<le> 159 else continuation b)
             then (case r of c # r \<Rightarrow> if continuation c then (True, 3) else (False, 2) | _ \<Rightarrow> (False, 2))
             else (False, 1)
         | _ \<Rightarrow> (False, 1))
      else if 240 \<le> a \<and> a \<le> 244 then
        (case bs of
           b # r \<Rightarrow>
             if (if a = 240 then 144 \<le> b \<and> b \<le> 191 else if a = 244 then 128 \<le> b \<and> b \<le> 143 else continuation b)
             then (case r of
                 c # r \<Rightarrow>
                   if continuation c
                   then (case r of d # r \<Rightarrow> if continuation d then (True, 4) else (False, 3) | _ \<Rightarrow> (False, 3))
                   else (False, 2)
               | _ \<Rightarrow> (False, 2))
             else (False, 1)
         | _ \<Rightarrow> (False, 1))
      else (False, 1))"

lemma utf8_next_pos: "bs \<noteq> [] \<Longrightarrow> 0 < snd (utf8_next bs)"
  by (cases bs) (auto split: list.split)

definition replacement :: string where
  "replacement = string_of_bytes [239, 191, 189]"

function from_utf8_lossy :: "u8 list \<Rightarrow> string" where
  "from_utf8_lossy bs =
     (if bs = [] then []
      else (case utf8_next bs of (ok, n) \<Rightarrow>
        (if ok then string_of_bytes (take n bs) else replacement) @ from_utf8_lossy (drop n bs)))"
  by auto
termination
proof (relation "measure length")
  fix bs ok n assume "bs \<noteq> []" "(ok, n) = utf8_next bs"
  then have "0 < n" "0 < length bs" using utf8_next_pos [of bs] by (metis snd_conv, simp)
  then show "(drop n bs, bs) \<in> measure length" by simp
qed simp

declare from_utf8_lossy.simps [simp del]

lemma utf8_ok_next: "utf8_ok bs \<Longrightarrow> fst (utf8_next bs) \<and> utf8_ok (drop (snd (utf8_next bs)) bs)"
proof (cases bs)
  case (Cons a r)
  assume ok: "utf8_ok bs"
  show ?thesis
  proof (cases "a \<le> 127")
    case True
    then show ?thesis using ok by (simp add: Cons)
  next
    case one: False
    show ?thesis
    proof (cases "194 \<le> a \<and> a \<le> 223")
      case True
      then show ?thesis using ok one by (cases r) (simp_all add: Cons)
    next
      case two: False
      show ?thesis
      proof (cases "224 \<le> a \<and> a \<le> 239")
        case True
        obtain b c s where r: "r = b # c # s"
          using ok unfolding Cons utf8_ok.simps if_not_P [OF one] if_not_P [OF two] if_P [OF True]
          by (auto split: list.splits)
        show ?thesis
          using ok unfolding Cons r utf8_ok.simps utf8_next.simps if_not_P [OF one] if_not_P [OF two] if_P [OF True]
          by simp
      next
        case three: False
        have four: "240 \<le> a \<and> a \<le> 244"
          using ok unfolding Cons utf8_ok.simps if_not_P [OF one] if_not_P [OF two] if_not_P [OF three] by argo
        obtain b c d s where r: "r = b # c # d # s"
          using ok unfolding Cons utf8_ok.simps if_not_P [OF one] if_not_P [OF two] if_not_P [OF three] if_P [OF four]
          by (auto split: list.splits)
        show ?thesis
          using ok unfolding Cons r utf8_ok.simps utf8_next.simps if_not_P [OF one] if_not_P [OF two]
            if_not_P [OF three] if_P [OF four]
          by simp
      qed
    qed
  qed
qed simp

text \<open>A well-formed input loses nothing.\<close>

lemma from_utf8_lossy_ok: "utf8_ok bs \<Longrightarrow> from_utf8_lossy bs = string_of_bytes bs"
proof (induction bs rule: from_utf8_lossy.induct)
  case (1 bs)
  obtain ok n where n: "utf8_next bs = (ok, n)" by force
  then have ok: "ok" "utf8_ok (drop n bs)" using utf8_ok_next [OF 1(2)] by auto
  show ?case
  proof (cases "bs = []")
    case False
    have "from_utf8_lossy (drop n bs) = string_of_bytes (drop n bs)"
      using 1(1) [OF False n [symmetric]] ok by simp
    then have "from_utf8_lossy bs = string_of_bytes (take n bs) @ string_of_bytes (drop n bs)"
      using False n ok(1) by (simp add: from_utf8_lossy.simps [of bs])
    then show ?thesis by (simp add: string_of_bytes_def flip: map_append)
  qed (simp add: from_utf8_lossy.simps string_of_bytes_def)
qed

end
