(* ===== verification/Rpc_Client.thy ===== *)
theory Rpc_Client
  imports Rpc_Parse Utf8
begin

text \<open>
  \<open>MultiRpcClient\<close> of \<open>src/crates/kasgraph-rpc/src/lib.rs\<close>: the failover chain, requests over HTTP and
  websocket, fetching, probing and recovery, and the one-shot notification reader. The network is not
  part of the program: what the \<open>n\<close>-th request of a client is answered is a function of \<open>n\<close>, so that
  nothing is assumed of two answers; the client counts its requests. Timeouts are answers.
\<close>

section \<open>Endpoints\<close>

type_synonym duration_ms = nat

record rpc_endpoint =
  ep_label :: string
  ep_url :: string
  ep_timeout :: duration_ms

record rpc_client_config =
  cc_primary :: rpc_endpoint
  cc_backups :: "rpc_endpoint list"
  cc_health_probe_interval :: duration_ms

definition all_endpoints :: "rpc_client_config \<Rightarrow> rpc_endpoint list" where
  "all_endpoints cfg = cc_primary cfg # cc_backups cfg"

text \<open>The start index is a \<open>usize\<close> counter that wraps.\<close>

definition failover_chain :: "rpc_client_config \<Rightarrow> u64 \<Rightarrow> rpc_endpoint list" where
  "failover_chain cfg backup_start =
     cc_primary cfg #
       (if cc_backups cfg = [] then []
        else map (\<lambda>offset. cc_backups cfg ! (unat (backup_start + word_of_nat offset) mod length (cc_backups cfg)))
               [0..<length (cc_backups cfg)])"

section \<open>The client and the network\<close>

record block_audit_record =
  ba_block_hash :: string
  ba_daa :: u64
  ba_served_by :: string

record endpoint_health =
  eh_endpoint :: string
  eh_healthy :: bool

record live_rpc_capabilities =
  lc_endpoint :: string
  lc_server_info :: server_info
  lc_node_info :: node_info

record rpc_client =
  rc_config :: rpc_client_config
  rc_health :: "string \<Rightarrow> bool option"
  rc_audit :: "block_audit_record list"
  rc_next_backup :: u64
  rc_requests :: nat

definition new_client :: "rpc_client_config \<Rightarrow> rpc_client" where
  "new_client cfg = \<lparr>rc_config = cfg,
     rc_health = foldl (\<lambda>h ep. h(ep_label ep \<mapsto> True)) Map.empty (all_endpoints cfg),
     rc_audit = [], rc_next_backup = 0, rc_requests = 0\<rparr>"

text \<open>A websocket message; those the code only inspects by kind carry their \<open>Debug\<close> text.\<close>

datatype ws_message = WsText string | WsBinary "u8 list" | WsClose string | WsControl string

datatype ws_answer =
    WsConnectTimeout
  | WsConnectFailed string
  | WsSendFailed string
  | WsReplyTimeout
  | WsReplyClosed
  | WsReplyFailed string
  | WsReply ws_message

record network =
  nw_http :: "nat \<Rightarrow> rpc_endpoint \<Rightarrow> json \<Rightarrow> string + json"
  nw_ws :: "nat \<Rightarrow> rpc_endpoint \<Rightarrow> json \<Rightarrow> ws_answer"
  nw_utf8_error :: "u8 list \<Rightarrow> string"

text \<open>\<open>String::from_utf8\<close>.\<close>

definition from_utf8 :: "network \<Rightarrow> u8 list \<Rightarrow> rpc_error + string" where
  "from_utf8 net bytes =
     (if utf8_ok bytes then Inr (string_of_bytes bytes)
      else Inl (MalformedResponse (nw_utf8_error net bytes)))"

section \<open>One request\<close>

definition ws_request_json :: "network \<Rightarrow> wire \<Rightarrow> nat \<Rightarrow> rpc_endpoint \<Rightarrow> json \<Rightarrow> rpc_error + json" where
  "ws_request_json net w n ep payload =
     (let decode = (\<lambda>text. case wi_parse w text of
            Inl e \<Rightarrow> Inl (MalformedResponse e)
          | Inr v \<Rightarrow> Inr (normalize_rpc_response_shape v))
      in case nw_ws net n ep payload of
           WsConnectTimeout \<Rightarrow> Inl (Transport (ep_label ep) (''timed out connecting to '' @ ep_url ep))
         | WsConnectFailed e \<Rightarrow> Inl (Transport (ep_label ep) e)
         | WsSendFailed e \<Rightarrow> Inl (Transport (ep_label ep) e)
         | WsReplyTimeout \<Rightarrow> Inl (Transport (ep_label ep) (''timed out waiting for response from '' @ ep_url ep))
         | WsReplyClosed \<Rightarrow> Inl (Transport (ep_label ep) ''websocket closed before response'')
         | WsReplyFailed e \<Rightarrow> Inl (Transport (ep_label ep) e)
         | WsReply (WsText text) \<Rightarrow> decode text
         | WsReply (WsBinary bytes) \<Rightarrow> attempt (from_utf8 net bytes) decode
         | WsReply (WsClose dbg) \<Rightarrow> Inl (MalformedResponse (''unexpected websocket response frame: '' @ dbg))
         | WsReply (WsControl dbg) \<Rightarrow> Inl (MalformedResponse (''unexpected websocket response frame: '' @ dbg)))"

definition post_answer :: "network \<Rightarrow> wire \<Rightarrow> nat \<Rightarrow> rpc_endpoint \<Rightarrow> json \<Rightarrow> rpc_error + json" where
  "post_answer net w n ep payload =
     (if starts_with (ep_url ep) ''ws://'' \<or> starts_with (ep_url ep) ''wss://''
      then ws_request_json net w n ep payload
      else (case nw_http net n ep payload of Inl e \<Rightarrow> Inl (Transport (ep_label ep) e) | Inr v \<Rightarrow> Inr v))"

type_synonym 'a rpc = "rpc_client \<Rightarrow> (rpc_error + 'a) \<times> rpc_client"

definition post_json :: "network \<Rightarrow> wire \<Rightarrow> rpc_endpoint \<Rightarrow> json \<Rightarrow> json rpc" where
  "post_json net w ep payload c =
     (post_answer net w (rc_requests c) ep payload, c\<lparr>rc_requests := rc_requests c + 1\<rparr>)"

definition rpc_request :: "u64 \<Rightarrow> string \<Rightarrow> (string \<times> json) list \<Rightarrow> json" where
  "rpc_request i meth params = JObject
     [(''id'', JNumber (PosInt i)), (''jsonrpc'', JString ''2.0''), (''method'', JString meth),
      (''params'', JObject params)]"

definition get_block_request :: "string \<Rightarrow> json" where
  "get_block_request hash =
     rpc_request 1 ''getBlock'' [(''hash'', JString hash), (''includeTransactions'', JBool True)]"

definition fetch_block_from_endpoint :: "network \<Rightarrow> wire \<Rightarrow> string \<Rightarrow> rpc_endpoint \<Rightarrow> ingested_block rpc" where
  "fetch_block_from_endpoint net w hash ep c =
     (let (r, c) = post_json net w ep (get_block_request hash) c
      in (attempt r (\<lambda>v. parse_ingested_block w v (ep_label ep)), c))"

definition probe_endpoint :: "network \<Rightarrow> wire \<Rightarrow> rpc_endpoint \<Rightarrow> rpc_client \<Rightarrow> bool \<times> rpc_client" where
  "probe_endpoint net w ep c =
     (let (r, c) = post_json net w ep (rpc_request 1 ''getBlockDagInfo'' []) c in (\<not> isl r, c))"

definition probe_live_capabilities_from_endpoint ::
  "network \<Rightarrow> wire \<Rightarrow> rpc_endpoint \<Rightarrow> live_rpc_capabilities rpc" where
  "probe_live_capabilities_from_endpoint net w ep c =
     (let (r, c) = post_json net w ep (rpc_request 1 ''getServerInfo'' []) c
      in case attempt r (parse_server_info w) of
           Inl e \<Rightarrow> (Inl e, c)
         | Inr server \<Rightarrow>
             (let (r, c) = post_json net w ep (rpc_request 2 ''getInfo'' []) c
              in (attempt (attempt r (parse_node_info w)) (\<lambda>node.
                    Inr \<lparr>lc_endpoint = ep_label ep, lc_server_info = server, lc_node_info = node\<rparr>), c)))"

definition fetch_virtual_chain_delta_from_endpoint ::
  "network \<Rightarrow> wire \<Rightarrow> string \<Rightarrow> rpc_endpoint \<Rightarrow> (string list \<times> string list) rpc" where
  "fetch_virtual_chain_delta_from_endpoint net w start_hash ep c =
     (let (r, c) = post_json net w ep (rpc_request 1 ''getVirtualChainFromBlock''
            [(''includeAcceptedTransactionIds'', JBool False), (''startHash'', JString start_hash)]) c
      in (attempt r (parse_virtual_chain_hashes w), c))"

section \<open>Failover\<close>

definition set_endpoint_health :: "string \<Rightarrow> bool \<Rightarrow> rpc_client \<Rightarrow> rpc_client" where
  "set_endpoint_health label healthy c = c\<lparr>rc_health := (rc_health c)(label \<mapsto> healthy)\<rparr>"

definition record_audit :: "ingested_block \<Rightarrow> rpc_client \<Rightarrow> rpc_client" where
  "record_audit b c = c\<lparr>rc_audit := rc_audit c @
     [\<lparr>ba_block_hash = ib_hash b, ba_daa = ib_daa b, ba_served_by = ib_served_by b\<rparr>]\<rparr>"

text \<open>The loop the three failover methods share: the endpoints in turn, the last error kept.\<close>

fun try_endpoints :: "(rpc_endpoint \<Rightarrow> 'a rpc) \<Rightarrow> rpc_endpoint list \<Rightarrow> rpc_error option \<Rightarrow> 'a rpc" where
  "try_endpoints f [] last_err c = (Inl (unwrap_or last_err AllEndpointsFailed), c)"
| "try_endpoints f (ep # eps) last_err c =
     (case f ep c of
        (Inr x, c) \<Rightarrow> (Inr x, set_endpoint_health (ep_label ep) True c)
      | (Inl e, c) \<Rightarrow> try_endpoints f eps (Some e) (set_endpoint_health (ep_label ep) False c))"

definition next_chain :: "rpc_client \<Rightarrow> rpc_endpoint list \<times> rpc_client" where
  "next_chain c =
     (failover_chain (rc_config c) (rc_next_backup c), c\<lparr>rc_next_backup := rc_next_backup c + 1\<rparr>)"

definition fetch_block :: "network \<Rightarrow> wire \<Rightarrow> string \<Rightarrow> ingested_block rpc" where
  "fetch_block net w hash c =
     (let (chain, c) = next_chain c
      in case try_endpoints (fetch_block_from_endpoint net w hash) chain None c of
           (Inr b, c) \<Rightarrow> (Inr b, record_audit b c)
         | (Inl e, c) \<Rightarrow> (Inl e, c))"

fun fetch_blocks :: "network \<Rightarrow> wire \<Rightarrow> string list \<Rightarrow> ingested_block list rpc" where
  "fetch_blocks net w [] c = (Inr [], c)"
| "fetch_blocks net w (h # hs) c =
     (case fetch_block net w h c of
        (Inl e, c) \<Rightarrow> (Inl e, c)
      | (Inr b, c) \<Rightarrow> (let (r, c) = fetch_blocks net w hs c in (attempt r (\<lambda>bs. Inr (b # bs)), c)))"

definition probe_live_capabilities :: "network \<Rightarrow> wire \<Rightarrow> live_rpc_capabilities rpc" where
  "probe_live_capabilities net w c =
     (let (chain, c) = next_chain c
      in try_endpoints (probe_live_capabilities_from_endpoint net w) chain None c)"

fun probe_each :: "network \<Rightarrow> wire \<Rightarrow> rpc_endpoint list \<Rightarrow> rpc_client \<Rightarrow> endpoint_health list \<times> rpc_client" where
  "probe_each net w [] c = ([], c)"
| "probe_each net w (ep # eps) c =
     (let (healthy, c) = probe_endpoint net w ep c;
          (statuses, c) = probe_each net w eps (set_endpoint_health (ep_label ep) healthy c)
      in (\<lparr>eh_endpoint = ep_label ep, eh_healthy = healthy\<rparr> # statuses, c))"

definition probe_health_once :: "network \<Rightarrow> wire \<Rightarrow> rpc_client \<Rightarrow> endpoint_health list \<times> rpc_client" where
  "probe_health_once net w c = probe_each net w (all_endpoints (rc_config c)) c"

definition drain_audit_log :: "rpc_client \<Rightarrow> block_audit_record list \<times> rpc_client" where
  "drain_audit_log c = (rc_audit c, c\<lparr>rc_audit := []\<rparr>)"

definition in_daa_range :: "u64 \<Rightarrow> u64 \<Rightarrow> ingested_block \<Rightarrow> bool" where
  "in_daa_range lo hi b \<longleftrightarrow> ib_daa b \<ge> lo \<and> ib_daa b \<le> hi"

definition recover_blocks_by_hashes ::
  "network \<Rightarrow> wire \<Rightarrow> string list \<Rightarrow> u64 \<Rightarrow> u64 \<Rightarrow> chain_notification rpc" where
  "recover_blocks_by_hashes net w hashes lo hi c =
     (let (r, c) = fetch_blocks net w hashes c
      in (attempt r (\<lambda>bs. Inr (VirtualChainChanged [] (filter (in_daa_range lo hi) bs))), c))"

definition recover_blocks_in_daa_range ::
  "network \<Rightarrow> wire \<Rightarrow> string \<Rightarrow> u64 \<Rightarrow> u64 \<Rightarrow> chain_notification rpc" where
  "recover_blocks_in_daa_range net w start_hash lo hi c =
     (let (chain, c) = next_chain c
      in case try_endpoints (fetch_virtual_chain_delta_from_endpoint net w start_hash) chain None c of
           (Inl e, c) \<Rightarrow> (Inl e, c)
         | (Inr (removed, added), c) \<Rightarrow>
             (let (r, c) = fetch_blocks net w added c
              in (attempt r (\<lambda>bs. Inr (VirtualChainChanged removed (filter (in_daa_range lo hi) bs))), c)))"

section \<open>Websocket messages\<close>

definition parse_ws_message :: "network \<Rightarrow> wire \<Rightarrow> string \<Rightarrow> string \<Rightarrow> chain_notification list rpc" where
  "parse_ws_message net w text served_by c =
     (let trimmed = rust_trim text in
      if trimmed = [] then (Inr [], c)
      else if 1 < length (rust_lines trimmed) then (parse_notifications_jsonl w trimmed served_by, c)
      else
        (case wi_parse w trimmed of
           Inl e \<Rightarrow> (Inl (MalformedResponse e), c)
         | Inr v \<Rightarrow>
             (case parse_chain_notification_envelope w v served_by of
                Inl e \<Rightarrow> (Inl e, c)
              | Inr (Ready n) \<Rightarrow> (Inr [n], c)
              | Inr (VirtualChainByHashes removed added) \<Rightarrow>
                  (let (r, c) = fetch_blocks net w added c
                   in (attempt r (\<lambda>bs. Inr [VirtualChainChanged removed bs]), c))
              | Inr SubscriptionAck \<Rightarrow> (Inr [], c)
              | Inr (SubscriptionRejected message) \<Rightarrow> (Inl (Subscription_rejected served_by message), c)
              | Inr Ignore \<Rightarrow> (Inr [], c))))"

definition decode_ws_message :: "network \<Rightarrow> wire \<Rightarrow> ws_message \<Rightarrow> string \<Rightarrow> chain_notification list rpc" where
  "decode_ws_message net w m served_by c =
     (case m of
        WsText text \<Rightarrow> parse_ws_message net w text served_by c
      | WsBinary bytes \<Rightarrow>
          (case from_utf8 net bytes of
             Inl e \<Rightarrow> (Inl e, c)
           | Inr text \<Rightarrow> parse_ws_message net w text served_by c)
      | WsClose _ \<Rightarrow> (Inr [], c)
      | WsControl _ \<Rightarrow> (Inr [], c))"

text \<open>What a subscribed stream yields, item after item: a message, an error, a pause longer than the idle
  timeout, or the drop of the receiver the notifications go to. The end of the list is its end.\<close>

datatype ws_item = WsItem ws_message | WsFailed string | WsIdle | WsReceiverDropped

fun is_close :: "ws_message \<Rightarrow> bool" where
  "is_close (WsClose _) = True"
| "is_close _ = False"

fun read_loop ::
  "network \<Rightarrow> wire \<Rightarrow> string \<Rightarrow> string \<Rightarrow> nat \<Rightarrow> nat \<Rightarrow> ws_item list \<Rightarrow> chain_notification list
     \<Rightarrow> chain_notification list rpc" where
  "read_loop net w url served_by max_messages idle [] acc c = (Inr acc, c)"
| "read_loop net w url served_by max_messages idle (it # its) acc c =
     (case it of
        WsIdle \<Rightarrow> if idle = 0 then read_loop net w url served_by max_messages idle its acc c else (Inr acc, c)
      | WsReceiverDropped \<Rightarrow> read_loop net w url served_by max_messages idle its acc c
      | WsFailed e \<Rightarrow> (Inl (Transport url e), c)
      | WsItem m \<Rightarrow>
          if is_close m then (Inr acc, c)
          else
            (case decode_ws_message net w m served_by c of
               (Inl e, c) \<Rightarrow> (Inl e, c)
             | (Inr ns, c) \<Rightarrow>
                 let acc = acc @ ns in
                 if max_messages \<noteq> 0 \<and> max_messages \<le> length acc then (Inr acc, c)
                 else read_loop net w url served_by max_messages idle its acc c))"

text \<open>A connection: the error connecting may give, the one sending a payload may give, and the items it yields.\<close>

record ws_connection =
  cn_connect :: "string option"
  cn_send :: "json \<Rightarrow> string option"
  cn_items :: "ws_item list"

definition notification_subscriptions :: "json list" where
  "notification_subscriptions =
     [rpc_request 1 ''subscribe'' [(''BlockAdded'', JObject [])],
      rpc_request 2 ''subscribe'' [(''VirtualChainChanged'', JObject [(''include_accepted_transaction_ids'', JBool False)])]]"

fun send_payloads :: "(json \<Rightarrow> string option) \<Rightarrow> string \<Rightarrow> json list \<Rightarrow> rpc_error + unit" where
  "send_payloads send url [] = Inr ()"
| "send_payloads send url (payload # ps) =
     (case send payload of Some e \<Rightarrow> Inl (Transport url e) | None \<Rightarrow> send_payloads send url ps)"

definition send_notification_subscriptions :: "(json \<Rightarrow> string option) \<Rightarrow> string \<Rightarrow> rpc_error + unit" where
  "send_notification_subscriptions send url = send_payloads send url notification_subscriptions"

definition read_notifications_ws ::
  "network \<Rightarrow> wire \<Rightarrow> string \<Rightarrow> string \<Rightarrow> nat \<Rightarrow> nat \<Rightarrow> ws_connection \<Rightarrow> chain_notification list rpc" where
  "read_notifications_ws net w url served_by max_messages idle conn c =
     (case cn_connect conn of
        Some e \<Rightarrow> (Inl (Transport url e), c)
      | None \<Rightarrow>
          (case send_notification_subscriptions (cn_send conn) url of
             Inl e \<Rightarrow> (Inl e, c)
           | Inr _ \<Rightarrow>
               (let (r, c) = read_loop net w url served_by max_messages idle (cn_items conn) [] c
                in (attempt r (\<lambda>ns. Inr (take max_messages ns)), c))))"

end
