(* ===== verification/Subscription.thy ===== *)
theory Subscription
  imports Rpc_Client
begin

text \<open>
  The long-lived subscription of \<open>src/crates/kasgraph-rpc/src/lib.rs\<close>: the driver that forwards the
  notifications of one connection after another, announces the scores it may have missed across a
  reconnect, and backs off after errors. The channel to the consumer takes a number of notifications
  before its receiver is dropped (\<^const>\<open>None\<close>: it never is); what the connections yield is a list.
\<close>

section \<open>The driver\<close>

text \<open>The product of a delay and the multiplier, an \<open>f64\<close>, is a function of the delay in milliseconds.\<close>

record subscription_backoff =
  sb_initial_delay :: duration_ms
  sb_max_delay :: duration_ms
  sb_scale :: "duration_ms \<Rightarrow> nat"
  sb_max_attempts :: u32

text \<open>The default multiplier is 2.0, an exact product.\<close>

definition default_backoff :: subscription_backoff where
  "default_backoff = \<lparr>sb_initial_delay = 500, sb_max_delay = 30000, sb_scale = (\<lambda>ms. 2 * ms), sb_max_attempts = 0\<rparr>"

datatype subscription_driver_event =
    Connected string u64
  | ReconnectScheduled string u64 u64 string "u64 option"
  | GapDetected string u64 u64 u64
  | Stopped string u64 string "u64 option"

record driver_state =
  ds_last_emitted :: "u64 option"
  ds_pending_gap_check :: bool
  ds_reconnects :: u64

definition initial_driver_state :: driver_state where
  "initial_driver_state = \<lparr>ds_last_emitted = None, ds_pending_gap_check = False, ds_reconnects = 0\<rparr>"

text \<open>The driver with its surroundings: the client, the notifications sent, how many more the receiver
  takes, the events emitted and the sleeps.\<close>

record driver =
  dr_state :: driver_state
  dr_client :: rpc_client
  dr_sent :: "chain_notification list"
  dr_left :: "nat option"
  dr_events :: "subscription_driver_event list"
  dr_sleeps :: "duration_ms list"

definition start_driver :: "rpc_client \<Rightarrow> nat option \<Rightarrow> driver" where
  "start_driver c left = \<lparr>dr_state = initial_driver_state, dr_client = c, dr_sent = [], dr_left = left,
     dr_events = [], dr_sleeps = []\<rparr>"

definition emit_driver_event :: "subscription_driver_event \<Rightarrow> driver \<Rightarrow> driver" where
  "emit_driver_event e d = d\<lparr>dr_events := dr_events d @ [e]\<rparr>"

definition send_to :: "chain_notification \<Rightarrow> driver \<Rightarrow> bool \<times> driver" where
  "send_to n d =
     (if dr_left d = Some 0 then (False, d)
      else (True, d\<lparr>dr_sent := dr_sent d @ [n], dr_left := map_option (\<lambda>k. k - 1) (dr_left d)\<rparr>))"

section \<open>Scores of a notification\<close>

definition min_of :: "u64 list \<Rightarrow> u64 option" where
  "min_of xs = (if xs = [] then None else Some (Min (set xs)))"

definition max_of :: "u64 list \<Rightarrow> u64 option" where
  "max_of xs = (if xs = [] then None else Some (Max (set xs)))"

fun first_daa_of :: "chain_notification \<Rightarrow> u64 option" where
  "first_daa_of (BlockAdded b) = Some (ib_daa b)"
| "first_daa_of (VirtualChainChanged removed added) = min_of (map ib_daa added)"
| "first_daa_of (RecoveryRequired lo hi reason) = None"

fun max_daa_of :: "chain_notification \<Rightarrow> u64 option" where
  "max_daa_of (BlockAdded b) = Some (ib_daa b)"
| "max_daa_of (VirtualChainChanged removed added) = max_of (map ib_daa added)"
| "max_daa_of (RecoveryRequired lo hi reason) = None"

fun next_daa_after :: "chain_notification \<Rightarrow> u64 \<Rightarrow> u64 option" where
  "next_daa_after (BlockAdded b) threshold = (if ib_daa b > threshold then Some (ib_daa b) else None)"
| "next_daa_after (VirtualChainChanged removed added) threshold =
     min_of (filter (\<lambda>daa. daa > threshold) (map ib_daa added))"
| "next_daa_after (RecoveryRequired lo hi reason) threshold = None"

section \<open>One connection\<close>

definition gap_reason :: "u64 \<Rightarrow> u64 \<Rightarrow> string" where
  "gap_reason prev_daa next_daa = ''subscription gap after reconnect: last emitted DAA '' @ u64_to_string prev_daa @
     '', next observed DAA '' @ u64_to_string next_daa"

definition cleared :: "driver \<Rightarrow> driver" where
  "cleared d = d\<lparr>dr_state := (dr_state d)\<lparr>ds_pending_gap_check := False\<rparr>\<rparr>"

text \<open>The gap check before a notification is forwarded: \<^const>\<open>False\<close> when the receiver is gone.\<close>

definition gap_check :: "string \<Rightarrow> chain_notification \<Rightarrow> driver \<Rightarrow> bool \<times> driver" where
  "gap_check url n d =
     (if \<not> ds_pending_gap_check (dr_state d) then (True, d)
      else (case ds_last_emitted (dr_state d) of
              Some prev_daa \<Rightarrow>
                (case next_daa_after n prev_daa of
                   None \<Rightarrow> (True, d)
                 | Some next_new \<Rightarrow>
                     if next_new > u64_saturating_add prev_daa 1 then
                       (let lo = u64_saturating_add prev_daa 1; hi = u64_saturating_sub next_new 1;
                            d = emit_driver_event (GapDetected url (ds_reconnects (dr_state d)) lo hi) d;
                            (taken, d) = send_to (RecoveryRequired lo hi (gap_reason prev_daa next_new)) d
                        in if taken then (True, cleared d) else (False, d))
                     else (True, cleared d))
            | None \<Rightarrow> (True, if first_daa_of n \<noteq> None then cleared d else d)))"

definition note_daa :: "chain_notification \<Rightarrow> driver \<Rightarrow> driver" where
  "note_daa n d =
     (case max_daa_of n of
        None \<Rightarrow> d
      | Some daa \<Rightarrow> d\<lparr>dr_state := (dr_state d)\<lparr>ds_last_emitted :=
          Some (case ds_last_emitted (dr_state d) of None \<Rightarrow> daa | Some prev \<Rightarrow> max prev daa)\<rparr>\<rparr>)"

fun forward :: "string \<Rightarrow> chain_notification list \<Rightarrow> driver \<Rightarrow> bool \<times> driver" where
  "forward url [] d = (True, d)"
| "forward url (n # ns) d =
     (case gap_check url n d of
        (False, d) \<Rightarrow> (False, d)
      | (True, d) \<Rightarrow>
          (case send_to n (note_daa n d) of
             (False, d) \<Rightarrow> (False, d)
           | (True, d) \<Rightarrow> forward url ns d))"

fun read_items ::
  "network \<Rightarrow> wire \<Rightarrow> string \<Rightarrow> string \<Rightarrow> ws_item list \<Rightarrow> driver \<Rightarrow> (rpc_error + unit) \<times> driver" where
  "read_items net w url served_by [] d = (Inr (), d)"
| "read_items net w url served_by (it # its) d =
     (if dr_left d = Some 0 then (Inr (), d)
      else case it of
        WsReceiverDropped \<Rightarrow> (Inr (), d\<lparr>dr_left := Some 0\<rparr>)
      | WsFailed e \<Rightarrow> (Inl (Transport url e), d)
      | WsIdle \<Rightarrow> read_items net w url served_by its d
      | WsItem m \<Rightarrow>
          if is_close m then (Inr (), d)
          else
            (case decode_ws_message net w m served_by (dr_client d) of
               (Inl e, c) \<Rightarrow> (Inl e, d\<lparr>dr_client := c\<rparr>)
             | (Inr ns, c) \<Rightarrow>
                 (case forward url ns (d\<lparr>dr_client := c\<rparr>) of
                    (False, d) \<Rightarrow> (Inr (), d)
                  | (True, d) \<Rightarrow> read_items net w url served_by its d)))"

definition run_subscription_once ::
  "network \<Rightarrow> wire \<Rightarrow> string \<Rightarrow> string \<Rightarrow> ws_connection \<Rightarrow> driver \<Rightarrow> (rpc_error + unit) \<times> driver" where
  "run_subscription_once net w url served_by conn d =
     (case cn_connect conn of
        Some e \<Rightarrow> (Inl (Transport url e), d)
      | None \<Rightarrow>
          (case send_notification_subscriptions (cn_send conn) url of
             Inl e \<Rightarrow> (Inl e, d)
           | Inr _ \<Rightarrow> read_items net w url served_by (cn_items conn) d))"

section \<open>Reconnecting\<close>

text \<open>The \<open>Display\<close> of \<open>RpcError\<close>.\<close>

fun rpc_error_text :: "rpc_error \<Rightarrow> string" where
  "rpc_error_text AllEndpointsFailed = ''all configured RPC endpoints are unreachable''"
| "rpc_error_text (Transport ep src) = ''RPC transport error against '' @ ep @ '': '' @ src"
| "rpc_error_text (Subscription_rejected ep message) =
     ''websocket subscription rejected by '' @ ep @ '': '' @ message"
| "rpc_error_text (MalformedResponse m) = ''RPC returned a malformed response: '' @ m"

definition reconnecting :: "driver \<Rightarrow> driver" where
  "reconnecting d = d\<lparr>dr_state := (dr_state d)\<lparr>ds_pending_gap_check := True,
     ds_reconnects := u64_saturating_add (ds_reconnects (dr_state d)) 1\<rparr>\<rparr>"

definition scaled_delay :: "subscription_backoff \<Rightarrow> duration_ms \<Rightarrow> duration_ms" where
  "scaled_delay b delay = min (max 1 (sb_scale b delay)) (sb_max_delay b)"

definition u32_saturating_inc :: "u32 \<Rightarrow> u32" where
  "u32_saturating_inc a = (if a = - 1 then a else a + 1)"

text \<open>The driver loop over the connections it makes; each comes with a flag, whether the receiver was
  dropped before it. The result tells whether the driver has returned; it is \<^const>\<open>False\<close> when the
  connections given are used up.\<close>

fun run_continuous_subscription ::
  "network \<Rightarrow> wire \<Rightarrow> string \<Rightarrow> string \<Rightarrow> subscription_backoff \<Rightarrow> (bool \<times> ws_connection) list
     \<Rightarrow> u32 \<Rightarrow> duration_ms \<Rightarrow> driver \<Rightarrow> bool \<times> driver" where
  "run_continuous_subscription net w url served_by b [] n delay d = (False, d)"
| "run_continuous_subscription net w url served_by b ((dropped, conn) # conns) n delay d =
     (let d = (if dropped then d\<lparr>dr_left := Some 0\<rparr> else d) in
      if dr_left d = Some 0 then
        (True, emit_driver_event (Stopped url (ds_reconnects (dr_state d)) ''downstream receiver closed''
           (ds_last_emitted (dr_state d))) d)
      else
        (let d = emit_driver_event (Connected url (ds_reconnects (dr_state d))) d in
         case run_subscription_once net w url served_by conn d of
           (Inr _, d) \<Rightarrow>
             (let d = reconnecting d;
                  d = emit_driver_event (ReconnectScheduled url (ds_reconnects (dr_state d)) 0 ''stream ended cleanly''
                        (ds_last_emitted (dr_state d))) d
              in run_continuous_subscription net w url served_by b conns 0 (sb_initial_delay b) d)
         | (Inl e, d) \<Rightarrow>
             (let n = u32_saturating_inc n in
              if sb_max_attempts b \<noteq> 0 \<and> n > sb_max_attempts b then
                (True, emit_driver_event (Stopped url (ds_reconnects (dr_state d))
                   (''max attempts exhausted: '' @ rpc_error_text e) (ds_last_emitted (dr_state d))) d)
              else
                (let d = reconnecting d;
                     d = emit_driver_event (ReconnectScheduled url (ds_reconnects (dr_state d)) (word_of_nat delay)
                           (rpc_error_text e) (ds_last_emitted (dr_state d))) d;
                     d = d\<lparr>dr_sleeps := dr_sleeps d @ [delay]\<rparr>
                 in run_continuous_subscription net w url served_by b conns n (scaled_delay b delay) d))))"

end
