(* ===== verification/Node_Config.thy ===== *)
theory Node_Config
  imports Ingestion Subscription
begin

text \<open>
  The configuration of the node (\<open>NodeConfig::from_env\<close> and its parsers in
  \<open>src/crates/kasgraph-node/src/main.rs\<close>) and the client built from it. The environment is a function
  from a variable's name to its value, \<^const>\<open>None\<close> when \<open>env::var\<close> fails. Parsing an \<open>f64\<close> is a parameter
  that gives the function multiplying a delay by it.
\<close>

section \<open>Defaults and types\<close>

definition DEFAULT_SUBGRAPH :: string where "DEFAULT_SUBGRAPH = ''kasgraph_scaffold''"
definition DEFAULT_BLOCK_HASH :: string where "DEFAULT_BLOCK_HASH = ''scaffold-block-0001''"
definition DEFAULT_SERVED_BY :: string where "DEFAULT_SERVED_BY = ''bootstrap''"
definition DEFAULT_PRIMARY_RPC_LABEL :: string where "DEFAULT_PRIMARY_RPC_LABEL = ''primary''"
definition DEFAULT_RPC_TIMEOUT_MS :: u64 where "DEFAULT_RPC_TIMEOUT_MS = 1500"
definition DEFAULT_HEALTH_PROBE_INTERVAL_MS :: u64 where "DEFAULT_HEALTH_PROBE_INTERVAL_MS = 10000"
definition DEFAULT_FINALITY_DEPTH :: u64 where "DEFAULT_FINALITY_DEPTH = 86400"

record rpc_config =
  rp_primary_url :: string
  rp_primary_label :: string
  rp_timeout_ms :: u64
  rp_health_probe_interval_ms :: u64
  rp_backup_urls :: "string list"

record recovery_config =
  rv_removed_block_hashes :: "string list"
  rv_recovery_block_hashes :: "string list"
  rv_recovery_range :: "(u64 \<times> u64) option"

record notification_stream_config =
  ns_jsonl :: "string option"
  ns_ws_url :: "string option"
  ns_served_by :: string
  ns_max_messages :: u64
  ns_idle_timeout_ms :: u64

datatype ingest_mode = Bootstrap | Continuous

record continuous_config =
  co_ws_url :: "string option"
  co_served_by :: string
  co_max_messages :: u64
  co_channel_capacity :: u64
  co_backoff_initial_ms :: u64
  co_backoff_max_ms :: u64
  co_backoff_multiplier :: "duration_ms \<Rightarrow> nat"
  co_backoff_max_attempts :: u32
  co_gap_recovery_block_hashes :: "string list"

definition default_ingest_mode :: ingest_mode where
  "default_ingest_mode = Bootstrap"

definition default_continuous_config :: continuous_config where
  "default_continuous_config =
     \<lparr>co_ws_url = None, co_served_by = ''wrpc'', co_max_messages = 0, co_channel_capacity = 64, co_backoff_initial_ms = 500,
      co_backoff_max_ms = 30000, co_backoff_multiplier = (\<lambda>ms. 2 * ms), co_backoff_max_attempts = 0,
      co_gap_recovery_block_hashes = []\<rparr>"

record node_config =
  nc_database_url :: "string option"
  nc_subgraph :: string
  nc_block_hashes :: "string list"
  nc_rpc :: "rpc_config option"
  nc_recovery :: recovery_config
  nc_notification_stream :: "notification_stream_config option"
  nc_bootstrap_block :: bootstrap_block
  nc_ingest_mode :: ingest_mode
  nc_continuous :: continuous_config
  nc_finality_depth :: "u64 option"

section \<open>Parsers\<close>

definition parse_csv_env :: "string \<Rightarrow> string list" where
  "parse_csv_env value = filter (\<lambda>part. part \<noteq> []) (map rust_trim (rust_split CHR '','' value))"

definition parse_recovery_range :: "string option \<Rightarrow> (u64 \<times> u64) option" where
  "parse_recovery_range value =
     Option.bind value (\<lambda>value. Option.bind (split_once CHR '':'' value) (\<lambda>(lo, hi).
       Option.bind (rust_parse_u64 (rust_trim lo)) (\<lambda>lo.
       Option.bind (rust_parse_u64 (rust_trim hi)) (\<lambda>hi. Some (lo, hi)))))"

definition parse_finality_depth :: "string option \<Rightarrow> u64 option" where
  "parse_finality_depth value =
     (case map_option rust_trim value of
        None \<Rightarrow> Some DEFAULT_FINALITY_DEPTH
      | Some raw \<Rightarrow>
          if raw = [] then Some DEFAULT_FINALITY_DEPTH
          else if raw \<in> set [''off'', ''none'', ''disabled'', ''false'', ''0''] then None
          else rust_parse_u64 raw)"

text \<open>\<open>str::parse\<close> at the other integer types the configuration uses.\<close>

definition rust_parse_u32 :: "string \<Rightarrow> u32 option" where
  "rust_parse_u32 s = Option.bind (rust_parse_u64 s) (\<lambda>n. if unat n < 2 ^ 32 then Some (ucast n) else None)"

definition rust_parse_i64 :: "string \<Rightarrow> i64 option" where
  "rust_parse_i64 s =
     (case s of
        c # cs \<Rightarrow>
          if c = CHR ''-'' then
            (if cs = [] then None
             else Option.bind (parse_digits cs 0) (\<lambda>n. if unat n \<le> 2 ^ 63 then Some (- int (unat n)) else None))
          else Option.bind (rust_parse_u64 s) i64_try_from_u64
      | [] \<Rightarrow> None)"

section \<open>The configuration from the environment\<close>

type_synonym environment = "string \<Rightarrow> string option"

definition env_or :: "environment \<Rightarrow> string \<Rightarrow> string \<Rightarrow> string" where
  "env_or env name d = unwrap_or (env name) d"

definition env_parsed :: "(string \<Rightarrow> 'a option) \<Rightarrow> environment \<Rightarrow> string \<Rightarrow> 'a \<Rightarrow> 'a" where
  "env_parsed parse env name d = unwrap_or (Option.bind (env name) parse) d"

definition env_csv :: "environment \<Rightarrow> string \<Rightarrow> string list" where
  "env_csv env name = unwrap_or (map_option parse_csv_env (env name)) []"

definition rpc_config_from_env :: "environment \<Rightarrow> rpc_config option" where
  "rpc_config_from_env env =
     map_option (\<lambda>primary_url.
       \<lparr>rp_primary_url = primary_url,
        rp_primary_label = env_or env ''KASGRAPH_RPC_PRIMARY_LABEL'' DEFAULT_PRIMARY_RPC_LABEL,
        rp_timeout_ms = env_parsed rust_parse_u64 env ''KASGRAPH_RPC_TIMEOUT_MS'' DEFAULT_RPC_TIMEOUT_MS,
        rp_health_probe_interval_ms =
          env_parsed rust_parse_u64 env ''KASGRAPH_RPC_HEALTH_PROBE_INTERVAL_MS'' DEFAULT_HEALTH_PROBE_INTERVAL_MS,
        rp_backup_urls = env_csv env ''KASGRAPH_RPC_BACKUP_URLS''\<rparr>)
     (env ''KASGRAPH_RPC_PRIMARY_URL'')"

definition notification_stream_from_env :: "environment \<Rightarrow> notification_stream_config option" where
  "notification_stream_from_env env =
     (case (env ''KASGRAPH_NOTIFICATION_JSONL'', env ''KASGRAPH_NOTIFICATION_WS_URL'') of
        (None, None) \<Rightarrow> None
      | (jsonl, ws_url) \<Rightarrow> Some
          \<lparr>ns_jsonl = jsonl, ns_ws_url = ws_url,
           ns_served_by = env_or env ''KASGRAPH_NOTIFICATION_SOURCE_LABEL'' ''stream'',
           ns_max_messages = env_parsed rust_parse_u64 env ''KASGRAPH_NOTIFICATION_MAX_MESSAGES'' 64,
           ns_idle_timeout_ms = env_parsed rust_parse_u64 env ''KASGRAPH_NOTIFICATION_IDLE_TIMEOUT_MS'' 0\<rparr>)"

definition continuous_from_env ::
  "(string \<Rightarrow> (duration_ms \<Rightarrow> nat) option) \<Rightarrow> environment \<Rightarrow> continuous_config" where
  "continuous_from_env parse_f64 env =
     \<lparr>co_ws_url = env ''KASGRAPH_NOTIFICATION_WS_URL'',
      co_served_by = env_or env ''KASGRAPH_NOTIFICATION_SOURCE_LABEL'' ''wrpc'',
      co_max_messages = env_parsed rust_parse_u64 env ''KASGRAPH_CONTINUOUS_MAX_MESSAGES'' 0,
      co_channel_capacity = env_parsed rust_parse_u64 env ''KASGRAPH_CONTINUOUS_CHANNEL_CAPACITY'' 64,
      co_backoff_initial_ms = env_parsed rust_parse_u64 env ''KASGRAPH_CONTINUOUS_BACKOFF_INITIAL_MS'' 500,
      co_backoff_max_ms = env_parsed rust_parse_u64 env ''KASGRAPH_CONTINUOUS_BACKOFF_MAX_MS'' 30000,
      co_backoff_multiplier = env_parsed parse_f64 env ''KASGRAPH_CONTINUOUS_BACKOFF_MULTIPLIER'' (\<lambda>d. 2 * d),
      co_backoff_max_attempts = env_parsed rust_parse_u32 env ''KASGRAPH_CONTINUOUS_BACKOFF_MAX_ATTEMPTS'' 0,
      co_gap_recovery_block_hashes = env_csv env ''KASGRAPH_GAP_RECOVERY_BLOCK_HASHES''\<rparr>"

definition bootstrap_block_from_env :: "environment \<Rightarrow> bootstrap_block" where
  "bootstrap_block_from_env env =
     \<lparr>bb_hash = env_or env ''KASGRAPH_BOOTSTRAP_BLOCK_HASH'' DEFAULT_BLOCK_HASH,
      bb_daa = env_parsed rust_parse_i64 env ''KASGRAPH_BOOTSTRAP_DAA_SCORE'' 1,
      bb_blue = env_parsed rust_parse_i64 env ''KASGRAPH_BOOTSTRAP_BLUE_SCORE'' 1,
      bb_served_by = env_or env ''KASGRAPH_BOOTSTRAP_SERVED_BY'' DEFAULT_SERVED_BY,
      bb_finalized = unwrap_or (map_option (\<lambda>v. v \<in> set [''1'', ''true'', ''TRUE'', ''True''])
        (env ''KASGRAPH_BOOTSTRAP_FINALIZED'')) True,
      bb_bytes = as_bytes (env_or env ''KASGRAPH_BOOTSTRAP_ENTITY_BYTES'' ''scaffold-entity-state''),
      bb_outputs = [], bb_inputs = [], bb_hits = []\<rparr>"

definition from_env :: "(string \<Rightarrow> (duration_ms \<Rightarrow> nat) option) \<Rightarrow> environment \<Rightarrow> node_config" where
  "from_env parse_f64 env =
     \<lparr>nc_database_url = env ''KASGRAPH_DATABASE_URL'',
      nc_subgraph = env_or env ''KASGRAPH_SUBGRAPH'' DEFAULT_SUBGRAPH,
      nc_block_hashes =
        (let values = env_csv env ''KASGRAPH_BLOCK_HASHES''
         in if values \<noteq> [] then values else [env_or env ''KASGRAPH_BLOCK_HASH'' DEFAULT_BLOCK_HASH]),
      nc_rpc = rpc_config_from_env env,
      nc_recovery = \<lparr>rv_removed_block_hashes = env_csv env ''KASGRAPH_REMOVED_BLOCK_HASHES'',
        rv_recovery_block_hashes = env_csv env ''KASGRAPH_RECOVERY_BLOCK_HASHES'',
        rv_recovery_range = parse_recovery_range (env ''KASGRAPH_RECOVERY_RANGE'')\<rparr>,
      nc_notification_stream = notification_stream_from_env env,
      nc_bootstrap_block = bootstrap_block_from_env env,
      nc_ingest_mode = (if env ''KASGRAPH_INGEST_MODE'' = Some ''continuous'' then Continuous else Bootstrap),
      nc_continuous = continuous_from_env parse_f64 env,
      nc_finality_depth = parse_finality_depth (env ''KASGRAPH_FINALITY_DEPTH'')\<rparr>"

section \<open>The client of a configuration\<close>

definition build_rpc_client :: "rpc_config \<Rightarrow> rpc_client" where
  "build_rpc_client cfg = new_client
     \<lparr>cc_primary = \<lparr>ep_label = rp_primary_label cfg, ep_url = rp_primary_url cfg, ep_timeout = unat (rp_timeout_ms cfg)\<rparr>,
      cc_backups = map (\<lambda>(index, url). \<lparr>ep_label = ''backup-'' @ nat_to_string (index + 1), ep_url = url,
                                         ep_timeout = unat (rp_timeout_ms cfg)\<rparr>)
        (List.enumerate 0 (rp_backup_urls cfg)),
      cc_health_probe_interval = unat (rp_health_probe_interval_ms cfg)\<rparr>"

text \<open>A client for a websocket URL alone, for a node without a configured endpoint.\<close>

definition single_endpoint_client :: "string \<Rightarrow> string \<Rightarrow> rpc_client" where
  "single_endpoint_client ws_url served_by = build_rpc_client
     \<lparr>rp_primary_url = ws_url, rp_primary_label = served_by, rp_timeout_ms = DEFAULT_RPC_TIMEOUT_MS,
      rp_health_probe_interval_ms = DEFAULT_HEALTH_PROBE_INTERVAL_MS, rp_backup_urls = []\<rparr>"

definition backoff_of :: "continuous_config \<Rightarrow> subscription_backoff" where
  "backoff_of co = \<lparr>sb_initial_delay = unat (co_backoff_initial_ms co), sb_max_delay = unat (co_backoff_max_ms co),
     sb_scale = co_backoff_multiplier co, sb_max_attempts = co_backoff_max_attempts co\<rparr>"

datatype capability_error =
    Unsupported_api_version string u64
  | No_message_id string
  | No_notify_command string

definition validate_live_capabilities :: "live_rpc_capabilities \<Rightarrow> capability_error + unit" where
  "validate_live_capabilities cap =
     (if si_rpc_api_version (lc_server_info cap) < 1 then
        Inl (Unsupported_api_version (lc_endpoint cap) (si_rpc_api_version (lc_server_info cap)))
      else if \<not> ni_has_message_id (lc_node_info cap) then Inl (No_message_id (lc_endpoint cap))
      else if \<not> ni_has_notify_command (lc_node_info cap) then Inl (No_notify_command (lc_endpoint cap))
      else Inr ())"

text \<open>A finality depth that does not parse is the same as none: only blocks the RPC declares final commit.\<close>

lemma bad_finality_depth: "parse_finality_depth (Some ''86_400'') = None"
  by code_simp

end
