(* ===== verification/Store_Db.thy ===== *)
theory Store_Db
  imports Store_Legacy Poi Chain_Types
begin

text \<open>
  The tables of \<open>src/crates/kasgraph-store/src/lib.rs\<close> other than the two legacy journals: the
  registry of subgraphs, the covenant lineage, POI checkpoints, audits, committed blocks, detected
  patterns, and per subgraph a schema with the entity versions, the covenant outputs and the covenant
  spends. A store is the value of all of them; a statement against a schema that was never created is
  an error. The connection, its pool and its failures are left out, and so are the wall-clock columns
  and the trigger that notifies the API. Text columns are ordered by their bytes.
\<close>

section \<open>Subgraph ids and rows\<close>

definition subgraph_id_new :: "string \<Rightarrow> store_error + string" where
  "subgraph_id_new value =
     (if value = [] \<or> \<not> list_all (\<lambda>c. is_ascii_lowercase c \<or> is_ascii_digit c \<or> c = CHR ''_'') value
      then Inl (Invalid_subgraph_id value) else Inr value)"

record poi_row =
  pr_subgraph :: string
  pr_daa :: i64
  pr_hash :: "u8 list"

record lineage_head =
  lh_covenant_id :: string
  lh_subgraph :: string
  lh_genesis_tx :: string
  lh_current_utxo :: string
  lh_last_seen_daa :: i64
  lh_count :: i32

record lineage_row =
  lr_covenant_id :: string
  lr_subgraph :: string
  lr_seq :: i32
  lr_tx_hash :: string
  lr_output_index :: i32
  lr_parent :: "string option"
  lr_state :: "u8 list"
  lr_daa :: i64

record subgraph_deployment =
  sd_subgraph :: string
  sd_schema_sdl :: string
  sd_manifest :: json
  sd_wasm_sha256 :: "string option"
  sd_wasm_bytes :: "u8 list option"

record deployment_row = subgraph_deployment +
  dr_status :: string

record rpc_audit =
  ra_block_hash :: string
  ra_daa :: i64
  ra_served_by :: string

record committed_record =
  cr_subgraph :: string
  cr_block_hash :: string
  cr_daa :: i64
  cr_served_by :: string

record unwind_report =
  ur_removed :: "string list"
  ur_audit_id :: i64

record reorg_audit =
  rg_id :: i64
  rg_subgraph :: string
  rg_at_daa :: i64
  rg_removed :: "string list"
  rg_count :: i32
  rg_reason :: string

record detected_record =
  dt_subgraph :: string
  dt_block_hash :: string
  dt_daa :: i64
  dt_tx_hash :: string
  dt_output_index :: i32
  dt_kind :: string
  dt_covenant_id :: "string option"
  dt_payload :: json

record entity_version =
  ev_subgraph :: string
  ev_type :: string
  ev_id :: string
  ev_block_daa :: i64
  ev_state :: json

record snapshot_row =
  sr_type :: string
  sr_id :: string
  sr_payload :: json

record covenant_utxo =
  cu_subgraph :: string
  cu_tx_hash :: string
  cu_output_index :: i32
  cu_daa :: i64
  cu_kind :: string
  cu_covenant_id :: "string option"
  cu_value :: i64
  cu_state :: json

record utxo_match =
  um_kind :: string
  um_covenant_id :: "string option"
  um_value :: i64
  um_state :: json

record covenant_spend =
  cs_subgraph :: string
  cs_spending_tx :: string
  cs_previous_tx :: string
  cs_previous_index :: i32
  cs_daa :: i64
  cs_kind :: string
  cs_covenant_id :: "string option"
  cs_value :: i64
  cs_successor :: "string option"

section \<open>The store\<close>

text \<open>The three tables of a subgraph's schema, and the whole database. The schema of a row is the table
  it is in; the records keep the column-less \<open>subgraph\<close> field of the Rust records.\<close>

record schema_tables =
  st_entities :: "entity_version list"
  st_utxos :: "covenant_utxo list"
  st_spends :: "covenant_spend list"

record store_db =
  db_deployments :: "deployment_row list"
  db_heads :: "lineage_head list"
  db_rows :: "lineage_row list"
  db_poi :: "poi_row list"
  db_audit :: "rpc_audit list"
  db_committed :: "committed_record list"
  db_reorgs :: "reorg_audit list"
  db_next_reorg :: i64
  db_detected :: "detected_record list"
  db_schemas :: "(string \<times> schema_tables) list"

definition empty_schema :: schema_tables where
  "empty_schema = \<lparr>st_entities = [], st_utxos = [], st_spends = []\<rparr>"

definition empty_db :: store_db where
  "empty_db = \<lparr>db_deployments = [], db_heads = [], db_rows = [], db_poi = [], db_audit = [],
     db_committed = [], db_reorgs = [], db_next_reorg = 1, db_detected = [], db_schemas = []\<rparr>"

definition query_schema :: "store_db \<Rightarrow> string \<Rightarrow> (schema_tables \<Rightarrow> 'a) \<Rightarrow> store_error + 'a" where
  "query_schema db sg f =
     (case map_of (db_schemas db) sg of None \<Rightarrow> Inl Query_error | Some t \<Rightarrow> Inr (f t))"

definition execute_schema ::
  "store_db \<Rightarrow> string \<Rightarrow> (schema_tables \<Rightarrow> schema_tables) \<Rightarrow> store_error + store_db" where
  "execute_schema db sg f =
     (case map_of (db_schemas db) sg of
        None \<Rightarrow> Inl Query_error
      | Some t \<Rightarrow> Inr (db\<lparr>db_schemas := bt_insert sg (f t) (db_schemas db)\<rparr>))"

text \<open>The count a \<open>DELETE\<close> reports, with the store it leaves.\<close>

definition delete_schema ::
  "store_db \<Rightarrow> string \<Rightarrow> (schema_tables \<Rightarrow> nat) \<Rightarrow> (schema_tables \<Rightarrow> schema_tables) \<Rightarrow> store_error + nat \<times> store_db" where
  "delete_schema db sg affected f =
     (case map_of (db_schemas db) sg of
        None \<Rightarrow> Inl Query_error
      | Some t \<Rightarrow> Inr (affected t, db\<lparr>db_schemas := bt_insert sg (f t) (db_schemas db)\<rparr>))"

definition ensure_subgraph_schema :: "store_db \<Rightarrow> string \<Rightarrow> store_db" where
  "ensure_subgraph_schema db sg =
     (case map_of (db_schemas db) sg of
        None \<Rightarrow> db\<lparr>db_schemas := bt_insert sg empty_schema (db_schemas db)\<rparr>
      | Some t \<Rightarrow> db)"

section \<open>The registry of subgraphs\<close>

definition upsert_subgraph_deployment :: "store_db \<Rightarrow> subgraph_deployment \<Rightarrow> store_db" where
  "upsert_subgraph_deployment db d =
     db\<lparr>db_deployments := tbl_upsert sd_subgraph (\<lambda>old new. new)
       (subgraph_deployment.extend d (deployment_row.fields ''active'')) (db_deployments db)\<rparr>"

definition deployment_of_row :: "deployment_row \<Rightarrow> store_error + subgraph_deployment" where
  "deployment_of_row r =
     (case subgraph_id_new (sd_subgraph r) of
        Inl e \<Rightarrow> Inl e
      | Inr sg \<Rightarrow> Inr \<lparr>sd_subgraph = sg, sd_schema_sdl = sd_schema_sdl r, sd_manifest = sd_manifest r,
          sd_wasm_sha256 = sd_wasm_sha256 r, sd_wasm_bytes = sd_wasm_bytes r\<rparr>)"

definition fetch_subgraph_deployment :: "store_db \<Rightarrow> string \<Rightarrow> store_error + subgraph_deployment option" where
  "fetch_subgraph_deployment db sg =
     (case find (\<lambda>r. sd_subgraph r = sg \<and> dr_status r \<noteq> ''removed'') (db_deployments db) of
        None \<Rightarrow> Inr None
      | Some r \<Rightarrow> map_sum id Some (deployment_of_row r))"

text \<open>\<open>into_iter().map(..).collect::<Result<_, _>>()\<close>: the first error, or all the values.\<close>

fun collect_all :: "('e + 'a) list \<Rightarrow> 'e + 'a list" where
  "collect_all [] = Inr []"
| "collect_all (Inl e # rs) = Inl e"
| "collect_all (Inr x # rs) = map_sum id ((#) x) (collect_all rs)"

definition list_subgraph_deployments :: "store_db \<Rightarrow> store_error + subgraph_deployment list" where
  "list_subgraph_deployments db =
     collect_all (map deployment_of_row
       (sort_key sd_subgraph (filter (\<lambda>r. dr_status r \<noteq> ''removed'') (db_deployments db))))"

definition set_subgraph_removed :: "store_db \<Rightarrow> string \<Rightarrow> bool \<times> store_db" where
  "set_subgraph_removed db sg =
     (has_key sd_subgraph sg (db_deployments db),
      db\<lparr>db_deployments := map (\<lambda>r. if sd_subgraph r = sg then r\<lparr>dr_status := ''removed''\<rparr> else r)
        (db_deployments db)\<rparr>)"

section \<open>Covenant lineage\<close>

definition upsert_covenant_lineage_head :: "store_db \<Rightarrow> lineage_head \<Rightarrow> store_error + store_db" where
  "upsert_covenant_lineage_head db h =
     (if lh_count h < 0 then Inl Query_error
      else Inr (db\<lparr>db_heads := tbl_upsert lh_covenant_id
             (\<lambda>old new. old\<lparr>lh_current_utxo := lh_current_utxo new, lh_last_seen_daa := lh_last_seen_daa new,
                           lh_count := lh_count new\<rparr>) h (db_heads db)\<rparr>))"

definition fetch_covenant_lineage_head :: "store_db \<Rightarrow> string \<Rightarrow> store_error + lineage_head option" where
  "fetch_covenant_lineage_head db c =
     (case tbl_find lh_covenant_id c (db_heads db) of
        None \<Rightarrow> Inr None
      | Some h \<Rightarrow> (case subgraph_id_new (lh_subgraph h) of
          Inl e \<Rightarrow> Inl e
        | Inr sg \<Rightarrow> Inr (Some (h\<lparr>lh_subgraph := sg\<rparr>))))"

definition lineage_step_key :: "lineage_row \<Rightarrow> string \<times> string \<times> i32" where
  "lineage_step_key r = (lr_covenant_id r, lr_tx_hash r, lr_output_index r)"

definition lineage_pk :: "lineage_row \<Rightarrow> string \<times> i32" where
  "lineage_pk r = (lr_covenant_id r, lr_seq r)"

definition covenant_lineage_row_exists :: "store_db \<Rightarrow> string \<Rightarrow> string \<Rightarrow> i32 \<Rightarrow> bool" where
  "covenant_lineage_row_exists db c tx i = has_key lineage_step_key (c, tx, i) (db_rows db)"

text \<open>The insert fails without its head (foreign key), on a repeated sequence number (primary key) and
  on a repeated output (unique constraint).\<close>

definition insert_covenant_lineage_row :: "store_db \<Rightarrow> lineage_row \<Rightarrow> store_error + store_db" where
  "insert_covenant_lineage_row db r =
     (if \<not> has_key lh_covenant_id (lr_covenant_id r) (db_heads db)
         \<or> has_key lineage_pk (lineage_pk r) (db_rows db)
         \<or> has_key lineage_step_key (lineage_step_key r) (db_rows db)
      then Inl Query_error else Inr (db\<lparr>db_rows := db_rows db @ [r]\<rparr>))"

definition covenant_lineage_rows_by_parent ::
  "store_db \<Rightarrow> string \<Rightarrow> string \<Rightarrow> store_error + lineage_row list" where
  "covenant_lineage_rows_by_parent db c parent =
     collect_all (map (\<lambda>r. map_sum id (\<lambda>sg. r\<lparr>lr_subgraph := sg\<rparr>) (subgraph_id_new (lr_subgraph r)))
       (sort_key lr_seq (filter (\<lambda>r. lr_covenant_id r = c \<and> lr_parent r = Some parent) (db_rows db))))"

text \<open>The three statements of the lineage unwind, one transaction. \<open>seq + 1\<close> stays within the column's \<open>INTEGER\<close>: the row was
  inserted after a head with that count was written, so the count was an \<open>i32\<close> above zero.\<close>

definition repoint_head :: "lineage_row list \<Rightarrow> string \<Rightarrow> lineage_head \<Rightarrow> lineage_head" where
  "repoint_head rows sg h =
     (case max_by lr_seq (filter (\<lambda>r. lr_covenant_id r = lh_covenant_id h \<and> lr_subgraph r = sg) rows) of
        None \<Rightarrow> h
      | Some r \<Rightarrow> if lh_subgraph h = sg
          then h\<lparr>lh_current_utxo := lr_tx_hash r @ '':'' @ int_to_string (lr_output_index r),
                 lh_last_seen_daa := lr_daa r, lh_count := lr_seq r + 1\<rparr>
          else h)"

definition unwind_covenant_lineage :: "store_db \<Rightarrow> string \<Rightarrow> i64 \<Rightarrow> nat \<times> store_db" where
  "unwind_covenant_lineage db sg from_daa =
     (let gone = (\<lambda>r. lr_subgraph r = sg \<and> from_daa \<le> lr_daa r);
          rows = tbl_delete gone (db_rows db);
          heads = tbl_delete (\<lambda>h. lh_subgraph h = sg \<and> \<not> has_key lr_covenant_id (lh_covenant_id h) rows)
                    (db_heads db)
      in (length (filter gone (db_rows db)),
          db\<lparr>db_rows := rows, db_heads := map (repoint_head rows sg) heads\<rparr>))"

section \<open>Checkpoints, audits, committed blocks, detected patterns\<close>

definition poi_pk :: "poi_row \<Rightarrow> string \<times> i64" where
  "poi_pk r = (pr_subgraph r, pr_daa r)"

definition insert_poi_checkpoint :: "store_db \<Rightarrow> poi_row \<Rightarrow> store_db" where
  "insert_poi_checkpoint db cp =
     db\<lparr>db_poi := tbl_upsert poi_pk (\<lambda>old new. old\<lparr>pr_hash := pr_hash new\<rparr>) cp (db_poi db)\<rparr>"

definition latest_poi_for_subgraph :: "store_db \<Rightarrow> string \<Rightarrow> store_error + poi_row option" where
  "latest_poi_for_subgraph db sg =
     (case max_by pr_daa (filter (\<lambda>r. pr_subgraph r = sg) (db_poi db)) of
        None \<Rightarrow> Inr None
      | Some r \<Rightarrow> if length (pr_hash r) \<noteq> 32 then Inl Query_error
          else Inr (Some \<lparr>pr_subgraph = sg, pr_daa = pr_daa r, pr_hash = pr_hash r\<rparr>))"

definition insert_rpc_block_audit :: "store_db \<Rightarrow> rpc_audit \<Rightarrow> store_db" where
  "insert_rpc_block_audit db a = db\<lparr>db_audit := db_audit db @ [a]\<rparr>"

definition committed_pk :: "committed_record \<Rightarrow> string \<times> string" where
  "committed_pk r = (cr_subgraph r, cr_block_hash r)"

definition record_committed_block :: "store_db \<Rightarrow> committed_record \<Rightarrow> store_db" where
  "record_committed_block db r =
     db\<lparr>db_committed := tbl_upsert committed_pk
       (\<lambda>old new. old\<lparr>cr_daa := cr_daa new, cr_served_by := cr_served_by new\<rparr>) r (db_committed db)\<rparr>"

definition detected_pk :: "detected_record \<Rightarrow> string \<times> string \<times> string \<times> i32 \<times> string" where
  "detected_pk r = (dt_subgraph r, dt_block_hash r, dt_tx_hash r, dt_output_index r, dt_kind r)"

definition insert_detected_pattern :: "store_db \<Rightarrow> detected_record \<Rightarrow> store_db" where
  "insert_detected_pattern db r =
     db\<lparr>db_detected := tbl_upsert detected_pk
       (\<lambda>old new. old\<lparr>dt_daa := dt_daa new, dt_covenant_id := dt_covenant_id new,
                     dt_payload := dt_payload new\<rparr>) r (db_detected db)\<rparr>"

definition unwind_committed_blocks_for_subgraph ::
  "store_db \<Rightarrow> string \<Rightarrow> string list \<Rightarrow> string \<Rightarrow> unwind_report \<times> store_db" where
  "unwind_committed_blocks_for_subgraph db sg hashes reason =
     (let rows = sort_key (\<lambda>r. - cr_daa r)
            (filter (\<lambda>r. cr_subgraph r = sg \<and> cr_block_hash r \<in> set hashes) (db_committed db));
          removed = map cr_block_hash rows;
          scores = map cr_daa rows;
          at_daa = (if scores = [] then 0 else Max (set scores));
          db1 = (if removed = [] then db
                 else db\<lparr>db_poi := tbl_delete (\<lambda>r. pr_subgraph r = sg \<and> pr_daa r \<in> set scores) (db_poi db),
                         db_audit := tbl_delete (\<lambda>r. ra_block_hash r \<in> set removed) (db_audit db),
                         db_committed := tbl_delete
                           (\<lambda>r. cr_subgraph r = sg \<and> cr_block_hash r \<in> set removed) (db_committed db),
                         db_detected := tbl_delete
                           (\<lambda>r. dt_subgraph r = sg \<and> dt_block_hash r \<in> set removed) (db_detected db)\<rparr>);
          audit = \<lparr>rg_id = db_next_reorg db, rg_subgraph = sg, rg_at_daa = at_daa, rg_removed = removed,
                   rg_count = u32_as_i32 (word_of_nat (length removed)), rg_reason = reason\<rparr>
      in (\<lparr>ur_removed = removed, ur_audit_id = db_next_reorg db\<rparr>,
          db1\<lparr>db_reorgs := db_reorgs db @ [audit], db_next_reorg := db_next_reorg db + 1\<rparr>))"

section \<open>Entity versions\<close>

definition entity_pk :: "entity_version \<Rightarrow> string \<times> string \<times> i64" where
  "entity_pk r = (ev_type r, ev_id r, ev_block_daa r)"

definition upsert_entity_row :: "entity_version \<Rightarrow> schema_tables \<Rightarrow> schema_tables" where
  "upsert_entity_row r t = t\<lparr>st_entities := tbl_upsert entity_pk (\<lambda>old new. old\<lparr>ev_state := ev_state new\<rparr>) r (st_entities t)\<rparr>"

definition upsert_entity_version :: "store_db \<Rightarrow> entity_version \<Rightarrow> store_error + store_db" where
  "upsert_entity_version db r = execute_schema db (ev_subgraph r) (upsert_entity_row r)"

definition latest_entity_row :: "string \<Rightarrow> string \<Rightarrow> schema_tables \<Rightarrow> json option" where
  "latest_entity_row ty i t =
     map_option ev_state (max_by ev_block_daa (filter (\<lambda>r. ev_type r = ty \<and> ev_id r = i) (st_entities t)))"

definition latest_entity :: "store_db \<Rightarrow> string \<Rightarrow> string \<Rightarrow> string \<Rightarrow> store_error + json option" where
  "latest_entity db sg ty i = query_schema db sg (latest_entity_row ty i)"

text \<open>\<open>SELECT DISTINCT ON (f)\<close> over rows sorted by \<open>f\<close>: the first row of each group.\<close>

function distinct_on :: "('r \<Rightarrow> 'k) \<Rightarrow> 'r list \<Rightarrow> 'r list" where
  "distinct_on f [] = []"
| "distinct_on f (r # rs) = r # distinct_on f (dropWhile (\<lambda>q. f q = f r) rs)"
  by pat_completeness auto
termination
  by (relation "measure (\<lambda>(f, rs). length rs)") (auto simp: le_imp_less_Suc length_dropWhile_le)

definition snapshot_rows :: "schema_tables \<Rightarrow> snapshot_row list" where
  "snapshot_rows t =
     map (\<lambda>r. \<lparr>sr_type = ev_type r, sr_id = ev_id r, sr_payload = ev_state r\<rparr>)
       (distinct_on (\<lambda>r. (ev_type r, ev_id r))
         (sort_key (\<lambda>r. (ev_type r, ev_id r, - ev_block_daa r)) (st_entities t)))"

definition snapshot_entities :: "store_db \<Rightarrow> string \<Rightarrow> store_error + snapshot_row list" where
  "snapshot_entities db sg = query_schema db sg snapshot_rows"

definition unwind_entity_rows :: "i64 \<Rightarrow> schema_tables \<Rightarrow> schema_tables" where
  "unwind_entity_rows from_daa t =
     t\<lparr>st_entities := tbl_delete (\<lambda>r. from_daa \<le> ev_block_daa r) (st_entities t)\<rparr>"

definition unwind_entity_versions :: "store_db \<Rightarrow> string \<Rightarrow> i64 \<Rightarrow> store_error + nat \<times> store_db" where
  "unwind_entity_versions db sg from_daa =
     delete_schema db sg (\<lambda>t. length (filter (\<lambda>r. from_daa \<le> ev_block_daa r) (st_entities t)))
       (unwind_entity_rows from_daa)"

section \<open>Covenant outputs\<close>

definition utxo_pk :: "covenant_utxo \<Rightarrow> string \<times> i32" where
  "utxo_pk r = (cu_tx_hash r, cu_output_index r)"

definition track_utxo_row :: "covenant_utxo \<Rightarrow> schema_tables \<Rightarrow> schema_tables" where
  "track_utxo_row r t = t\<lparr>st_utxos := tbl_upsert utxo_pk
     (\<lambda>old new. old\<lparr>cu_daa := cu_daa new, cu_kind := cu_kind new, cu_covenant_id := cu_covenant_id new,
                   cu_value := cu_value new, cu_state := cu_state new\<rparr>) r (st_utxos t)\<rparr>"

definition track_covenant_utxo :: "store_db \<Rightarrow> covenant_utxo \<Rightarrow> store_error + store_db" where
  "track_covenant_utxo db r = execute_schema db (cu_subgraph r) (track_utxo_row r)"

definition utxo_match_of :: "covenant_utxo \<Rightarrow> utxo_match" where
  "utxo_match_of r = \<lparr>um_kind = cu_kind r, um_covenant_id = cu_covenant_id r, um_value = cu_value r,
     um_state = cu_state r\<rparr>"

definition lookup_covenant_utxo ::
  "store_db \<Rightarrow> string \<Rightarrow> string \<Rightarrow> i32 \<Rightarrow> store_error + utxo_match option" where
  "lookup_covenant_utxo db sg tx i =
     query_schema db sg (\<lambda>t. map_option utxo_match_of (tbl_find utxo_pk (tx, i) (st_utxos t)))"

definition covenant_utxos_created_by_tx :: "store_db \<Rightarrow> string \<Rightarrow> string \<Rightarrow> store_error + utxo_match list" where
  "covenant_utxos_created_by_tx db sg tx =
     query_schema db sg (\<lambda>t. map utxo_match_of
       (sort_key cu_output_index (filter (\<lambda>r. cu_tx_hash r = tx) (st_utxos t))))"

definition unwind_utxo_rows :: "i64 \<Rightarrow> schema_tables \<Rightarrow> schema_tables" where
  "unwind_utxo_rows from_daa t = t\<lparr>st_utxos := tbl_delete (\<lambda>r. from_daa \<le> cu_daa r) (st_utxos t)\<rparr>"

definition unwind_covenant_utxos :: "store_db \<Rightarrow> string \<Rightarrow> i64 \<Rightarrow> store_error + nat \<times> store_db" where
  "unwind_covenant_utxos db sg from_daa =
     delete_schema db sg (\<lambda>t. length (filter (\<lambda>r. from_daa \<le> cu_daa r) (st_utxos t)))
       (unwind_utxo_rows from_daa)"

section \<open>Covenant spends\<close>

definition spend_pk :: "covenant_spend \<Rightarrow> string \<times> string \<times> i32" where
  "spend_pk r = (cs_spending_tx r, cs_previous_tx r, cs_previous_index r)"

definition record_spend_row :: "covenant_spend \<Rightarrow> schema_tables \<Rightarrow> schema_tables" where
  "record_spend_row r t = t\<lparr>st_spends := tbl_upsert spend_pk
     (\<lambda>old new. old\<lparr>cs_daa := cs_daa new, cs_kind := cs_kind new, cs_covenant_id := cs_covenant_id new,
                   cs_value := cs_value new, cs_successor := cs_successor new\<rparr>) r (st_spends t)\<rparr>"

definition record_covenant_spend :: "store_db \<Rightarrow> covenant_spend \<Rightarrow> store_error + store_db" where
  "record_covenant_spend db r = execute_schema db (cs_subgraph r) (record_spend_row r)"

definition covenant_lineage_continues :: "store_db \<Rightarrow> string \<Rightarrow> string \<Rightarrow> string \<Rightarrow> store_error + bool" where
  "covenant_lineage_continues db sg tx c =
     query_schema db sg (\<lambda>t. list_ex (\<lambda>r. cu_tx_hash r = tx \<and> cu_covenant_id r = Some c) (st_utxos t))"

definition unwind_spend_rows :: "i64 \<Rightarrow> schema_tables \<Rightarrow> schema_tables" where
  "unwind_spend_rows from_daa t = t\<lparr>st_spends := tbl_delete (\<lambda>r. from_daa \<le> cs_daa r) (st_spends t)\<rparr>"

definition unwind_covenant_spends :: "store_db \<Rightarrow> string \<Rightarrow> i64 \<Rightarrow> store_error + nat \<times> store_db" where
  "unwind_covenant_spends db sg from_daa =
     delete_schema db sg (\<lambda>t. length (filter (\<lambda>r. from_daa \<le> cs_daa r) (st_spends t)))
       (unwind_spend_rows from_daa)"

end
