(* ===== verification/Mapping_Host.thy ===== *)
theory Mapping_Host
  imports Store_Db
begin

text \<open>
  Dispatch of detector hits and spends to a subgraph's mapping: \<open>subgraph_manifest.rs\<close> and
  \<open>mapping_host.rs\<close> of \<open>src/crates/kasgraph-node\<close>, with the event and outcome types of
  \<open>src/crates/kasgraph-mapping/src/lib.rs\<close>. The WASM engine that runs a handler is not part of the
  repository: a loaded mapping carries, as a function, what \<open>dispatch_with_entities\<close> returns for an
  event and a snapshot.
\<close>

section \<open>The manifest descriptor\<close>

definition EVENT_COVENANT_LOCKED :: string where "EVENT_COVENANT_LOCKED = ''CovenantLocked''"
definition EVENT_COVENANT_SPENT :: string where "EVENT_COVENANT_SPENT = ''CovenantSpent''"

record descriptor_handler =
  dh_event :: string
  dh_handler :: string

record descriptor_data_source =
  ds_name :: string
  ds_kind :: string
  ds_patterns :: "string list"
  ds_collection :: "string option"
  ds_addresses :: "string list"
  ds_handlers :: "descriptor_handler list"

record build_descriptor =
  bd_name :: string
  bd_wasm :: string
  bd_data_sources :: "descriptor_data_source list"

fun resolve_in :: "descriptor_data_source list \<Rightarrow> string \<Rightarrow> string \<Rightarrow> string option" where
  "resolve_in [] kind event = None"
| "resolve_in (ds # dss) kind event =
     (if list_ex (\<lambda>p. p = kind) (ds_patterns ds)
      then (case find (\<lambda>h. dh_event h = event) (ds_handlers ds) of
              Some h \<Rightarrow> Some (dh_handler h)
            | None \<Rightarrow> resolve_in dss kind event)
      else resolve_in dss kind event)"

definition resolve_handler :: "build_descriptor \<Rightarrow> string \<Rightarrow> string \<Rightarrow> string option" where
  "resolve_handler d kind event = resolve_in (bd_data_sources d) kind event"

section \<open>Events and outcomes\<close>

type_synonym entity_snapshot = "string \<times> string \<Rightarrow> json option"

datatype mapping_error =
    HandlerTrap string string
  | FuelExhausted string
  | Nondeterministic string
  | AbiMismatch string
  | DecodePayload string
  | Engine string

record mapping_event =
  me_daa :: u64
  me_block_hash :: string
  me_payload :: json
  me_handler :: string

record entity_op =
  eo_entity :: string
  eo_id :: string
  eo_data :: json

record mapping_log =
  ml_level :: i32
  ml_message :: string

record dispatch_outcome =
  do_logs :: "mapping_log list"
  do_entity_ops :: "entity_op list"
  do_fuel :: u64

record loaded_mapping =
  lm_subgraph :: string
  lm_descriptor :: build_descriptor
  lm_runtime :: "mapping_event \<Rightarrow> entity_snapshot \<Rightarrow> mapping_error + dispatch_outcome"

definition locked_mapping_event ::
  "detected_pattern \<Rightarrow> u64 \<Rightarrow> string \<Rightarrow> string \<Rightarrow> mapping_event" where
  "locked_mapping_event hit daa block_hash handler =
     \<lparr>me_daa = daa, me_block_hash = block_hash,
      me_payload = (case dp_covenant_id hit of
          None \<Rightarrow> dp_payload hit
        | Some c \<Rightarrow> (case dp_payload hit of
            JObject obj \<Rightarrow> JObject (bt_insert ''covenantId'' (JString c) obj)
          | _ \<Rightarrow> JObject [(''covenantId'', JString c)])),
      me_handler = handler\<rparr>"

definition entity_versions :: "dispatch_outcome \<Rightarrow> string \<Rightarrow> i64 \<Rightarrow> entity_version list" where
  "entity_versions out sg daa =
     map (\<lambda>x. \<lparr>ev_subgraph = sg, ev_type = eo_entity x, ev_id = eo_id x, ev_block_daa = daa, ev_state = eo_data x\<rparr>)
       (do_entity_ops out)"

definition canonical_bytes_for_entities :: "(json \<Rightarrow> u8 list) \<Rightarrow> entity_version list \<Rightarrow> u8 list" where
  "canonical_bytes_for_entities ser records =
     canonical_block_bytes ser (map (\<lambda>r. \<lparr>ce_type = ev_type r, ce_id = ev_id r, ce_state = ev_state r\<rparr>) records)"

definition dispatch_locked_hit ::
  "loaded_mapping \<Rightarrow> detected_pattern \<Rightarrow> u64 \<Rightarrow> string \<Rightarrow> string \<Rightarrow> string \<Rightarrow> entity_snapshot
     \<Rightarrow> mapping_error + entity_version list \<times> dispatch_outcome" where
  "dispatch_locked_hit m hit daa block_hash handler sg snapshot =
     (case lm_runtime m (locked_mapping_event hit daa block_hash handler) snapshot of
        Inl e \<Rightarrow> Inl e
      | Inr out \<Rightarrow> Inr (entity_versions out sg (u64_as_i64 daa), out))"

record spend_event =
  sp_covenant_id :: string
  sp_operation :: string
  sp_value :: string
  sp_successor :: "string option"

text \<open>The derived serialization of \<open>CovenantSpend\<close> (camel case), and the \<open>json!\<close> payload.\<close>

definition spend_to_json :: "spend_event \<Rightarrow> json" where
  "spend_to_json s = JObject
     [(''covenantId'', JString (sp_covenant_id s)), (''operation'', JString (sp_operation s)),
      (''spentValueSompi'', JString (sp_value s)),
      (''successorCovenantId'', case sp_successor s of None \<Rightarrow> JNull | Some c \<Rightarrow> JString c)]"

definition spend_mapping_event :: "spend_event \<Rightarrow> json \<Rightarrow> u64 \<Rightarrow> string \<Rightarrow> string \<Rightarrow> mapping_event" where
  "spend_mapping_event spend prior daa block_hash handler =
     \<lparr>me_daa = daa, me_block_hash = block_hash,
      me_payload = JObject [(''spend'', spend_to_json spend), (''state'', prior)], me_handler = handler\<rparr>"

definition dispatch_spend_hit ::
  "loaded_mapping \<Rightarrow> spend_event \<Rightarrow> json \<Rightarrow> u64 \<Rightarrow> string \<Rightarrow> string \<Rightarrow> string \<Rightarrow> entity_snapshot
     \<Rightarrow> mapping_error + entity_version list \<times> dispatch_outcome" where
  "dispatch_spend_hit m spend prior daa block_hash handler sg snapshot =
     (case lm_runtime m (spend_mapping_event spend prior daa block_hash handler) snapshot of
        Inl e \<Rightarrow> Inl e
      | Inr out \<Rightarrow> Inr (entity_versions out sg (u64_as_i64 daa), out))"

fun dispatch_committed_hits ::
  "loaded_mapping \<Rightarrow> u64 \<Rightarrow> string \<Rightarrow> detected_pattern list \<Rightarrow> entity_snapshot \<Rightarrow> entity_version list" where
  "dispatch_committed_hits m daa block_hash [] snapshot = []"
| "dispatch_committed_hits m daa block_hash (hit # hits) snapshot =
     (case resolve_handler (lm_descriptor m) (kind_name (dp_kind hit)) EVENT_COVENANT_LOCKED of
        None \<Rightarrow> dispatch_committed_hits m daa block_hash hits snapshot
      | Some handler \<Rightarrow>
          (case dispatch_locked_hit m hit daa block_hash handler (lm_subgraph m) snapshot of
             Inl e \<Rightarrow> dispatch_committed_hits m daa block_hash hits snapshot
           | Inr (records, out) \<Rightarrow> records @ dispatch_committed_hits m daa block_hash hits snapshot))"

section \<open>Facts\<close>

lemma resolve_in_Some:
  "resolve_in dss kind event = Some h \<longleftrightarrow>
    (\<exists>pre ds post. dss = pre @ ds # post \<and> kind \<in> set (ds_patterns ds) \<and>
      map_of (map (\<lambda>x. (dh_event x, dh_handler x)) (ds_handlers ds)) event = Some h \<and>
      (\<forall>d \<in> set pre. kind \<notin> set (ds_patterns d) \<or> event \<notin> dh_event ` set (ds_handlers d)))"
  (is "_ \<longleftrightarrow> ?R dss")
proof (induction dss)
  case (Cons d dss)
  have find_map: "map_option dh_handler (find (\<lambda>h. dh_event h = event) hs) =
      map_of (map (\<lambda>x. (dh_event x, dh_handler x)) hs) event" for hs
    by (induction hs) auto
  let ?here = "kind \<in> set (ds_patterns d) \<and> event \<in> dh_event ` set (ds_handlers d)"
  have mo: "map_of (map (\<lambda>x. (dh_event x, dh_handler x)) (ds_handlers d)) event = None \<longleftrightarrow>
      event \<notin> dh_event ` set (ds_handlers d)"
    by (simp add: map_of_eq_None_iff image_image)
  have step: "?R (d # dss) \<longleftrightarrow> (if ?here
      then map_of (map (\<lambda>x. (dh_event x, dh_handler x)) (ds_handlers d)) event = Some h else ?R dss)"
    (is "_ \<longleftrightarrow> ?S")
  proof
    assume "?R (d # dss)"
    then obtain pre ds post where R: "d # dss = pre @ ds # post" "kind \<in> set (ds_patterns ds)"
      "map_of (map (\<lambda>x. (dh_event x, dh_handler x)) (ds_handlers ds)) event = Some h"
      "\<forall>d \<in> set pre. kind \<notin> set (ds_patterns d) \<or> event \<notin> dh_event ` set (ds_handlers d)"
      by blast
    show ?S
    proof (cases pre)
      case Nil
      then have "ds = d" using R(1) by simp
      moreover have "event \<in> dh_event ` set (ds_handlers d)"
        using R(3) mo \<open>ds = d\<close> by (metis option.distinct(1))
      ultimately show ?thesis using R by simp
    next
      case (Cons p pre')
      then have "\<not> ?here" "dss = pre' @ ds # post" "\<forall>d \<in> set pre'. kind \<notin> set (ds_patterns d) \<or> event \<notin> dh_event ` set (ds_handlers d)"
        using R(1,4) by auto
      with R(2,3) show ?thesis by auto
    qed
  next
    assume S: ?S
    show "?R (d # dss)"
    proof (cases ?here)
      case True
      with S show ?thesis by (intro exI [of _ "[]"] exI [of _ d] exI [of _ dss]) simp
    next
      case False
      with S obtain pre ds post where "dss = pre @ ds # post" "kind \<in> set (ds_patterns ds)"
        "map_of (map (\<lambda>x. (dh_event x, dh_handler x)) (ds_handlers ds)) event = Some h"
        "\<forall>d \<in> set pre. kind \<notin> set (ds_patterns d) \<or> event \<notin> dh_event ` set (ds_handlers d)"
        by auto
      with False show ?thesis
        by (intro exI [of _ "d # pre"] exI [of _ ds] exI [of _ post]) auto
    qed
  qed
  have "resolve_in (d # dss) kind event =
      (if ?here then map_of (map (\<lambda>x. (dh_event x, dh_handler x)) (ds_handlers d)) event else resolve_in dss kind event)"
    using mo find_map [of "ds_handlers d"]
    by (cases "find (\<lambda>h. dh_event h = event) (ds_handlers d)") (auto simp: list_ex_iff)
  then show ?case unfolding step using Cons.IH by simp
qed simp

text \<open>Records a mapping emits on a block carry the block's score and the mapping's subgraph.\<close>

lemma dispatch_records:
  "r \<in> set (dispatch_committed_hits m daa bh hits snap) \<Longrightarrow>
    ev_block_daa r = u64_as_i64 daa \<and> ev_subgraph r = lm_subgraph m"
  by (induction m daa bh hits snap rule: dispatch_committed_hits.induct)
    (auto simp: dispatch_locked_hit_def entity_versions_def split: option.splits sum.splits)

text \<open>Hits without a covenant id reach the handler with the bare detector payload.\<close>

lemma locked_event_without_id:
  "dp_covenant_id hit = None \<Longrightarrow> me_payload (locked_mapping_event hit daa bh h) = dp_payload hit"
  by (simp add: locked_mapping_event_def)

end
