(* ===== verification/Lineage.thy ===== *)
theory Lineage
  imports Mapping_Host
begin

text \<open>
  KIP-20 lineage in the node: classification of a hit as genesis or transition and its persistence
  (\<open>classify_lineage\<close>, \<open>next_lineage_step\<close> and \<open>persist_lineage\<close> of \<open>src/crates/kasgraph-node/src/main.rs\<close>),
  with the invariant of the two lineage tables. The node's fallible steps are functions from a state to
  an error or a value and the state they leave: the store commits each statement on its own, so the
  writes made before an error stay.
\<close>

section \<open>Fallible steps\<close>

datatype node_error =
    Panicked
  | Store_failed store_error
  | Poi_failed poi_error
  | No_runtimes
  | Load_failed

type_synonym ('s, 'a) act = "'s \<Rightarrow> (node_error + 'a) \<times> 's"

definition ret :: "'a \<Rightarrow> ('s, 'a) act" where
  "ret x = (\<lambda>s. (Inr x, s))"

definition bind :: "('s, 'a) act \<Rightarrow> ('a \<Rightarrow> ('s, 'b) act) \<Rightarrow> ('s, 'b) act" where
  "bind m f = (\<lambda>s. case m s of (Inl e, s') \<Rightarrow> (Inl e, s') | (Inr x, s') \<Rightarrow> f x s')"

definition andthen :: "('s, 'a) act \<Rightarrow> ('s, 'b) act \<Rightarrow> ('s, 'b) act" where
  "andthen m n = bind m (\<lambda>_. n)"

primrec for_each :: "'x list \<Rightarrow> ('x \<Rightarrow> ('s, unit) act) \<Rightarrow> ('s, unit) act" where
  "for_each [] f = ret ()"
| "for_each (x # xs) f = bind (f x) (\<lambda>_. for_each xs f)"

text \<open>A query and an update of the state that may fail.\<close>

definition query :: "('s \<Rightarrow> store_error + 'a) \<Rightarrow> ('s, 'a) act" where
  "query f = (\<lambda>s. case f s of Inl e \<Rightarrow> (Inl (Store_failed e), s) | Inr x \<Rightarrow> (Inr x, s))"

definition execute :: "('s \<Rightarrow> store_error + 's) \<Rightarrow> ('s, unit) act" where
  "execute f = (\<lambda>s. case f s of Inl e \<Rightarrow> (Inl (Store_failed e), s) | Inr s' \<Rightarrow> (Inr (), s'))"

definition update :: "('s \<Rightarrow> 's) \<Rightarrow> ('s, unit) act" where
  "update f = (\<lambda>s. (Inr (), f s))"

lemma bind_Inr: "bind m f s = (Inr y, s') \<longleftrightarrow> (\<exists>x s1. m s = (Inr x, s1) \<and> f x s1 = (Inr y, s'))"
  by (auto simp: bind_def split: prod.split sum.split)

lemma ret_Inr [simp]: "ret x s = (Inr y, s') \<longleftrightarrow> y = x \<and> s' = s"
  by (auto simp: ret_def)

lemma query_Inr: "query f s = (Inr x, s') \<longleftrightarrow> f s = Inr x \<and> s' = s"
  by (auto simp: query_def split: sum.split)

lemma execute_Inr: "execute f s = (Inr u, s') \<longleftrightarrow> f s = Inr s'"
  by (auto simp: execute_def split: sum.split)

lemma update_Inr [simp]: "update f s = (Inr u, s') \<longleftrightarrow> s' = f s"
  by (auto simp: update_def)

section \<open>Classification and persistence\<close>

datatype lineage_class = Genesis string | Transition string string

fun lc_covenant_id :: "lineage_class \<Rightarrow> string" where
  "lc_covenant_id (Genesis i) = i"
| "lc_covenant_id (Transition i p) = i"

fun lc_parent_utxo :: "lineage_class \<Rightarrow> string option" where
  "lc_parent_utxo (Genesis i) = None"
| "lc_parent_utxo (Transition i p) = Some p"

text \<open>The parameters of the node: blake2b-256, the \<open>hex\<close> crate and \<open>serde_json\<close>.\<close>

record node_env =
  env_hash :: "u8 list \<Rightarrow> u8 list"
  env_hex_encode :: "u8 list \<Rightarrow> string"
  env_hex_decode :: hex_decoder
  env_to_vec :: "json \<Rightarrow> u8 list"
  env_to_string :: "json \<Rightarrow> string"

fun classify_lineage ::
  "node_env \<Rightarrow> string \<Rightarrow> detected_pattern \<Rightarrow> ingested_input list \<Rightarrow> (store_db, lineage_class) act" where
  "classify_lineage env sg hit [] =
     ret (Genesis (genesis_covenant_id (env_hash env) (env_hex_encode env) (dp_tx_hash hit) (dp_output_index hit)))"
| "classify_lineage env sg hit (i # is) =
     (if ii_spending_tx i \<noteq> dp_tx_hash hit then classify_lineage env sg hit is
      else bind (query (\<lambda>db. lookup_covenant_utxo db sg (ii_previous_tx i) (u32_as_i32 (ii_previous_index i))))
        (\<lambda>prev. case Option.bind prev um_covenant_id of
            Some c \<Rightarrow> ret (Transition c (outpoint (ii_previous_tx i) (ii_previous_index i)))
          | None \<Rightarrow> classify_lineage env sg hit is))"

text \<open>\<open>seq + 1\<close> on an \<open>i32\<close>: it wraps in a release build, and a wrapped count is refused by the head's
  check constraint.\<close>

definition i32_add :: "i32 \<Rightarrow> i32 \<Rightarrow> i32" where
  "i32_add a b = u32_as_i32 (word_of_int (a + b))"

definition next_lineage_step :: "i32 option \<Rightarrow> i32 \<times> i32" where
  "next_lineage_step prior = (let seq = (case prior of None \<Rightarrow> 0 | Some n \<Rightarrow> n) in (seq, i32_add seq 1))"

definition persist_lineage ::
  "node_env \<Rightarrow> string \<Rightarrow> detected_pattern \<Rightarrow> lineage_class \<Rightarrow> i64 \<Rightarrow> (store_db, unit) act" where
  "persist_lineage env sg hit class block_daa =
     (let c = lc_covenant_id class; tx = dp_tx_hash hit; i = u32_as_i32 (dp_output_index hit) in
      bind (query (\<lambda>db. Inr (covenant_lineage_row_exists db c tx i))) (\<lambda>known.
        if known then ret ()
        else bind (query (\<lambda>db. fetch_covenant_lineage_head db c)) (\<lambda>prior.
          let genesis_tx = (case prior of Some h \<Rightarrow> lh_genesis_tx h | None \<Rightarrow> tx);
              (seq, lineage_count) = next_lineage_step (map_option lh_count prior);
              head = \<lparr>lh_covenant_id = c, lh_subgraph = sg, lh_genesis_tx = genesis_tx,
                      lh_current_utxo = outpoint tx (dp_output_index hit), lh_last_seen_daa = block_daa,
                      lh_count = lineage_count\<rparr>;
              row = \<lparr>lr_covenant_id = c, lr_subgraph = sg, lr_seq = seq, lr_tx_hash = tx,
                     lr_output_index = i, lr_parent = lc_parent_utxo class,
                     lr_state = env_to_vec env (dp_payload hit), lr_daa = block_daa\<rparr>
          in andthen (execute (\<lambda>db. upsert_covenant_lineage_head db head))
                     (execute (\<lambda>db. insert_covenant_lineage_row db row)))))"

section \<open>The invariants of the lineage tables\<close>

definition rows_of :: "lineage_row list \<Rightarrow> string \<Rightarrow> lineage_row list" where
  "rows_of rows c = filter (\<lambda>r. lr_covenant_id r = c) rows"

text \<open>For one covenant, with its rows in insertion order: their numbers grow, and there is a head exactly when there
  is a row, which names the last row's output and score and counts one more than its number.\<close>

definition linked :: "lineage_row list \<Rightarrow> lineage_head option \<Rightarrow> bool" where
  "linked rs h \<longleftrightarrow>
     sorted_wrt (<) (map lr_seq rs) \<and> (\<forall>r \<in> set rs. 0 \<le> lr_seq r) \<and>
     (case h of
        None \<Rightarrow> rs = []
      | Some h \<Rightarrow> rs \<noteq> [] \<and> lh_count h = lr_seq (last rs) + 1 \<and> lh_last_seen_daa h = lr_daa (last rs) \<and>
          lh_current_utxo h = lr_tx_hash (last rs) @ '':'' @ int_to_string (lr_output_index (last rs)))"

text \<open>The rows are numbered from zero without a gap and their scores never fall.\<close>

definition gapless :: "lineage_row list \<Rightarrow> bool" where
  "gapless rs \<longleftrightarrow> map lr_seq rs = map int [0..<length rs] \<and> sorted (map lr_daa rs)"

text \<open>The tables when each covenant is recorded by one subgraph, its owner.\<close>

definition lineage_linked :: "(string \<Rightarrow> string) \<Rightarrow> store_db \<Rightarrow> bool" where
  "lineage_linked owner db \<longleftrightarrow>
     unique_key lh_covenant_id (db_heads db) \<and> unique_key lineage_step_key (db_rows db) \<and>
     (\<forall>h \<in> set (db_heads db). lh_subgraph h = owner (lh_covenant_id h)) \<and>
     (\<forall>r \<in> set (db_rows db). lr_subgraph r = owner (lr_covenant_id r)) \<and>
     (\<forall>c. linked (rows_of (db_rows db) c) (tbl_find lh_covenant_id c (db_heads db)))"

definition lineage_ok :: "string \<Rightarrow> store_db \<Rightarrow> bool" where
  "lineage_ok sg db \<longleftrightarrow> lineage_linked (\<lambda>_. sg) db \<and> (\<forall>c. gapless (rows_of (db_rows db) c))"

lemma lineage_ok_linked: "lineage_ok sg db \<Longrightarrow> lineage_linked (\<lambda>_. sg) db"
  by (simp add: lineage_ok_def)

lemma lineage_ok_subgraph:
  "lineage_ok sg db \<Longrightarrow> h \<in> set (db_heads db) \<Longrightarrow> lh_subgraph h = sg"
  "lineage_ok sg db \<Longrightarrow> r \<in> set (db_rows db) \<Longrightarrow> lr_subgraph r = sg"
  by (simp_all add: lineage_ok_def lineage_linked_def)

lemma linked_head: "linked rs (Some h) \<Longrightarrow> 0 < lh_count h \<and> (\<forall>r \<in> set rs. lr_seq r < lh_count h)"
proof -
  assume l: "linked rs (Some h)"
  then obtain qs q where rs: "rs = qs @ [q]" by (cases rs rule: rev_cases) (simp_all add: linked_def)
  show ?thesis using l by (auto simp: linked_def rs sorted_wrt_append less_imp_le dest: order_less_trans)
qed

lemma gapless_last: "gapless rs \<Longrightarrow> rs \<noteq> [] \<Longrightarrow> lr_seq (last rs) + 1 = int (length rs)"
proof -
  assume g: "gapless rs" "rs \<noteq> []"
  then have "last (map lr_seq rs) = last (map int [0..<length rs])" by (simp only: gapless_def)
  moreover have "[0..<length rs] \<noteq> []" using g(2) by simp
  ultimately have "lr_seq (last rs) = int (length rs - 1)" using g(2) by (simp add: last_map)
  moreover have "0 < length rs" using g(2) by simp
  ultimately show ?thesis by linarith
qed

lemma u32_as_i32_small: "unat w < 2 ^ 31 \<Longrightarrow> u32_as_i32 w = int (unat w)"
proof -
  assume small: "unat w < 2 ^ 31"
  have u: "uint w < 2 ^ 31"
    using small by (metis of_nat_less_iff of_nat_numeral of_nat_power uint_nat)
  have "signed_take_bit 31 (uint w) = uint w"
    by (rule signed_take_bit_int_eq_self [OF _ u]) (rule order_trans [OF _ uint_ge_0], simp)
  then have "sint w = uint w"
    by (simp add: sint_uint)
  then show ?thesis unfolding u32_as_i32_def uint_nat by (rule trans) (rule refl)
qed

lemma i32_add_small: "0 \<le> a \<Longrightarrow> a < 2147483647 \<Longrightarrow> i32_add a 1 = a + 1"
proof -
  assume a: "0 \<le> a" "a < 2147483647"
  have "uint (word_of_int (a + 1) :: u32) = a + 1"
    using a by (simp add: uint_word_of_int take_bit_int_eq_self del: of_int_add)
  then have "unat (word_of_int (a + 1) :: u32) = nat (a + 1)"
    by (metis nat_uint_eq)
  then show ?thesis
    using a u32_as_i32_small [of "word_of_int (a + 1)"] by (simp add: i32_add_def)
qed

lemma outpoint_of_row: "unat i < 2 ^ 31 \<Longrightarrow> outpoint tx i = tx @ '':'' @ int_to_string (u32_as_i32 i)"
  by (simp add: outpoint_def u32_to_string_def int_to_string_def u32_as_i32_small)


section \<open>A step\<close>

definition next_head :: "string \<Rightarrow> lineage_head option \<Rightarrow> detected_pattern \<Rightarrow> lineage_class \<Rightarrow> i64 \<Rightarrow> lineage_head" where
  "next_head sg prior hit class daa =
     \<lparr>lh_covenant_id = lc_covenant_id class, lh_subgraph = sg,
      lh_genesis_tx = (case prior of Some h \<Rightarrow> lh_genesis_tx h | None \<Rightarrow> dp_tx_hash hit),
      lh_current_utxo = outpoint (dp_tx_hash hit) (dp_output_index hit), lh_last_seen_daa = daa,
      lh_count = snd (next_lineage_step (map_option lh_count prior))\<rparr>"

definition next_row :: "node_env \<Rightarrow> string \<Rightarrow> lineage_head option \<Rightarrow> detected_pattern \<Rightarrow> lineage_class \<Rightarrow> i64 \<Rightarrow> lineage_row" where
  "next_row env sg prior hit class daa =
     \<lparr>lr_covenant_id = lc_covenant_id class, lr_subgraph = sg,
      lr_seq = fst (next_lineage_step (map_option lh_count prior)), lr_tx_hash = dp_tx_hash hit,
      lr_output_index = u32_as_i32 (dp_output_index hit), lr_parent = lc_parent_utxo class,
      lr_state = env_to_vec env (dp_payload hit), lr_daa = daa\<rparr>"

abbreviation advance_head :: "lineage_head \<Rightarrow> lineage_head \<Rightarrow> lineage_head" where
  "advance_head old new \<equiv> old\<lparr>lh_current_utxo := lh_current_utxo new, lh_last_seen_daa := lh_last_seen_daa new,
     lh_count := lh_count new\<rparr>"

lemma find_in_key: "tbl_find key k t = Some r \<Longrightarrow> r \<in> set t \<and> key r = k"
  by (induction t) (auto simp: tbl_find_def split: if_splits)

text \<open>The number of the next step of a covenant: one after its last row, if an \<open>i32\<close> can count it.\<close>

definition countable_step :: "store_db \<Rightarrow> string \<Rightarrow> bool" where
  "countable_step db c \<longleftrightarrow> pred_option (\<lambda>h. lh_count h < 2147483647) (tbl_find lh_covenant_id c (db_heads db))"

lemma next_step_count:
  assumes "lineage_linked owner db" "countable_step db c"
  defines "p \<equiv> tbl_find lh_covenant_id c (db_heads db)"
  shows "snd (next_lineage_step (map_option lh_count p)) = fst (next_lineage_step (map_option lh_count p)) + 1"
    and "0 \<le> fst (next_lineage_step (map_option lh_count p))"
    and "\<forall>r \<in> set (rows_of (db_rows db) c). lr_seq r < fst (next_lineage_step (map_option lh_count p))"
proof -
  have l: "linked (rows_of (db_rows db) c) p" using assms(1) by (simp add: lineage_linked_def p_def)
  have small: "pred_option (\<lambda>h. lh_count h < 2147483647) p" using assms(2) by (simp add: countable_step_def p_def)
  show "snd (next_lineage_step (map_option lh_count p)) = fst (next_lineage_step (map_option lh_count p)) + 1"
    "0 \<le> fst (next_lineage_step (map_option lh_count p))"
    "\<forall>r \<in> set (rows_of (db_rows db) c). lr_seq r < fst (next_lineage_step (map_option lh_count p))"
    using l small linked_head
    by (cases p; fastforce simp: next_lineage_step_def i32_add_small linked_def less_imp_le)+
qed

text \<open>In a linked store the owner's step of a covenant always succeeds, and does nothing if it is known.\<close>

lemma persist_linked_eq:
  assumes ok: "lineage_linked owner db" and sg: "subgraph_id_new sg = Inr sg" "owner (lc_covenant_id class) = sg"
    and short: "countable_step db (lc_covenant_id class)"
  shows "persist_lineage env sg hit class daa db = (Inr (),
    (let prior = tbl_find lh_covenant_id (lc_covenant_id class) (db_heads db) in
     if covenant_lineage_row_exists db (lc_covenant_id class) (dp_tx_hash hit) (u32_as_i32 (dp_output_index hit))
     then db
     else db\<lparr>db_heads := tbl_upsert lh_covenant_id advance_head (next_head sg prior hit class daa) (db_heads db),
             db_rows := db_rows db @ [next_row env sg prior hit class daa]\<rparr>))"
proof -
  let ?c = "lc_covenant_id class"
  let ?p = "tbl_find lh_covenant_id ?c (db_heads db)"
  have prior: "fetch_covenant_lineage_head db ?c = Inr ?p"
  proof (cases ?p)
    case (Some h)
    then have "lh_subgraph h = sg" using ok sg(2) find_in_key [OF Some] by (auto simp: lineage_linked_def)
    with Some sg(1) show ?thesis by (simp add: fetch_covenant_lineage_head_def)
  qed (simp add: fetch_covenant_lineage_head_def)
  note seq = next_step_count [OF ok short]
  have fresh: "\<not> has_key lineage_pk (lineage_pk (next_row env sg ?p hit class daa)) (db_rows db)"
    using seq(3) by (auto simp: has_key_iff lineage_pk_def next_row_def rows_of_def)
  let ?H = "tbl_upsert lh_covenant_id advance_head (next_head sg ?p hit class daa) (db_heads db)"
  have head: "has_key lh_covenant_id ?c ?H"
    using map_key_upsert [of lh_covenant_id advance_head "next_head sg ?p hit class daa" "db_heads db"]
    unfolding has_key_iff set_map [symmetric] by (auto simp: next_head_def has_key_iff)
  show ?thesis
  proof (cases "covenant_lineage_row_exists db ?c (dp_tx_hash hit) (u32_as_i32 (dp_output_index hit))")
    case True
    then show ?thesis by (simp add: persist_lineage_def Let_def bind_def query_def ret_def)
  next
    case False
    have up: "upsert_covenant_lineage_head db (next_head sg ?p hit class daa) = Inr (db\<lparr>db_heads := ?H\<rparr>)"
      using seq(1,2) by (simp add: upsert_covenant_lineage_head_def next_head_def)
    have ins: "insert_covenant_lineage_row (db\<lparr>db_heads := ?H\<rparr>) (next_row env sg ?p hit class daa) =
        Inr (db\<lparr>db_heads := ?H, db_rows := db_rows db @ [next_row env sg ?p hit class daa]\<rparr>)"
      using head fresh False
      by (simp add: insert_covenant_lineage_row_def covenant_lineage_row_exists_def lineage_step_key_def)
        (simp add: next_row_def)
    show ?thesis
      using False up ins
      by (simp add: persist_lineage_def Let_def bind_def andthen_def query_def execute_def prior case_prod_beta
          next_head_def next_row_def)
  qed
qed

lemma rows_of_append: "rows_of (rows @ [r]) c = (if lr_covenant_id r = c then rows_of rows c @ [r] else rows_of rows c)"
  by (simp add: rows_of_def)

lemma persist_linked:
  assumes ok: "lineage_linked owner db" and sg: "subgraph_id_new sg = Inr sg" "owner (lc_covenant_id class) = sg"
    and short: "countable_step db (lc_covenant_id class)" and small: "unat (dp_output_index hit) < 2 ^ 31"
  shows "lineage_linked owner (snd (persist_lineage env sg hit class daa db))"
proof (cases "covenant_lineage_row_exists db (lc_covenant_id class) (dp_tx_hash hit) (u32_as_i32 (dp_output_index hit))")
  case True
  with ok persist_linked_eq [OF ok sg short] show ?thesis by simp
next
  case False
  let ?c = "lc_covenant_id class"
  let ?p = "tbl_find lh_covenant_id ?c (db_heads db)"
  let ?h = "next_head sg ?p hit class daa" and ?r = "next_row env sg ?p hit class daa"
  let ?H = "tbl_upsert lh_covenant_id advance_head ?h (db_heads db)"
  have chain: "linked (rows_of (db_rows db) c) (tbl_find lh_covenant_id c (db_heads db))" for c
    using ok by (simp add: lineage_linked_def)
  note seq = next_step_count [OF ok short]
  have ids: "lh_covenant_id ?h = ?c" "lr_covenant_id ?r = ?c"
    by (simp_all add: next_head_def next_row_def)
  have head: "tbl_find lh_covenant_id c ?H = (if c = ?c then Some (case ?p of None \<Rightarrow> ?h | Some q \<Rightarrow> advance_head q ?h)
      else tbl_find lh_covenant_id c (db_heads db))" for c
    using tbl_find_upsert_same [of lh_covenant_id advance_head ?h "db_heads db"]
      tbl_find_upsert_other [of lh_covenant_id advance_head ?h c "db_heads db"] by (simp add: ids)
  have "linked (rows_of (db_rows db @ [?r]) c) (tbl_find lh_covenant_id c ?H)" for c
  proof (cases "c = ?c")
    case True
    let ?h' = "case ?p of None \<Rightarrow> ?h | Some q \<Rightarrow> advance_head q ?h"
    have "lh_count ?h' = lr_seq ?r + 1" "lh_last_seen_daa ?h' = lr_daa ?r"
        "lh_current_utxo ?h' = lr_tx_hash ?r @ '':'' @ int_to_string (lr_output_index ?r)"
      using seq(1) outpoint_of_row [OF small, of "dp_tx_hash hit"]
      by (cases ?p; simp add: next_head_def next_row_def)+
    moreover have "0 \<le> lr_seq ?r" "\<forall>q \<in> set (rows_of (db_rows db) ?c). lr_seq q < lr_seq ?r"
      using seq(2,3) by (simp_all add: next_row_def)
    ultimately have "linked (rows_of (db_rows db) ?c @ [?r]) (Some ?h')"
      using chain [of ?c] by (auto simp: linked_def sorted_wrt_append)
    then show ?thesis
      unfolding head rows_of_append ids True by simp
  qed (simp add: chain head rows_of_append ids)
  moreover have "unique_key lh_covenant_id ?H"
    using ok by (intro unique_key_upsert) (simp_all add: lineage_linked_def)
  moreover have "unique_key lineage_step_key (db_rows db @ [?r])"
    using ok False by (simp add: unique_key_append lineage_linked_def covenant_lineage_row_exists_def)
      (simp add: lineage_step_key_def next_row_def)
  moreover have "\<forall>h \<in> set ?H. lh_subgraph h = owner (lh_covenant_id h)"
    using ok sg(2) by (auto simp: tbl_upsert_def lineage_linked_def next_head_def)
  ultimately show ?thesis
    using ok False sg(2) by (simp add: persist_linked_eq [OF ok sg short] Let_def lineage_linked_def next_row_def)
qed

text \<open>A step no lower than the last one continues a gapless covenant and leaves the others alone.\<close>

lemma persist_gapless:
  assumes ok: "lineage_linked owner db" and sg: "subgraph_id_new sg = Inr sg" "owner (lc_covenant_id class) = sg"
    and short: "countable_step db (lc_covenant_id class)" and c: "gapless (rows_of (db_rows db) c)"
    and mono: "c = lc_covenant_id class \<longrightarrow> (\<forall>r \<in> set (rows_of (db_rows db) c). lr_daa r \<le> daa)"
  shows "gapless (rows_of (db_rows (snd (persist_lineage env sg hit class daa db))) c)"
proof -
  let ?rs = "rows_of (db_rows db) c" and ?p = "tbl_find lh_covenant_id c (db_heads db)"
  let ?r = "next_row env sg (tbl_find lh_covenant_id (lc_covenant_id class) (db_heads db)) hit class daa"
  have l: "linked ?rs ?p" using ok by (simp add: lineage_linked_def)
  have "fst (next_lineage_step (map_option lh_count ?p)) = int (length ?rs)"
    using l gapless_last [OF c] by (cases ?p) (auto simp: linked_def next_lineage_step_def Let_def)
  then have "gapless (?rs @ [?r])" if "c = lc_covenant_id class"
    using c mono that by (simp add: gapless_def sorted_append next_row_def)
  then show ?thesis
    using c by (auto simp: persist_linked_eq [OF ok sg short] Let_def rows_of_append next_row_def)
qed

text \<open>At the largest count the head's check constraint refuses the step, which leaves the store as it was.\<close>

lemma persist_full:
  assumes ok: "lineage_linked owner db" and sg: "subgraph_id_new sg = Inr sg" "owner (lc_covenant_id class) = sg"
    and full: "tbl_find lh_covenant_id (lc_covenant_id class) (db_heads db) = Some h" "lh_count h = 2147483647"
  shows "snd (persist_lineage env sg hit class daa db) = db"
proof -
  have "lh_subgraph h = sg" using ok sg(2) find_in_key [OF full(1)] by (auto simp: lineage_linked_def)
  moreover have "i32_add 2147483647 1 < 0" by code_simp
  ultimately show ?thesis
    using sg(1) full by (simp add: persist_lineage_def Let_def bind_def andthen_def query_def execute_def ret_def
        fetch_covenant_lineage_head_def next_lineage_step_def upsert_covenant_lineage_head_def split: prod.split)
qed

lemma lineage_ok_countable:
  assumes ok: "lineage_ok sg db" and short: "length (rows_of (db_rows db) c) < 2147483647"
  shows "countable_step db c"
proof (cases "tbl_find lh_covenant_id c (db_heads db)")
  case (Some h)
  let ?rs = "rows_of (db_rows db) c"
  have "linked ?rs (tbl_find lh_covenant_id c (db_heads db))" "gapless ?rs"
    using ok by (simp_all add: lineage_ok_def lineage_linked_def)
  then have "?rs \<noteq> []" "lh_count h = lr_seq (last ?rs) + 1" "gapless ?rs" by (simp_all add: linked_def Some)
  then show ?thesis using short gapless_last [of ?rs] by (simp add: countable_step_def Some)
qed (simp add: countable_step_def)

lemma persist_lineage_eq:
  assumes ok: "lineage_ok sg db" and sg: "subgraph_id_new sg = Inr sg"
    and short: "length (rows_of (db_rows db) (lc_covenant_id class)) < 2147483647"
  shows "persist_lineage env sg hit class daa db = (Inr (),
    (let prior = tbl_find lh_covenant_id (lc_covenant_id class) (db_heads db) in
     if covenant_lineage_row_exists db (lc_covenant_id class) (dp_tx_hash hit) (u32_as_i32 (dp_output_index hit))
     then db
     else db\<lparr>db_heads := tbl_upsert lh_covenant_id advance_head (next_head sg prior hit class daa) (db_heads db),
             db_rows := db_rows db @ [next_row env sg prior hit class daa]\<rparr>))"
  by (rule persist_linked_eq [OF lineage_ok_linked [OF ok] sg refl lineage_ok_countable [OF ok short]])

lemma persist_lineage_ok:
  assumes ok: "lineage_ok sg db" and sg: "subgraph_id_new sg = Inr sg"
    and short: "length (rows_of (db_rows db) (lc_covenant_id class)) < 2147483647"
    and mono: "\<forall>r \<in> set (rows_of (db_rows db) (lc_covenant_id class)). lr_daa r \<le> daa"
    and small: "unat (dp_output_index hit) < 2 ^ 31"
  shows "lineage_ok sg (snd (persist_lineage env sg hit class daa db))"
proof -
  note owned = lineage_ok_linked [OF ok] sg refl lineage_ok_countable [OF ok short]
  show ?thesis
    using persist_linked [OF owned small] persist_gapless [OF owned] ok mono by (simp add: lineage_ok_def)
qed

section \<open>An unwind\<close>

lemma max_by_chain: "sorted_wrt (<) (map lr_seq rs) \<Longrightarrow> rs \<noteq> [] \<Longrightarrow> max_by lr_seq rs = Some (last rs)"
proof (rule max_by_unique)
  assume rs: "sorted_wrt (<) (map lr_seq rs)" "rs \<noteq> []"
  obtain qs q where q: "rs = qs @ [q]" using rs(2) by (cases rs rule: rev_cases) auto
  show "last rs \<in> set rs" using rs(2) by simp
  show "lr_seq r \<le> lr_seq (last rs)" if "r \<in> set rs" for r using rs(1) that by (auto simp: q sorted_wrt_append)
  have "distinct (map lr_seq rs)" using rs(1) strict_sorted_iff by blast
  then show "inj_on lr_seq (set rs)" by (simp add: distinct_map)
qed

lemma filter_below_take:
  "sorted (map lr_daa rs) \<Longrightarrow> \<exists>n \<le> length rs. filter (\<lambda>r. \<not> from_daa \<le> lr_daa r) rs = take n rs"
proof (induction rs)
  case (Cons r rs)
  show ?case
  proof (cases "from_daa \<le> lr_daa r")
    case True
    with Cons.prems have "\<forall>q \<in> set rs. from_daa \<le> lr_daa q" by (auto intro: order_trans)
    with True show ?thesis by (intro exI [of _ 0]) (simp add: filter_empty_conv)
  next
    case False
    from Cons obtain n where "n \<le> length rs" "filter (\<lambda>r. \<not> from_daa \<le> lr_daa r) rs = take n rs" by auto
    with False show ?thesis by (intro exI [of _ "Suc n"]) simp
  qed
qed simp

lemma tbl_find_map: "(\<And>r. key (f r) = key r) \<Longrightarrow> tbl_find key k (map f t) = map_option f (tbl_find key k t)"
  by (induction t) (auto simp: tbl_find_def)

lemma tbl_find_delete:
  "unique_key key t \<Longrightarrow> tbl_find key k (tbl_delete P t) =
    (case tbl_find key k t of None \<Rightarrow> None | Some r \<Rightarrow> if P r then None else Some r)"
proof (induction t)
  case (Cons a t)
  then have "a \<notin> set t" "unique_key key t" "key a = k \<Longrightarrow> tbl_find key k t = None"
    by (auto simp: unique_key_def tbl_find_None_iff has_key_iff)
  with Cons.IH show ?case
    by (auto simp: tbl_find_def tbl_delete_def split: option.split)
qed (simp add: tbl_find_def tbl_delete_def)

lemma unwind_rows:
  assumes "lineage_linked owner db"
  shows "rows_of (db_rows (snd (unwind_covenant_lineage db sg from_daa))) c =
    (if owner c = sg then filter (\<lambda>r. \<not> from_daa \<le> lr_daa r) (rows_of (db_rows db) c) else rows_of (db_rows db) c)"
proof -
  have own: "lr_subgraph r = owner c" if "r \<in> set (db_rows db)" "lr_covenant_id r = c" for r
    using assms that by (auto simp: lineage_linked_def)
  have "rows_of (db_rows (snd (unwind_covenant_lineage db sg from_daa))) c =
      filter (\<lambda>r. lr_covenant_id r = c \<and> \<not> (lr_subgraph r = sg \<and> from_daa \<le> lr_daa r)) (db_rows db)"
    by (simp add: unwind_covenant_lineage_def Let_def rows_of_def tbl_delete_def conj_commute)
  also have "\<dots> = filter (\<lambda>r. lr_covenant_id r = c \<and> \<not> (owner c = sg \<and> from_daa \<le> lr_daa r)) (db_rows db)"
    by (rule filter_cong) (use own in auto)
  also have "\<dots> = (if owner c = sg then filter (\<lambda>r. \<not> from_daa \<le> lr_daa r) (rows_of (db_rows db) c) else rows_of (db_rows db) c)"
    by (auto simp: rows_of_def intro: filter_cong)
  finally show ?thesis .
qed

lemma unwind_linked:
  assumes ok: "lineage_linked owner db"
  shows "lineage_linked owner (snd (unwind_covenant_lineage db sg from_daa))"
proof -
  let ?db = "snd (unwind_covenant_lineage db sg from_daa)"
  let ?rows = "db_rows ?db"
  let ?gone = "\<lambda>h. lh_subgraph h = sg \<and> \<not> has_key lr_covenant_id (lh_covenant_id h) ?rows"
  have rows: "set ?rows \<subseteq> set (db_rows db)" "unique_key lineage_step_key ?rows"
    using ok by (auto simp: unwind_covenant_lineage_def Let_def tbl_delete_def lineage_linked_def)
  have heads: "db_heads ?db = map (repoint_head ?rows sg) (tbl_delete ?gone (db_heads db))"
    by (simp add: unwind_covenant_lineage_def Let_def)
  have id: "lh_covenant_id (repoint_head ?rows sg h) = lh_covenant_id h"
      "lh_subgraph (repoint_head ?rows sg h) = lh_subgraph h" for h
    by (simp_all add: repoint_head_def split: option.split)
  have u: "unique_key lh_covenant_id (db_heads db)" using ok by (simp add: lineage_linked_def)
  have owns: "\<forall>r \<in> set ?rows. lr_subgraph r = owner (lr_covenant_id r)" using ok rows(1) by (auto simp: lineage_linked_def)
  have empty: "has_key lr_covenant_id c ?rows \<longleftrightarrow> rows_of ?rows c \<noteq> []" for c
    by (auto simp: has_key_iff rows_of_def filter_empty_conv)
  have found: "tbl_find lh_covenant_id c (db_heads ?db) = (case tbl_find lh_covenant_id c (db_heads db) of None \<Rightarrow> None
      | Some h \<Rightarrow> if owner c = sg \<and> rows_of ?rows c = [] then None else Some (repoint_head ?rows sg h))" for c
  proof (cases "tbl_find lh_covenant_id c (db_heads db)")
    case (Some h)
    then have "lh_covenant_id h = c" "lh_subgraph h = owner c"
      using ok find_in_key [OF Some] by (auto simp: lineage_linked_def)
    then show ?thesis unfolding heads by (simp add: tbl_find_map id tbl_find_delete [OF u] Some empty)
  qed (simp add: heads tbl_find_map id tbl_find_delete [OF u])
  have "linked (rows_of ?rows c) (tbl_find lh_covenant_id c (db_heads ?db))" for c
  proof -
    let ?rs = "rows_of (db_rows db) c"
    have old: "linked ?rs (tbl_find lh_covenant_id c (db_heads db))" using ok by (simp add: lineage_linked_def)
    note rs = unwind_rows [OF ok, of sg from_daa c]
    have own: "filter (\<lambda>r. lr_covenant_id r = c \<and> lr_subgraph r = sg) ?rows = (if owner c = sg then rows_of ?rows c else [])"
      using owns by (auto simp: rows_of_def filter_empty_conv intro: filter_cong)
    show ?thesis
    proof (cases "tbl_find lh_covenant_id c (db_heads db)")
      case None
      then have "?rs = []" using old by (simp add: linked_def)
      then show ?thesis using rs None by (simp add: linked_def found)
    next
      case (Some h)
      then have h: "lh_covenant_id h = c" "lh_subgraph h = owner c"
        using ok find_in_key [OF Some] by (auto simp: lineage_linked_def)
      show ?thesis
      proof (cases "owner c = sg")
        case False
        then have "repoint_head ?rows sg h = h" using own h by (simp add: repoint_head_def)
        then show ?thesis using old rs False Some by (simp add: found)
      next
        case True
        have sorted: "sorted_wrt (<) (map lr_seq (rows_of ?rows c))" "\<forall>r \<in> set (rows_of ?rows c). 0 \<le> lr_seq r"
          using old rs True by (auto simp: linked_def sorted_wrt_map intro: sorted_wrt_filter)
        show ?thesis
        proof (cases "rows_of ?rows c = []")
          case False
          then show ?thesis
            using sorted True h own max_by_chain [OF sorted(1) False] by (simp add: found Some linked_def repoint_head_def)
        qed (simp add: found Some True linked_def)
      qed
    qed
  qed
  moreover have "unique_key lh_covenant_id (db_heads ?db)"
    using unique_key_delete [OF u] by (simp add: heads unique_key_def comp_def id)
  moreover have "\<forall>h \<in> set (db_heads ?db). lh_subgraph h = owner (lh_covenant_id h)"
    using ok by (auto simp: heads id tbl_delete_def lineage_linked_def)
  ultimately show ?thesis using rows(2) owns by (simp add: lineage_linked_def)
qed

lemma unwind_gapless:
  assumes "lineage_linked owner db" "gapless (rows_of (db_rows db) c)"
  shows "gapless (rows_of (db_rows (snd (unwind_covenant_lineage db sg from_daa))) c)"
proof (cases "owner c = sg")
  case True
  let ?rs = "rows_of (db_rows db) c"
  obtain n where n: "n \<le> length ?rs" "filter (\<lambda>r. \<not> from_daa \<le> lr_daa r) ?rs = take n ?rs"
    using filter_below_take assms(2) unfolding gapless_def by blast
  have "gapless (take n ?rs)"
    using n(1) assms(2) by (simp add: gapless_def take_map [symmetric] sorted_wrt_take)
      (simp add: take_map)
  with n(2) True show ?thesis by (simp add: unwind_rows [OF assms(1)])
qed (simp add: unwind_rows [OF assms(1)] assms(2))

lemma unwind_lineage_ok:
  assumes ok: "lineage_ok sg db"
  shows "lineage_ok sg (snd (unwind_covenant_lineage db sg from_daa))"
  using unwind_linked [OF lineage_ok_linked [OF ok]] unwind_gapless [OF lineage_ok_linked [OF ok]] ok
  by (simp add: lineage_ok_def)

section \<open>Reachable stores\<close>

text \<open>What subgraphs do to the lineage tables, each covenant being recorded by its owner: a subgraph records a step of
  one of its covenants, at any score, or unwinds its rows at any score. Of the covenants in \<open>calm\<close>, and of no
  others, it is known that a step never comes at a score below an earlier row. Nothing else touches the two tables.\<close>

inductive lineage_reach :: "node_env \<Rightarrow> (string \<Rightarrow> string) \<Rightarrow> string set \<Rightarrow> store_db \<Rightarrow> bool" for env owner calm where
  start: "db_heads db = [] \<Longrightarrow> db_rows db = [] \<Longrightarrow> lineage_reach env owner calm db"
| step: "lineage_reach env owner calm db \<Longrightarrow> owner (lc_covenant_id class) = sg \<Longrightarrow> unat (dp_output_index hit) < 2 ^ 31 \<Longrightarrow>
    lc_covenant_id class \<in> calm \<longrightarrow> (\<forall>r \<in> set (rows_of (db_rows db) (lc_covenant_id class)). lr_daa r \<le> daa) \<Longrightarrow>
    persist_lineage env sg hit class daa db = (res, db') \<Longrightarrow> lineage_reach env owner calm db'"
| unwind: "lineage_reach env owner calm db \<Longrightarrow> unwind_covenant_lineage db sg from_daa = (n, db') \<Longrightarrow>
    lineage_reach env owner calm db'"
| frame: "lineage_reach env owner calm db \<Longrightarrow> db_heads db' = db_heads db \<Longrightarrow> db_rows db' = db_rows db \<Longrightarrow>
    lineage_reach env owner calm db'"

definition counts_fit :: "store_db \<Rightarrow> bool" where
  "counts_fit db \<longleftrightarrow> (\<forall>r \<in> set (db_rows db). lr_seq r < 2147483647)"

lemma counts_fit_head:
  assumes "lineage_linked owner db" "counts_fit db" "tbl_find lh_covenant_id c (db_heads db) = Some h"
  shows "lh_count h \<le> 2147483647"
proof -
  have "linked (rows_of (db_rows db) c) (tbl_find lh_covenant_id c (db_heads db))"
    using assms(1) by (simp add: lineage_linked_def)
  then have l: "linked (rows_of (db_rows db) c) (Some h)" by (simp only: assms(3))
  then have "last (rows_of (db_rows db) c) \<in> set (rows_of (db_rows db) c)" by (auto simp: linked_def)
  then have "last (rows_of (db_rows db) c) \<in> set (db_rows db)" by (simp add: rows_of_def)
  then show ?thesis using l assms(2) by (auto simp: linked_def counts_fit_def)
qed

lemma reach_linked:
  assumes "lineage_reach env owner calm db" "\<forall>c. subgraph_id_new (owner c) = Inr (owner c)"
  shows "lineage_linked owner db \<and> counts_fit db \<and> (\<forall>c \<in> calm. gapless (rows_of (db_rows db) c))"
  using assms(1)
proof (induction rule: lineage_reach.induct)
  case (start db)
  then show ?case
    by (simp add: lineage_linked_def counts_fit_def rows_of_def linked_def gapless_def tbl_find_def)
next
  case (step db cl sg hit daa res db')
  then have ok: "lineage_linked owner db" "counts_fit db" "\<forall>c \<in> calm. gapless (rows_of (db_rows db) c)" by simp_all
  have sg: "subgraph_id_new sg = Inr sg" using assms(2) step.hyps(2) by blast
  note own = ok(1) sg step.hyps(2)
  have db': "db' = snd (persist_lineage env sg hit cl daa db)" using step.hyps(5) by simp
  show ?case
  proof (cases "countable_step db (lc_covenant_id cl)")
    case True
    have "gapless (rows_of (db_rows db') c)" if "c \<in> calm" for c
      using persist_gapless [OF own True] ok(3) step.hyps(4) that unfolding db' by blast
    moreover have "counts_fit db'"
    proof -
      have "fst (next_lineage_step (map_option lh_count (tbl_find lh_covenant_id (lc_covenant_id cl) (db_heads db)))) < 2147483647"
        using True by (cases "tbl_find lh_covenant_id (lc_covenant_id cl) (db_heads db)")
          (simp_all add: next_lineage_step_def countable_step_def Let_def)
      then show ?thesis
        using ok(2) by (simp add: db' persist_linked_eq [OF own True] Let_def counts_fit_def next_row_def)
    qed
    ultimately show ?thesis using persist_linked [OF own True step.hyps(3)] by (simp add: db')
  next
    case False
    then obtain h where h: "tbl_find lh_covenant_id (lc_covenant_id cl) (db_heads db) = Some h" "\<not> lh_count h < 2147483647"
      by (auto simp: countable_step_def option.pred_set)
    then have "lh_count h = 2147483647" using counts_fit_head [OF ok(1,2) h(1)] by simp
    then show ?thesis using persist_full [OF own h(1)] ok by (simp add: db')
  qed
next
  case (unwind db sg c n db')
  then have "db' = snd (unwind_covenant_lineage db sg c)" by simp
  then show ?case
    using unwind unwind_linked [of owner db sg c] unwind_gapless [of owner db _ sg c]
    by (auto simp: counts_fit_def unwind_covenant_lineage_def Let_def tbl_delete_def)
next
  case (frame db db')
  then show ?case by (simp add: lineage_linked_def counts_fit_def)
qed

text \<open>C9: a covenant's lineage and its head agree. Let every covenant be recorded by one subgraph, its owner, whose id is valid, and output indices be below 2 ^ 31. In every
  store reached by recording steps, at any scores, and unwinding, at any scores, the rows of a covenant have growing numbers
  in the order they were recorded, a head exists exactly for the covenants with rows, and it names the last row's
  output and score and counts one more than its number; and the owner's next step is recorded without an error, unless
  the count is the largest an \<open>i32\<close> holds. If no step of a covenant came at a score below an earlier row, its rows are numbered
  from zero without a gap, in the order of their scores.\<close>

theorem lineage_wellformed:
  assumes "lineage_reach env owner calm db" "\<forall>c. subgraph_id_new (owner c) = Inr (owner c)"
  shows "lineage_linked owner db \<and> (\<forall>c \<in> calm. gapless (rows_of (db_rows db) c)) \<and>
    (countable_step db (lc_covenant_id class) \<longrightarrow>
      fst (persist_lineage env (owner (lc_covenant_id class)) hit class daa db) = Inr ())"
proof -
  have sg: "subgraph_id_new (owner (lc_covenant_id class)) = Inr (owner (lc_covenant_id class))" using assms(2) by blast
  have linked: "lineage_linked owner db" using reach_linked [OF assms] by blast
  show ?thesis using reach_linked [OF assms] persist_linked_eq [OF linked sg refl] by simp
qed

definition sample_env :: node_env where
  "sample_env = \<lparr>env_hash = (\<lambda>b. take 32 (b @ replicate 32 0)), env_hex_encode = base16_encode,
     env_hex_decode = base16_decode, env_to_vec = (\<lambda>_. [1]), env_to_string = (\<lambda>_. ''null'')\<rparr>"

definition sample_hit :: "string \<Rightarrow> detected_pattern" where
  "sample_hit tx = \<lparr>dp_kind = OpenSilverVault, dp_covenant_id = None, dp_tx_hash = tx, dp_output_index = 0,
     dp_payload = JObject []\<rparr>"

definition sample_lineage :: store_db where
  "sample_lineage = snd (persist_lineage sample_env ''main'' (sample_hit ''b'') (Transition ''c'' ''a:0'') 9
     (snd (persist_lineage sample_env ''main'' (sample_hit ''a'') (Genesis ''c'') 5 empty_db)))"

lemma sample_lineage_reach: "lineage_reach sample_env (\<lambda>_. ''main'') UNIV sample_lineage"
proof -
  let ?db = "snd (persist_lineage sample_env ''main'' (sample_hit ''a'') (Genesis ''c'') 5 empty_db)"
  have "lineage_reach sample_env (\<lambda>_. ''main'') UNIV empty_db"
    by (rule lineage_reach.start) (simp_all add: empty_db_def)
  then have "lineage_reach sample_env (\<lambda>_. ''main'') UNIV ?db"
    by (rule lineage_reach.step [OF _ refl _ _ surjective_pairing])
      (simp_all add: sample_hit_def empty_db_def rows_of_def)
  moreover have "\<forall>r \<in> set (rows_of (db_rows ?db) ''c''). lr_daa r \<le> 9"
    by code_simp
  ultimately have "lineage_reach sample_env (\<lambda>_. ''main'') UNIV
      (snd (persist_lineage sample_env ''main'' (sample_hit ''b'') (Transition ''c'' ''a:0'') 9 ?db))"
    using lineage_reach.step [of sample_env "\<lambda>_. ''main''" UNIV ?db "Transition ''c'' ''a:0''" "''main''" "sample_hit ''b''" 9,
        OF _ refl _ _ surjective_pairing]
    by (simp add: sample_hit_def)
  then show ?thesis by (simp add: sample_lineage_def)
qed

lemma lineage_wellformed_witness:
  "length (db_rows sample_lineage) = 2 \<and> lineage_linked (\<lambda>_. ''main'') sample_lineage \<and> gapless (rows_of (db_rows sample_lineage) ''c'')"
proof -
  have "subgraph_id_new ''main'' = Inr ''main''" "length (db_rows sample_lineage) = 2"
    by code_simp+
  then show ?thesis using lineage_wellformed [OF sample_lineage_reach] by blast
qed

text \<open>A step at a lower score is recorded, and when an unwind removes the rows above it a gap is left.\<close>

lemma lower_step_leaves_gap:
  "(let db = snd (persist_lineage sample_env ''main'' (sample_hit ''b'') (Transition ''c'' ''a:0'') 5
        (snd (persist_lineage sample_env ''main'' (sample_hit ''a'') (Genesis ''c'') 9 empty_db)))
    in map lr_seq (db_rows (snd (unwind_covenant_lineage db ''main'' 7))) = [1])"
  by code_simp

text \<open>With two subgraphs the head can be left stale: when one subgraph opened the lineage and another one
  recorded its next step, unwinding that step leaves the head on the deleted row, with its count.\<close>

lemma foreign_head_left_stale:
  "(let db = snd (persist_lineage sample_env ''b'' (sample_hit ''y'') (Transition ''c'' ''x:0'') 9
        (snd (persist_lineage sample_env ''a'' (sample_hit ''x'') (Genesis ''c'') 5 empty_db)));
      db' = snd (unwind_covenant_lineage db ''b'' 9)
    in map lr_tx_hash (db_rows db') = [''x''] \<and>
       map (\<lambda>h. (lh_current_utxo h, lh_count h)) (db_heads db') = [(''y:0'', 2)])"
  by code_simp

text \<open>Or the lineage can be blocked: when the subgraph that opened it unwinds, even above every row, the head goes back to that
  subgraph's own last row, and the next step takes a number the other subgraph has used.\<close>

lemma foreign_rows_block_lineage:
  "(let db = snd (persist_lineage sample_env ''b'' (sample_hit ''y'') (Transition ''c'' ''x:0'') 9
        (snd (persist_lineage sample_env ''a'' (sample_hit ''x'') (Genesis ''c'') 5 empty_db)));
      db' = snd (unwind_covenant_lineage db ''a'' 20)
    in map (\<lambda>h. (lh_current_utxo h, lh_count h)) (db_heads db') = [(''x:0'', 1)] \<and>
       fst (persist_lineage sample_env ''a'' (sample_hit ''z'') (Transition ''c'' ''y:0'') 30 db') = Inl (Store_failed Query_error))"
  by code_simp

end
