(* ===== verification/Store_Facts.thy ===== *)
theory Store_Facts
  imports Store_Db
begin

text \<open>
  What the tables of a subgraph's schema promise: unwinding at a score undoes exactly the writes at or
  above it, and a snapshot is the latest state of every entity.
\<close>

section \<open>Tables whose rows carry a score\<close>

locale scored_table =
  fixes key :: "'r \<Rightarrow> 'k" and upd :: "'r \<Rightarrow> 'r \<Rightarrow> 'r" and score :: "'r \<Rightarrow> int"
  assumes key_upd: "key (upd q r) = key q"
    and score_upd: "key q = key r \<Longrightarrow> score (upd q r) = score r"
begin

definition put :: "'r list \<Rightarrow> 'r list \<Rightarrow> 'r list" where
  "put t ws = foldl (\<lambda>t r. tbl_upsert key upd r t) t ws"

text \<open>Rows under one key lie on one side of the cutoff.\<close>

definition one_sided :: "int \<Rightarrow> 'r set \<Rightarrow> bool" where
  "one_sided c R \<longleftrightarrow> (\<forall>q \<in> R. \<forall>r \<in> R. key q = key r \<longrightarrow> (c \<le> score q \<longleftrightarrow> c \<le> score r))"

lemma delete_put_above:
  "one_sided c (insert r (set t)) \<Longrightarrow> c \<le> score r \<Longrightarrow>
    tbl_delete (\<lambda>q. c \<le> score q) (tbl_upsert key upd r t) = tbl_delete (\<lambda>q. c \<le> score q) t"
  by (rule tbl_delete_upsert) (auto simp: one_sided_def score_upd)

lemma delete_put_below:
  assumes s: "one_sided c (insert r (set t))" and b: "score r < c"
  shows "tbl_delete (\<lambda>q. c \<le> score q) (tbl_upsert key upd r t) =
    tbl_upsert key upd r (tbl_delete (\<lambda>q. c \<le> score q) t)"
proof -
  have keep: "\<forall>q \<in> set t. key q = key r \<longrightarrow> score q < c"
    using s b unfolding one_sided_def by (metis insertI1 insertI2 not_le)
  then have hk: "has_key key (key r) (filter (\<lambda>q. \<not> c \<le> score q) t) = has_key key (key r) t"
    unfolding has_key_iff by (force simp: not_le)
  have "filter (\<lambda>q. \<not> c \<le> score q) (map (\<lambda>q. if key q = key r then upd q r else q) t) =
      map (\<lambda>q. if key q = key r then upd q r else q) (filter (\<lambda>q. \<not> c \<le> score q) t)"
    using keep by (induction t) (use b in \<open>auto simp: score_upd not_le\<close>)
  then show ?thesis
    using b hk by (simp add: tbl_delete_def tbl_upsert_def)
qed

lemma set_put: "set (tbl_upsert key upd r t) \<subseteq> insert r (set t \<union> (\<lambda>q. upd q r) ` {q \<in> set t. key q = key r})"
  by (auto simp: tbl_upsert_def)

lemma one_sided_put:
  assumes "one_sided c (R \<union> insert r (set t))"
  shows "one_sided c (R \<union> set (tbl_upsert key upd r t))"
proof -
  have rep: "\<exists>p \<in> R \<union> insert r (set t). key p = key q \<and> score p = score q"
    if q_in: "q \<in> R \<union> set (tbl_upsert key upd r t)" for q
  proof (cases "q \<in> R \<union> insert r (set t)")
    case False
    then obtain p where "p \<in> set t" "key p = key r" "q = upd p r"
      using q_in set_put [of r t] by blast
    then show ?thesis
      by (intro bexI [of _ r]) (simp_all add: key_upd score_upd)
  qed blast
  show ?thesis
    unfolding one_sided_def
  proof (intro ballI impI)
    fix q q' assume q: "q \<in> R \<union> set (tbl_upsert key upd r t)" "q' \<in> R \<union> set (tbl_upsert key upd r t)" "key q = key q'"
    obtain p where "p \<in> R \<union> insert r (set t)" "key p = key q" "score p = score q" using rep [OF q(1)] by blast
    moreover obtain p' where "p' \<in> R \<union> insert r (set t)" "key p' = key q'" "score p' = score q'" using rep [OF q(2)] by blast
    ultimately show "(c \<le> score q) = (c \<le> score q')"
      using assms q(3) unfolding one_sided_def by metis
  qed
qed

lemma one_sided_subset: "one_sided c R \<Longrightarrow> S \<subseteq> R \<Longrightarrow> one_sided c S"
  by (auto simp: one_sided_def)

lemma one_sided_split:
  "\<forall>q \<in> A. c \<le> score q \<Longrightarrow> \<forall>r \<in> B. score r < c \<Longrightarrow> \<forall>q \<in> A. \<forall>r \<in> B. key q \<noteq> key r \<Longrightarrow> one_sided c (A \<union> B)"
  unfolding one_sided_def by (metis Un_iff not_le)

lemma unwind_put:
  "one_sided c (set ws \<union> set t) \<Longrightarrow>
    tbl_delete (\<lambda>q. c \<le> score q) (put t ws) = put (tbl_delete (\<lambda>q. c \<le> score q) t) (filter (\<lambda>r. score r < c) ws)"
proof (induction ws arbitrary: t)
  case (Cons r ws)
  have s: "one_sided c (insert r (set t))"
    by (rule one_sided_subset [OF Cons.prems]) auto
  have "one_sided c (set ws \<union> set (tbl_upsert key upd r t))"
    by (rule one_sided_put, rule one_sided_subset [OF Cons.prems]) auto
  note IH = Cons.IH [OF this]
  show ?case
  proof (cases "score r < c")
    case True
    then show ?thesis using IH delete_put_below [OF s True] by (simp add: put_def)
  next
    case False
    then show ?thesis using IH delete_put_above [OF s] by (simp add: put_def)
  qed
qed (simp add: put_def)

lemma unique_put: "unique_key key t \<Longrightarrow> unique_key key (put t ws)"
  by (induction ws arbitrary: t) (simp_all add: put_def unique_key_upsert key_upd)

end

interpretation entity_tbl: scored_table entity_pk "\<lambda>old new. old\<lparr>ev_state := ev_state new\<rparr>" ev_block_daa
  by unfold_locales (simp_all add: entity_pk_def)

interpretation utxo_tbl: scored_table utxo_pk
  "\<lambda>old new. old\<lparr>cu_daa := cu_daa new, cu_kind := cu_kind new, cu_covenant_id := cu_covenant_id new,
    cu_value := cu_value new, cu_state := cu_state new\<rparr>" cu_daa
  by unfold_locales (simp_all add: utxo_pk_def)

interpretation spend_tbl: scored_table spend_pk
  "\<lambda>old new. old\<lparr>cs_daa := cs_daa new, cs_kind := cs_kind new, cs_covenant_id := cs_covenant_id new,
    cs_value := cs_value new, cs_successor := cs_successor new\<rparr>" cs_daa
  by unfold_locales (simp_all add: spend_pk_def)

section \<open>A reorganisation undoes exactly the dropped blocks\<close>

datatype schema_write = WEntity entity_version | WUtxo covenant_utxo | WSpend covenant_spend

fun write_daa :: "schema_write \<Rightarrow> i64" where
  "write_daa (WEntity r) = ev_block_daa r"
| "write_daa (WUtxo r) = cu_daa r"
| "write_daa (WSpend r) = cs_daa r"

fun apply_write :: "schema_tables \<Rightarrow> schema_write \<Rightarrow> schema_tables" where
  "apply_write t (WEntity r) = upsert_entity_row r t"
| "apply_write t (WUtxo r) = track_utxo_row r t"
| "apply_write t (WSpend r) = record_spend_row r t"

definition apply_writes :: "schema_tables \<Rightarrow> schema_write list \<Rightarrow> schema_tables" where
  "apply_writes t ws = foldl apply_write t ws"

definition unwind_schema :: "i64 \<Rightarrow> schema_tables \<Rightarrow> schema_tables" where
  "unwind_schema c t = unwind_spend_rows c (unwind_utxo_rows c (unwind_entity_rows c t))"

definition entities_of :: "schema_write list \<Rightarrow> entity_version list" where
  "entities_of ws = concat (map (\<lambda>w. case w of WEntity r \<Rightarrow> [r] | _ \<Rightarrow> []) ws)"

definition utxos_of :: "schema_write list \<Rightarrow> covenant_utxo list" where
  "utxos_of ws = concat (map (\<lambda>w. case w of WUtxo r \<Rightarrow> [r] | _ \<Rightarrow> []) ws)"

definition spends_of :: "schema_write list \<Rightarrow> covenant_spend list" where
  "spends_of ws = concat (map (\<lambda>w. case w of WSpend r \<Rightarrow> [r] | _ \<Rightarrow> []) ws)"

lemma apply_writes_tables:
  "apply_writes t ws = \<lparr>st_entities = entity_tbl.put (st_entities t) (entities_of ws),
     st_utxos = utxo_tbl.put (st_utxos t) (utxos_of ws), st_spends = spend_tbl.put (st_spends t) (spends_of ws)\<rparr>"
proof (induction ws arbitrary: t)
  case Nil
  then show ?case by (simp add: apply_writes_def entities_of_def utxos_of_def spends_of_def
        entity_tbl.put_def utxo_tbl.put_def spend_tbl.put_def)
next
  case (Cons w ws)
  have "apply_writes t (w # ws) = apply_writes (apply_write t w) ws" by (simp add: apply_writes_def)
  then show ?case
    by (cases w) (simp_all add: Cons.IH entities_of_def utxos_of_def spends_of_def upsert_entity_row_def
        track_utxo_row_def record_spend_row_def entity_tbl.put_def utxo_tbl.put_def spend_tbl.put_def)
qed

lemma filter_of:
  "entities_of (filter (\<lambda>w. write_daa w < c) ws) = filter (\<lambda>r. ev_block_daa r < c) (entities_of ws)"
  "utxos_of (filter (\<lambda>w. write_daa w < c) ws) = filter (\<lambda>r. cu_daa r < c) (utxos_of ws)"
  "spends_of (filter (\<lambda>w. write_daa w < c) ws) = filter (\<lambda>r. cs_daa r < c) (spends_of ws)"
  by (induction ws) (auto simp: entities_of_def utxos_of_def spends_of_def split: schema_write.split)

text \<open>Entity versions carry their score in the key, so they never move across a cutoff.\<close>

lemma entity_one_sided: "entity_tbl.one_sided c R"
  by (auto simp: entity_tbl.one_sided_def entity_pk_def)

lemma unwind_writes:
  assumes "utxo_tbl.one_sided c (set (utxos_of ws) \<union> set (st_utxos t))"
    and "spend_tbl.one_sided c (set (spends_of ws) \<union> set (st_spends t))"
  shows "unwind_schema c (apply_writes t ws) = apply_writes (unwind_schema c t) (filter (\<lambda>w. write_daa w < c) ws)"
  using assms
  by (simp add: apply_writes_tables unwind_schema_def unwind_entity_rows_def unwind_utxo_rows_def
      unwind_spend_rows_def filter_of entity_tbl.unwind_put [OF entity_one_sided]
      utxo_tbl.unwind_put spend_tbl.unwind_put)

text \<open>C11: what unwinding a subgraph's schema at a score undoes. Whatever was written, in any order and with
  redeliveries, the entity versions after the unwind are those the writes below the score alone produce from
  the unwound table. The same holds of the whole schema, covenant outputs and spends included, if no output and no spend
  was recorded on both sides of the score; without this an output locked below the score can be lost
  (\<open>relocked_output_lost\<close>).\<close>

theorem schema_unwind_exact:
  "st_entities (unwind_schema c (apply_writes t ws)) =
     st_entities (apply_writes (unwind_schema c t) (filter (\<lambda>w. write_daa w < c) ws)) \<and>
   ((\<forall>q \<in> set (utxos_of ws @ st_utxos t). \<forall>r \<in> set (utxos_of ws @ st_utxos t).
       utxo_pk q = utxo_pk r \<longrightarrow> (c \<le> cu_daa q \<longleftrightarrow> c \<le> cu_daa r)) \<and>
    (\<forall>q \<in> set (spends_of ws @ st_spends t). \<forall>r \<in> set (spends_of ws @ st_spends t).
       spend_pk q = spend_pk r \<longrightarrow> (c \<le> cs_daa q \<longleftrightarrow> c \<le> cs_daa r)) \<longrightarrow>
    unwind_schema c (apply_writes t ws) = apply_writes (unwind_schema c t) (filter (\<lambda>w. write_daa w < c) ws))"
proof (intro conjI impI)
  show "st_entities (unwind_schema c (apply_writes t ws)) =
      st_entities (apply_writes (unwind_schema c t) (filter (\<lambda>w. write_daa w < c) ws))"
    by (simp add: apply_writes_tables unwind_schema_def unwind_entity_rows_def unwind_utxo_rows_def
        unwind_spend_rows_def filter_of entity_tbl.unwind_put [OF entity_one_sided])
next
  assume "(\<forall>q \<in> set (utxos_of ws @ st_utxos t). \<forall>r \<in> set (utxos_of ws @ st_utxos t).
       utxo_pk q = utxo_pk r \<longrightarrow> (c \<le> cu_daa q \<longleftrightarrow> c \<le> cu_daa r)) \<and>
    (\<forall>q \<in> set (spends_of ws @ st_spends t). \<forall>r \<in> set (spends_of ws @ st_spends t).
       spend_pk q = spend_pk r \<longrightarrow> (c \<le> cs_daa q \<longleftrightarrow> c \<le> cs_daa r))"
  then have "utxo_tbl.one_sided c (set (utxos_of ws) \<union> set (st_utxos t))" "spend_tbl.one_sided c (set (spends_of ws) \<union> set (st_spends t))"
    unfolding utxo_tbl.one_sided_def spend_tbl.one_sided_def set_append [symmetric] by blast+
  then show "unwind_schema c (apply_writes t ws) = apply_writes (unwind_schema c t) (filter (\<lambda>w. write_daa w < c) ws)"
    by (rule unwind_writes)
qed

definition sample_version :: "i64 \<Rightarrow> bool \<Rightarrow> entity_version" where
  "sample_version d v = \<lparr>ev_subgraph = ''main'', ev_type = ''Vault'', ev_id = ''a'', ev_block_daa = d, ev_state = JBool v\<rparr>"

definition sample_lock :: "i64 \<Rightarrow> covenant_utxo" where
  "sample_lock d = \<lparr>cu_subgraph = ''main'', cu_tx_hash = ''t'', cu_output_index = 0, cu_daa = d,
     cu_kind = ''OpenSilverVault'', cu_covenant_id = Some ''c'', cu_value = 7, cu_state = JNull\<rparr>"

definition sample_writes :: "schema_write list" where
  "sample_writes = [WEntity (sample_version 5 True), WUtxo (sample_lock 5), WEntity (sample_version 12 False),
     WEntity (sample_version 5 True)]"

lemma schema_unwind_exact_witness:
  "unwind_schema 10 (apply_writes empty_schema sample_writes) =
    apply_writes empty_schema [WEntity (sample_version 5 True), WUtxo (sample_lock 5), WEntity (sample_version 5 True)]"
proof -
  have "unwind_schema 10 (apply_writes empty_schema sample_writes) =
      apply_writes (unwind_schema 10 empty_schema) (filter (\<lambda>w. write_daa w < 10) sample_writes)"
    by (rule schema_unwind_exact [THEN conjunct2, rule_format]) (simp add: sample_writes_def utxos_of_def spends_of_def empty_schema_def)
  also have "\<dots> = apply_writes empty_schema [WEntity (sample_version 5 True), WUtxo (sample_lock 5), WEntity (sample_version 5 True)]"
    by (simp add: sample_writes_def sample_version_def sample_lock_def unwind_schema_def empty_schema_def
        unwind_entity_rows_def unwind_utxo_rows_def unwind_spend_rows_def tbl_delete_def)
  finally show ?thesis .
qed

text \<open>The proviso matters: an output recorded again at a later score is forgotten when that later block is
  unwound, although the earlier block that locked it survives.\<close>

lemma relocked_output_lost:
  "st_utxos (unwind_schema 10 (apply_writes empty_schema [WUtxo (sample_lock 5), WUtxo (sample_lock 12)])) = []"
  by code_simp

section \<open>Snapshots\<close>

lemma distinct_on_sub: "set (distinct_on f rs) \<subseteq> set rs"
proof (induction f rs rule: distinct_on.induct)
  case (2 f r rs)
  then show ?case using set_dropWhileD by fastforce
qed simp

lemma dropWhile_sorted_gt:
  assumes "sorted (map f (r # rs))" "q \<in> set (dropWhile (\<lambda>q. f q = f r) rs)"
  shows "f r < (f q :: 'k::linorder)"
  using assms
proof (induction rs)
  case (Cons a rs)
  show ?case
  proof (cases "f a = f r")
    case False
    then have lt: "f r < f a" using Cons.prems(1) by (simp add: order_le_neq_trans)
    moreover have "f a \<le> f q" using Cons.prems False by auto
    ultimately show ?thesis by order
  qed (use Cons in auto)
qed simp

lemma sorted_dropWhile_map: "sorted (map f rs) \<Longrightarrow> sorted (map f (dropWhile P rs))"
  by (induction rs) auto

lemma distinct_on_sorted: "sorted (map f rs) \<Longrightarrow> sorted_wrt (<) (map f (distinct_on f rs))"
proof (induction f rs rule: distinct_on.induct)
  case (2 f r rs)
  let ?d = "dropWhile (\<lambda>q. f q = f r) rs"
  have "sorted (map f ?d)" using "2.prems" by (intro sorted_dropWhile_map) simp
  moreover have "f r < f q" if "q \<in> set (distinct_on f ?d)" for q
    using that distinct_on_sub [of f ?d] dropWhile_sorted_gt [OF "2.prems"] by blast
  ultimately show ?case using "2.IH" by auto
qed simp

lemma find_dropWhile: "(\<And>q. P q \<Longrightarrow> \<not> Q q) \<Longrightarrow> find P (dropWhile Q rs) = find P rs"
  by (induction rs) auto

lemma find_distinct_on: "find (\<lambda>r. f r = k) (distinct_on f rs) = find (\<lambda>r. f r = k) rs"
proof (induction f rs rule: distinct_on.induct)
  case (2 f r rs)
  show ?case
  proof (cases "f r = k")
    case False
    then have "find (\<lambda>q. f q = k) (dropWhile (\<lambda>q. f q = f r) rs) = find (\<lambda>q. f q = k) rs"
      by (intro find_dropWhile) auto
    with False show ?thesis using 2 by simp
  qed simp
qed simp

lemma find_sorted_first:
  assumes "sorted (map g rs)" "find P rs = Some r" "q \<in> set rs" "P q"
  shows "g r \<le> (g q :: 'k::linorder)"
  using assms by (induction rs) (auto split: if_splits)

lemma find_SomeD: "find P rs = Some r \<Longrightarrow> r \<in> set rs \<and> P r"
  by (induction rs) (auto split: if_splits)

lemma sorted_prefix:
  "sorted (map (\<lambda>r. (a r, b r, c r)) rs) \<Longrightarrow> sorted (map (\<lambda>r. (a r :: 'x::linorder, b r :: 'y::linorder)) rs)"
  for c :: "'r \<Rightarrow> 'z::linorder"
  by (induction rs) (auto simp: less_eq_prod_def)

lemma map_of_find: "map_of (map (\<lambda>r. (f r, g r)) rs) k = map_option g (find (\<lambda>r. f r = k) rs)"
  by (induction rs) auto

text \<open>C37: a snapshot is the latest state of every entity. It lists each entity once, in key order, and the
  payload it gives for an entity is the one the latest-state query returns: the version with the
  highest score, or none if the entity was never written.\<close>

theorem snapshot_is_latest:
  assumes "unique_key entity_pk (st_entities t)"
  shows "sorted_wrt (<) (map (\<lambda>r. (sr_type r, sr_id r)) (snapshot_rows t)) \<and>
    map_of (map (\<lambda>r. ((sr_type r, sr_id r), sr_payload r)) (snapshot_rows t)) (ty, i) = latest_entity_row ty i t"
proof -
  let ?k = "\<lambda>r. (ev_type r, ev_id r)" and ?s = "\<lambda>r. (ev_type r, ev_id r, - ev_block_daa r)"
  let ?rs = "sort_key ?s (st_entities t)"
  have s: "sorted (map ?s ?rs)" by simp
  have k: "sorted (map ?k ?rs)" by (rule sorted_prefix [OF s])
  have "map (\<lambda>r. (sr_type r, sr_id r)) (snapshot_rows t) = map ?k (distinct_on ?k ?rs)"
    by (simp add: snapshot_rows_def)
  then have "sorted_wrt (<) (map (\<lambda>r. (sr_type r, sr_id r)) (snapshot_rows t))"
    using distinct_on_sorted [OF k] by simp
  moreover have "map_of (map (\<lambda>r. ((sr_type r, sr_id r), sr_payload r)) (snapshot_rows t)) (ty, i) =
      map_option ev_state (find (\<lambda>r. ?k r = (ty, i)) ?rs)"
    using find_distinct_on [of ?k "(ty, i)" ?rs] by (simp add: snapshot_rows_def map_of_find comp_def)
  moreover have "find (\<lambda>r. ?k r = (ty, i)) ?rs = max_by ev_block_daa (filter (\<lambda>r. ev_type r = ty \<and> ev_id r = i) (st_entities t))"
    (is "?f = max_by _ ?g")
  proof (cases ?f)
    case None
    then show ?thesis by (auto simp: find_None_iff filter_empty_conv)
  next
    case (Some r)
    then have r: "r \<in> set (st_entities t)" "ev_type r = ty" "ev_id r = i"
      using find_SomeD [OF Some] unfolding set_sort prod.inject by blast+
    have top: "ev_block_daa q \<le> ev_block_daa r" if "q \<in> set ?g" for q
      using find_sorted_first [OF s Some, of q] that r by (simp add: less_eq_prod_def)
    have "inj_on ev_block_daa (set ?g)"
      using assms by (auto simp: unique_key_def distinct_map inj_on_def entity_pk_def)
    with r top show ?thesis
      unfolding Some by (intro max_by_unique [symmetric]) auto
  qed
  ultimately show ?thesis by (simp add: latest_entity_row_def)
qed

lemma snapshot_is_latest_witness:
  "latest_entity_row ''Vault'' ''a'' (apply_writes empty_schema [WEntity (sample_version 5 True), WEntity (sample_version 3 False)]) =
    Some (JBool True)"
proof -
  let ?t = "apply_writes empty_schema [WEntity (sample_version 5 True), WEntity (sample_version 3 False)]"
  have "unique_key entity_pk (st_entities ?t)" by code_simp
  moreover have "map_of (map (\<lambda>r. ((sr_type r, sr_id r), sr_payload r)) (snapshot_rows ?t)) (''Vault'', ''a'') = Some (JBool True)"
    by code_simp
  ultimately show ?thesis using snapshot_is_latest [of ?t "''Vault''" "''a''"] by simp
qed

end
