(* ===== verification/Node_Persist.thy ===== *)
theory Node_Persist
  imports Ingestion Lineage Stream_Hub Kcc20_Operation Store_Facts
begin

text \<open>
  \<open>apply_and_persist_notification\<close> of \<open>src/crates/kasgraph-node/src/main.rs\<close>: one notification applied to
  a subgraph's ingestion state with everything it writes, publishes and dispatches, in the order of the
  code. The published events are kept in order; whether a stream hub is present is a flag. A panic is
  the error \<^const>\<open>Panicked\<close>; the state an error leaves holds the writes made before it.
\<close>

record node_state =
  ns_db :: store_db
  ns_ingestion :: ingestion_state
  ns_published :: "stream_event list"

definition on_db :: "(store_db, 'a) act \<Rightarrow> (node_state, 'a) act" where
  "on_db m = (\<lambda>s. case m (ns_db s) of (r, db) \<Rightarrow> (r, s\<lparr>ns_db := db\<rparr>))"

definition execute_counted :: "(store_db \<Rightarrow> store_error + nat \<times> store_db) \<Rightarrow> (store_db, nat) act" where
  "execute_counted f = (\<lambda>db. case f db of Inl e \<Rightarrow> (Inl (Store_failed e), db) | Inr (n, db') \<Rightarrow> (Inr n, db'))"

record notification_outcome =
  no_recovery :: "(u64 \<times> u64) option"
  no_committed :: nat

section \<open>The pieces of a persisted block\<close>

definition publish_hit_to_stream :: "bool \<Rightarrow> bootstrap_block \<Rightarrow> detected_pattern \<Rightarrow> (node_state, unit) act" where
  "publish_hit_to_stream hub b hit =
     (if \<not> hub then ret ()
      else let p0 = bt_insert ''output_index'' (JNumber (PosInt (ucast (dp_output_index hit))))
                 (bt_insert ''tx_hash'' (JString (dp_tx_hash hit)) []);
               p1 = (case dp_covenant_id hit of None \<Rightarrow> p0 | Some c \<Rightarrow> bt_insert ''covenant_id'' (JString c) p0);
               p2 = bt_insert ''detector_payload'' (dp_payload hit) p1;
               event = \<lparr>ev_daa = i64_as_u64 (bb_daa b), ev_block_hash = bb_hash b,
                        ev_kind = kind_name (dp_kind hit), ev_payload = JObject p2\<rparr>
           in update (\<lambda>s. s\<lparr>ns_published := ns_published s @ [event]\<rparr>))"

definition load_entity_snapshot :: "string \<Rightarrow> (store_db, entity_snapshot) act" where
  "load_entity_snapshot sg =
     bind (query (\<lambda>db. snapshot_entities db sg)) (\<lambda>rows.
       ret (map_of (rev (map (\<lambda>r. ((sr_type r, sr_id r), sr_payload r)) rows))))"

definition output_value :: "ingested_output list \<Rightarrow> detected_pattern \<Rightarrow> i64" where
  "output_value outs hit =
     (case find (\<lambda>x. io_tx_hash x = dp_tx_hash hit \<and> io_output_index x = dp_output_index hit) outs of
        None \<Rightarrow> 0 | Some x \<Rightarrow> u64_as_i64 (io_value x))"

definition detected_record_of :: "string \<Rightarrow> bootstrap_block \<Rightarrow> detected_pattern \<Rightarrow> string option \<Rightarrow> detected_record" where
  "detected_record_of sg b hit covenant_id =
     \<lparr>dt_subgraph = sg, dt_block_hash = bb_hash b, dt_daa = bb_daa b, dt_tx_hash = dp_tx_hash hit,
      dt_output_index = u32_as_i32 (dp_output_index hit), dt_kind = kind_name (dp_kind hit),
      dt_covenant_id = covenant_id, dt_payload = dp_payload hit\<rparr>"

definition utxo_record_of :: "string \<Rightarrow> bootstrap_block \<Rightarrow> detected_pattern \<Rightarrow> string option \<Rightarrow> covenant_utxo" where
  "utxo_record_of sg b hit covenant_id =
     \<lparr>cu_subgraph = sg, cu_tx_hash = dp_tx_hash hit, cu_output_index = u32_as_i32 (dp_output_index hit),
      cu_daa = bb_daa b, cu_kind = kind_name (dp_kind hit), cu_covenant_id = covenant_id,
      cu_value = output_value (bb_outputs b) hit, cu_state = dp_payload hit\<rparr>"

definition persist_hit ::
  "node_env \<Rightarrow> string \<Rightarrow> bool \<Rightarrow> bool \<Rightarrow> bootstrap_block \<Rightarrow> detected_pattern \<Rightarrow> (node_state, unit) act" where
  "persist_hit env sg mapped hub b hit =
     bind (if mapped then bind (on_db (classify_lineage env sg hit (bb_inputs b))) (\<lambda>c. ret (Some c)) else ret None)
       (\<lambda>lineage.
         let covenant_id = (case lineage of Some c \<Rightarrow> Some (lc_covenant_id c) | None \<Rightarrow> dp_covenant_id hit) in
         andthen (on_db (update (\<lambda>db. insert_detected_pattern db (detected_record_of sg b hit covenant_id))))
        (andthen (publish_hit_to_stream hub b hit)
          (if mapped
           then andthen (on_db (execute (\<lambda>db. track_covenant_utxo db (utxo_record_of sg b hit covenant_id))))
                  (case lineage of None \<Rightarrow> ret () | Some c \<Rightarrow> on_db (persist_lineage env sg hit c (bb_daa b)))
           else ret ())))"

definition upsert_records :: "entity_version list \<Rightarrow> (store_db, unit) act" where
  "upsert_records records = for_each records (\<lambda>r. execute (\<lambda>db. upsert_entity_version db r))"

text \<open>The hits of a block, then their dispatch through the mapping: the entity versions dispatched.\<close>

definition persist_hits ::
  "node_env \<Rightarrow> string \<Rightarrow> loaded_mapping option \<Rightarrow> bool \<Rightarrow> bootstrap_block \<Rightarrow> (node_state, entity_version list) act" where
  "persist_hits env sg mapping hub b =
     (if bb_hits b = [] then ret []
      else andthen (for_each (bb_hits b) (persist_hit env sg (mapping \<noteq> None) hub b))
        (case mapping of
           None \<Rightarrow> ret []
         | Some m \<Rightarrow> on_db (bind (load_entity_snapshot sg) (\<lambda>snapshot.
             let records = dispatch_committed_hits m (i64_as_u64 (bb_daa b)) (bb_hash b) (bb_hits b) snapshot
             in andthen (upsert_records records) (ret records)))))"

section \<open>Spends\<close>

type_synonym consumed_map = "(string \<times> (ingested_input \<times> utxo_match) list) list"

definition push_consumed :: "ingested_input \<Rightarrow> utxo_match \<Rightarrow> consumed_map \<Rightarrow> consumed_map" where
  "push_consumed i spent m =
     bt_insert (ii_spending_tx i)
       ((case map_of m (ii_spending_tx i) of None \<Rightarrow> [] | Some xs \<Rightarrow> xs) @ [(i, spent)]) m"

fun group_consumed :: "string \<Rightarrow> ingested_input list \<Rightarrow> consumed_map \<Rightarrow> (store_db, consumed_map) act" where
  "group_consumed sg [] m = ret m"
| "group_consumed sg (i # is) m =
     bind (query (\<lambda>db. lookup_covenant_utxo db sg (ii_previous_tx i) (u32_as_i32 (ii_previous_index i))))
       (\<lambda>spent. group_consumed sg is (case spent of None \<Rightarrow> m | Some x \<Rightarrow> push_consumed i x m))"

definition spend_operation_of ::
  "node_env \<Rightarrow> string \<Rightarrow> string \<Rightarrow> (ingested_input \<times> utxo_match) list \<Rightarrow> (store_db, string option) act" where
  "spend_operation_of env sg spending_tx consumed =
     (if list_all (\<lambda>(i, m). um_kind m = ''KCC20Asset'') consumed
      then bind (query (\<lambda>db. covenant_utxos_created_by_tx db sg spending_tx)) (\<lambda>created.
        ret (case kcc20_spend_operation (env_hex_decode env) (map (\<lambda>(i, m). um_state m) consumed)
                    (map um_state (filter (\<lambda>c. um_kind c = ''KCC20Asset'') created)) of
               Inl e \<Rightarrow> None
             | Inr k \<Rightarrow> Some (kcc20_operation_str k)))
      else ret None)"

definition spend_record_of ::
  "string \<Rightarrow> bootstrap_block \<Rightarrow> ingested_input \<Rightarrow> utxo_match \<Rightarrow> string option \<Rightarrow> covenant_spend" where
  "spend_record_of sg b i spent successor =
     \<lparr>cs_subgraph = sg, cs_spending_tx = ii_spending_tx i, cs_previous_tx = ii_previous_tx i,
      cs_previous_index = u32_as_i32 (ii_previous_index i), cs_daa = bb_daa b, cs_kind = um_kind spent,
      cs_covenant_id = um_covenant_id spent, cs_value = um_value spent, cs_successor = successor\<rparr>"

definition successor_of :: "string \<Rightarrow> string \<Rightarrow> utxo_match \<Rightarrow> (store_db, string option) act" where
  "successor_of sg spending_tx spent =
     (case um_covenant_id spent of
        None \<Rightarrow> ret None
      | Some c \<Rightarrow> bind (query (\<lambda>db. covenant_lineage_continues db sg spending_tx c))
          (\<lambda>continues. ret (if continues then Some c else None)))"

definition dispatch_spend ::
  "string \<Rightarrow> loaded_mapping \<Rightarrow> bootstrap_block \<Rightarrow> entity_snapshot \<Rightarrow> string option \<Rightarrow> string option \<Rightarrow> utxo_match
     \<Rightarrow> (store_db, unit) act" where
  "dispatch_spend sg m b snapshot operation successor spent =
     (case (operation, um_covenant_id spent) of
        (Some op_name, Some c) \<Rightarrow>
          (case resolve_handler (lm_descriptor m) (um_kind spent) EVENT_COVENANT_SPENT of
             None \<Rightarrow> ret ()
           | Some handler \<Rightarrow>
               (case dispatch_spend_hit m
                  \<lparr>sp_covenant_id = c, sp_operation = op_name, sp_value = int_to_string (um_value spent),
                   sp_successor = successor\<rparr>
                  (um_state spent) (i64_as_u64 (bb_daa b)) (bb_hash b) handler sg snapshot of
                  Inl e \<Rightarrow> ret ()
                | Inr (records, out) \<Rightarrow> upsert_records records))
      | _ \<Rightarrow> ret ())"

definition persist_consumed ::
  "node_env \<Rightarrow> string \<Rightarrow> loaded_mapping \<Rightarrow> bootstrap_block \<Rightarrow> entity_snapshot
     \<Rightarrow> string \<times> (ingested_input \<times> utxo_match) list \<Rightarrow> (store_db, unit) act" where
  "persist_consumed env sg m b snapshot entry =
     (case entry of (spending_tx, consumed) \<Rightarrow>
        bind (spend_operation_of env sg spending_tx consumed) (\<lambda>operation.
          for_each consumed (\<lambda>(i, spent).
            bind (successor_of sg spending_tx spent) (\<lambda>successor.
              andthen (execute (\<lambda>db. record_covenant_spend db (spend_record_of sg b i spent successor)))
                (dispatch_spend sg m b snapshot operation successor spent)))))"

definition persist_spends ::
  "node_env \<Rightarrow> string \<Rightarrow> loaded_mapping option \<Rightarrow> bootstrap_block \<Rightarrow> (store_db, unit) act" where
  "persist_spends env sg mapping b =
     (case mapping of
        None \<Rightarrow> ret ()
      | Some m \<Rightarrow>
          if bb_inputs b = [] then ret ()
          else bind (group_consumed sg (bb_inputs b) []) (\<lambda>consumed_by_tx.
            bind (load_entity_snapshot sg) (\<lambda>snapshot.
              for_each consumed_by_tx (persist_consumed env sg m b snapshot))))"

section \<open>The POI, a block, an unwind, a notification\<close>

definition committed_poi_input :: "(json \<Rightarrow> u8 list) \<Rightarrow> bootstrap_block \<Rightarrow> entity_version list \<Rightarrow> bool \<Rightarrow> u8 list" where
  "committed_poi_input ser b dispatched mapping_loaded =
     (if mapping_loaded then canonical_bytes_for_entities ser dispatched else bb_bytes b)"

definition persist_poi ::
  "node_env \<Rightarrow> string \<Rightarrow> bool \<Rightarrow> bootstrap_block \<Rightarrow> entity_version list \<Rightarrow> (node_state, unit) act" where
  "persist_poi env sg mapped b dispatched =
     (\<lambda>s. case compute_poi (env_hash env) (ing_prior_poi (ns_ingestion s))
                 (committed_poi_input (env_to_vec env) b dispatched mapped) of
            Inl e \<Rightarrow> (Inl (Poi_failed e), s)
          | Inr poi \<Rightarrow> (Inr (), s\<lparr>ns_ingestion := reseed_prior_poi poi (ns_ingestion s),
              ns_db := insert_poi_checkpoint (ns_db s) \<lparr>pr_subgraph = sg, pr_daa = bb_daa b, pr_hash = poi\<rparr>\<rparr>))"

definition persist_block ::
  "node_env \<Rightarrow> string \<Rightarrow> loaded_mapping option \<Rightarrow> bool \<Rightarrow> bootstrap_block \<Rightarrow> (node_state, unit) act" where
  "persist_block env sg mapping hub b =
     andthen (on_db (update (\<lambda>db. insert_rpc_block_audit db
        \<lparr>ra_block_hash = bb_hash b, ra_daa = bb_daa b, ra_served_by = bb_served_by b\<rparr>)))
    (andthen (on_db (update (\<lambda>db. record_committed_block db
        \<lparr>cr_subgraph = sg, cr_block_hash = bb_hash b, cr_daa = bb_daa b, cr_served_by = bb_served_by b\<rparr>)))
    (bind (persist_hits env sg mapping hub b) (\<lambda>dispatched.
     andthen (on_db (persist_spends env sg mapping b))
             (persist_poi env sg (mapping \<noteq> None) b dispatched))))"

definition unwind_mapping_tables :: "string \<Rightarrow> i64 \<Rightarrow> (store_db, unit) act" where
  "unwind_mapping_tables sg cutoff =
     andthen (execute_counted (\<lambda>db. unwind_entity_versions db sg cutoff))
    (andthen (execute_counted (\<lambda>db. unwind_covenant_utxos db sg cutoff))
    (andthen (execute_counted (\<lambda>db. unwind_covenant_spends db sg cutoff))
    (andthen (execute_counted (\<lambda>db. Inr (unwind_covenant_lineage db sg cutoff))) (ret ()))))"

definition persist_unwinds :: "string \<Rightarrow> bool \<Rightarrow> bootstrap_block list \<Rightarrow> (node_state, unit) act" where
  "persist_unwinds sg mapped unwinds =
     (if unwinds = [] then ret ()
      else andthen (on_db (update (\<lambda>db. snd (unwind_committed_blocks_for_subgraph db sg (map bb_hash unwinds)
             ''virtualChainChanged removed_chain_block_hashes''))))
          (andthen (if mapped then on_db (unwind_mapping_tables sg (Min (set (map bb_daa unwinds)))) else ret ())
          (bind (on_db (query (\<lambda>db. latest_poi_for_subgraph db sg))) (\<lambda>post.
             update (\<lambda>s. s\<lparr>ns_ingestion := reseed_prior_poi
               (case post of None \<Rightarrow> genesis_poi | Some cp \<Rightarrow> pr_hash cp) (ns_ingestion s)\<rparr>)))))"

definition ingest :: "node_env \<Rightarrow> chain_notification \<Rightarrow> (node_state, ingestion_transition) act" where
  "ingest env n = (\<lambda>s.
     case apply_notification (block_from_rpc (env_hex_decode env) (env_hex_encode env) (env_to_string env))
            (ns_ingestion s) n of
       Panics \<Rightarrow> (Inl Panicked, s)
     | Returns (st, t) \<Rightarrow> (Inr t, s\<lparr>ns_ingestion := st\<rparr>))"

definition apply_and_persist_notification ::
  "node_env \<Rightarrow> string \<Rightarrow> loaded_mapping option \<Rightarrow> bool \<Rightarrow> chain_notification
     \<Rightarrow> (node_state, notification_outcome) act" where
  "apply_and_persist_notification env sg mapping hub n =
     bind (ingest env n) (\<lambda>t.
       andthen (persist_unwinds sg (mapping \<noteq> None) (tr_unwinds t))
      (andthen (for_each (tr_writes t) (persist_block env sg mapping hub))
        (ret \<lparr>no_recovery = tr_recovery t, no_committed = length (tr_writes t)\<rparr>)))"

end
