(* ===== verification/Node_Facts.thy ===== *)
theory Node_Facts
  imports Node_Persist
begin

text \<open>
  What persisting a notification guarantees: the POI chain it stores, what a reorganisation leaves, what
  happens without a schema, and what the events it publishes contain.
\<close>

section \<open>Proof rules for fallible steps\<close>

text \<open>\<open>preserves I m\<close>: whatever \<open>m\<close> returns, it keeps \<open>I\<close>.\<close>

definition preserves :: "('s \<Rightarrow> bool) \<Rightarrow> ('s, 'a) act \<Rightarrow> bool" where
  "preserves I m \<longleftrightarrow> (\<forall>s. I s \<longrightarrow> I (snd (m s)))"

named_theorems preserves_rules

lemma preserves_ret [preserves_rules]: "preserves I (ret x)"
  by (simp add: preserves_def ret_def)

lemma preserves_bind [preserves_rules]:
  "preserves I m \<Longrightarrow> (\<And>x. preserves I (f x)) \<Longrightarrow> preserves I (bind m f)"
  unfolding preserves_def bind_def by (metis (no_types, lifting) old.prod.case prod.collapse snd_conv sum.case_eq_if)

lemma preserves_andthen [preserves_rules]: "preserves I m \<Longrightarrow> preserves I n \<Longrightarrow> preserves I (andthen m n)"
  unfolding andthen_def by (rule preserves_bind)

lemma preserves_for_each [preserves_rules]: "(\<And>x. preserves I (f x)) \<Longrightarrow> preserves I (for_each xs f)"
  by (induction xs) (simp_all add: preserves_rules)

lemma preserves_on_db [preserves_rules]:
  "(\<And>s db. I s \<Longrightarrow> I (s\<lparr>ns_db := db\<rparr>)) \<Longrightarrow> preserves I (on_db m)"
  by (simp add: preserves_def on_db_def case_prod_beta)

lemma preserves_if [preserves_rules]:
  "preserves I m \<Longrightarrow> preserves I n \<Longrightarrow> preserves I (if b then m else n)"
  by simp

lemma preserves_option [preserves_rules]:
  "preserves I m \<Longrightarrow> (\<And>x. preserves I (f x)) \<Longrightarrow> preserves I (case z of None \<Rightarrow> m | Some x \<Rightarrow> f x)"
  by (cases z) simp_all

lemma bind_Inl: "m s = (Inl e, s') \<Longrightarrow> bind m f s = (Inl e, s')"
  by (simp add: bind_def)

lemma bind_step: "m s = (Inr x, s1) \<Longrightarrow> bind m f s = f x s1"
  by (simp add: bind_def)

lemma andthen_step: "m s = (Inr x, s1) \<Longrightarrow> andthen m n s = n s1"
  by (simp add: andthen_def bind_def)

lemma andthen_Inl: "m s = (Inl e, s') \<Longrightarrow> andthen m n s = (Inl e, s')"
  by (simp add: andthen_def bind_def)

lemma andthen_Inr: "andthen m n s = (Inr y, s') \<longleftrightarrow> (\<exists>x s1. m s = (Inr x, s1) \<and> n s1 = (Inr y, s'))"
  by (simp add: andthen_def bind_Inr)

lemma on_db_update [simp]: "on_db (update f) s = (Inr (), s\<lparr>ns_db := f (ns_db s)\<rparr>)"
  by (simp add: on_db_def update_def)

lemma on_db_Inr: "on_db m s = (Inr x, s') \<longleftrightarrow> (\<exists>db. m (ns_db s) = (Inr x, db) \<and> s' = s\<lparr>ns_db := db\<rparr>)"
  by (auto simp: on_db_def split: prod.split)

section \<open>The POI chain of a subgraph without a mapping\<close>

lemma unmapped_hit:
  "persist_hit env sg False hub b h s =
    (Inr (), s\<lparr>ns_db := insert_detected_pattern (ns_db s) (detected_record_of sg b h (dp_covenant_id h)),
       ns_published := ns_published (snd (publish_hit_to_stream hub b h s))\<rparr>)"
  by (cases hub)
    (simp_all add: persist_hit_def bind_def ret_def andthen_def publish_hit_to_stream_def update_def on_db_def Let_def)

lemma unmapped_hits:
  "\<exists>det pub. for_each hits (persist_hit env sg False hub b) s =
    (Inr (), s\<lparr>ns_db := (ns_db s)\<lparr>db_detected := det\<rparr>, ns_published := pub\<rparr>)"
proof (induction hits arbitrary: s)
  case Nil
  show ?case by (intro exI [of _ "db_detected (ns_db s)"] exI [of _ "ns_published s"]) (simp add: ret_def)
next
  case (Cons h hits)
  let ?db = "insert_detected_pattern (ns_db s) (detected_record_of sg b h (dp_covenant_id h))"
  let ?s1 = "s\<lparr>ns_db := ?db, ns_published := ns_published (snd (publish_hit_to_stream hub b h s))\<rparr>"
  obtain det pub where "for_each hits (persist_hit env sg False hub b) ?s1 =
      (Inr (), ?s1\<lparr>ns_db := (ns_db ?s1)\<lparr>db_detected := det\<rparr>, ns_published := pub\<rparr>)"
    using Cons.IH by blast
  moreover have "for_each (h # hits) (persist_hit env sg False hub b) s =
      for_each hits (persist_hit env sg False hub b) ?s1"
    unfolding for_each.simps bind_def unmapped_hit [of env sg hub b h s] by simp
  ultimately show ?case
    by (intro exI [of _ det] exI [of _ pub]) (simp add: insert_detected_pattern_def)
qed

lemma unmapped_block:
  assumes "bb_bytes b \<noteq> []"
  shows "\<exists>s'. persist_block env sg None hub b s = (Inr (), s') \<and>
    db_poi (ns_db s') = db_poi (insert_poi_checkpoint (ns_db s)
      \<lparr>pr_subgraph = sg, pr_daa = bb_daa b, pr_hash = env_hash env (ing_prior_poi (ns_ingestion s) @ bb_bytes b)\<rparr>) \<and>
    db_committed (ns_db s') = db_committed (record_committed_block (ns_db s)
      \<lparr>cr_subgraph = sg, cr_block_hash = bb_hash b, cr_daa = bb_daa b, cr_served_by = bb_served_by b\<rparr>) \<and>
    ns_ingestion s' = reseed_prior_poi (env_hash env (ing_prior_poi (ns_ingestion s) @ bb_bytes b)) (ns_ingestion s)"
proof -
  have hits: "\<exists>det pub. persist_hits env sg None hub b s =
      (Inr [], s\<lparr>ns_db := (ns_db s)\<lparr>db_detected := det\<rparr>, ns_published := pub\<rparr>)" for s
  proof (cases "bb_hits b = []")
    case True
    then show ?thesis
      by (intro exI [of _ "db_detected (ns_db s)"] exI [of _ "ns_published s"]) (simp add: persist_hits_def ret_def)
  next
    case False
    obtain det pub where h: "for_each (bb_hits b) (persist_hit env sg False hub b) s =
        (Inr (), s\<lparr>ns_db := (ns_db s)\<lparr>db_detected := det\<rparr>, ns_published := pub\<rparr>)"
      using unmapped_hits by blast
    show ?thesis
      using False by (intro exI [of _ det] exI [of _ pub]) (simp add: persist_hits_def andthen_def bind_def h ret_def)
  qed
  let ?s1 = "s\<lparr>ns_db := record_committed_block (insert_rpc_block_audit (ns_db s)
        \<lparr>ra_block_hash = bb_hash b, ra_daa = bb_daa b, ra_served_by = bb_served_by b\<rparr>)
      \<lparr>cr_subgraph = sg, cr_block_hash = bb_hash b, cr_daa = bb_daa b, cr_served_by = bb_served_by b\<rparr>\<rparr>"
  obtain det pub where h: "persist_hits env sg None hub b ?s1 =
      (Inr [], ?s1\<lparr>ns_db := (ns_db ?s1)\<lparr>db_detected := det\<rparr>, ns_published := pub\<rparr>)"
    using hits by blast
  have "persist_block env sg None hub b s =
      persist_poi env sg False b [] (?s1\<lparr>ns_db := (ns_db ?s1)\<lparr>db_detected := det\<rparr>, ns_published := pub\<rparr>)"
    using h by (simp add: persist_block_def andthen_def bind_def persist_spends_def on_db_def update_def ret_def)
  then show ?thesis
    using assms by (simp add: persist_poi_def compute_poi_def committed_poi_input_def insert_poi_checkpoint_def
        record_committed_block_def insert_rpc_block_audit_def)
qed

abbreviation stored_poi :: "store_db \<Rightarrow> string \<Rightarrow> bootstrap_block \<Rightarrow> poi_hash option" where
  "stored_poi db sg b \<equiv> map_option pr_hash (tbl_find poi_pk (sg, bb_daa b) (db_poi db))"

lemma stored_poi_insert:
  "map_option pr_hash (tbl_find poi_pk (sg, d) (db_poi (insert_poi_checkpoint db \<lparr>pr_subgraph = sg, pr_daa = d', pr_hash = h\<rparr>))) =
    (if d = d' then Some h else map_option pr_hash (tbl_find poi_pk (sg, d) (db_poi db)))"
proof -
  let ?upd = "\<lambda>old new. old\<lparr>pr_hash := pr_hash new\<rparr>"
  have k: "poi_pk (?upd q r) = poi_pk q" for q r by (simp add: poi_pk_def)
  show ?thesis
    using tbl_find_upsert_same [of poi_pk ?upd "\<lparr>pr_subgraph = sg, pr_daa = d', pr_hash = h\<rparr>", OF k]
      tbl_find_upsert_other [of poi_pk ?upd _ "(sg, d)", OF k]
    by (auto simp: insert_poi_checkpoint_def poi_pk_def split: option.split)
qed

lemma unmapped_blocks:
  assumes "\<forall>b \<in> set bs. bb_bytes b \<noteq> []" "distinct (map bb_daa bs)"
  shows "\<exists>s'. for_each bs (persist_block env sg None hub) s = (Inr (), s') \<and>
    map (stored_poi (ns_db s') sg) bs =
      map Some (poi_chain (env_hash env) (ing_prior_poi (ns_ingestion s)) (map bb_bytes bs)) \<and>
    (\<forall>b. bb_daa b \<notin> bb_daa ` set bs \<longrightarrow> stored_poi (ns_db s') sg b = stored_poi (ns_db s) sg b) \<and>
    ing_prior_poi (ns_ingestion s') = final_poi (env_hash env) (ing_prior_poi (ns_ingestion s)) (map bb_bytes bs)"
  using assms
proof (induction bs arbitrary: s)
  case Nil
  show ?case by (simp add: ret_def final_poi_def)
next
  case (Cons b bs)
  let ?h = "env_hash env (ing_prior_poi (ns_ingestion s) @ bb_bytes b)"
  obtain s1 where s1: "persist_block env sg None hub b s = (Inr (), s1)"
      "db_poi (ns_db s1) = db_poi (insert_poi_checkpoint (ns_db s) \<lparr>pr_subgraph = sg, pr_daa = bb_daa b, pr_hash = ?h\<rparr>)"
      "ns_ingestion s1 = reseed_prior_poi ?h (ns_ingestion s)"
    using unmapped_block [of b env sg hub s] Cons.prems(1) by auto
  have poi1: "stored_poi (ns_db s1) sg q = (if bb_daa q = bb_daa b then Some ?h else stored_poi (ns_db s) sg q)" for q
    unfolding s1(2) by (rule stored_poi_insert)
  have "\<forall>b \<in> set bs. bb_bytes b \<noteq> []" "distinct (map bb_daa bs)" using Cons.prems by auto
  from Cons.IH [OF this, of s1] obtain s2 where s2: "for_each bs (persist_block env sg None hub) s1 = (Inr (), s2)"
      "map (stored_poi (ns_db s2) sg) bs = map Some (poi_chain (env_hash env) ?h (map bb_bytes bs))"
      "\<forall>b. bb_daa b \<notin> bb_daa ` set bs \<longrightarrow> stored_poi (ns_db s2) sg b = stored_poi (ns_db s1) sg b"
      "ing_prior_poi (ns_ingestion s2) = final_poi (env_hash env) ?h (map bb_bytes bs)"
    unfolding s1(3) by (auto simp: reseed_prior_poi_def)
  have "stored_poi (ns_db s2) sg b = Some ?h"
    using s2(3) Cons.prems(2) poi1 [of b] by auto
  then show ?case
    using s1(1) s2 poi1 by (intro exI [of _ s2]) (auto simp: bind_def final_poi_def)
qed

lemma write_all_distinct: "write_all bs m = Some m' \<Longrightarrow> distinct (map bb_daa bs) \<and> fst ` set m \<inter> bb_daa ` set bs = {}"
proof (induction bs m rule: write_all.induct)
  case (2 b bs m)
  then have "map_of m (bb_daa b) = None" "write_all bs (bt_insert (bb_daa b) b m) = Some m'"
    by (auto split: if_splits)
  with 2 show ?case by (auto simp: map_of_None_keys)
qed simp

lemma apply_block_frame:
  "ing_prior_poi (fst (apply_block st b)) = ing_prior_poi st"
  by (simp add: apply_block_def Let_def split: option.split prod.split)

lemma apply_added_frame:
  "apply_added conv bs (st, t) = Returns (st', t') \<Longrightarrow> ing_prior_poi st' = ing_prior_poi st"
proof (induction bs arbitrary: st t)
  case (Cons b bs)
  then obtain block where b: "conv b = Returns block" by (auto simp: run_bind_Returns_iff)
  obtain s1 t1 where a: "apply_block st block = (s1, t1)" by force
  have "ing_prior_poi s1 = ing_prior_poi st" using apply_block_frame [of st block] a by simp
  with Cons b a show ?case by fastforce
qed auto

lemma apply_notification_frame:
  "apply_notification conv st n = Returns (st', t) \<Longrightarrow> ing_prior_poi st' = ing_prior_poi st"
proof (cases n)
  case (BlockAdded b)
  assume "apply_notification conv st n = Returns (st', t)"
  then obtain block where "apply_block st block = (st', t)" by (auto simp: BlockAdded run_map_Returns_iff)
  then show ?thesis using apply_block_frame [of st block] by simp
next
  case (VirtualChainChanged removed added)
  assume "apply_notification conv st n = Returns (st', t)"
  then show ?thesis
    by (auto simp: VirtualChainChanged remove_probabilistic_by_hashes_def remove_committed_by_hashes_def Let_def
        split: prod.splits dest: apply_added_frame)
next
  case (RecoveryRequired lo hi reason)
  assume "apply_notification conv st n = Returns (st', t)"
  then show ?thesis
    by (auto simp: RecoveryRequired run_map_Returns_iff remove_probabilistic_in_range_def Let_def
        split: if_splits prod.splits)
qed

abbreviation conv_of :: "node_env \<Rightarrow> ingested_block \<Rightarrow> bootstrap_block run" where
  "conv_of env \<equiv> block_from_rpc (env_hex_decode env) (env_hex_encode env) (env_to_string env)"

text \<open>Without a mapping, a subgraph's checkpoints are the POI chain of its committed blocks. Every
  notification that unwinds nothing is persisted without an error, and afterwards the checkpoint at each
  block it committed is the hash of the previous POI and that block's canonical bytes, in commit order,
  checkpoints at other scores are as before, and the running POI is the last of the chain.\<close>

theorem unmapped_poi_chain:
  assumes "ing_ok (ns_ingestion s)"
    and "apply_notification (conv_of env) (ns_ingestion s) n = Returns (st, t)"
    and "tr_unwinds t = []" "\<forall>b \<in> set (tr_writes t). bb_bytes b \<noteq> []"
  shows "\<exists>s'. apply_and_persist_notification env sg None hub n s =
      (Inr \<lparr>no_recovery = tr_recovery t, no_committed = length (tr_writes t)\<rparr>, s') \<and>
    map (stored_poi (ns_db s') sg) (tr_writes t) =
      map Some (poi_chain (env_hash env) (ing_prior_poi (ns_ingestion s)) (map bb_bytes (tr_writes t))) \<and>
    (\<forall>b. bb_daa b \<notin> bb_daa ` set (tr_writes t) \<longrightarrow> stored_poi (ns_db s') sg b = stored_poi (ns_db s) sg b) \<and>
    ing_prior_poi (ns_ingestion s') =
      final_poi (env_hash env) (ing_prior_poi (ns_ingestion s)) (map bb_bytes (tr_writes t))"
proof -
  let ?s1 = "s\<lparr>ns_ingestion := st\<rparr>"
  have "ledger_step t (ing_committed (ns_ingestion s)) = Some (ing_committed st)"
    using apply_notification_ledger [OF assms(2,1)] by blast
  then have "distinct (map bb_daa (tr_writes t))"
    using write_all_distinct [of "tr_writes t"] by (simp add: ledger_step_def assms(3))
  from unmapped_blocks [OF assms(4) this, of env sg hub ?s1] obtain s' where
    s': "for_each (tr_writes t) (persist_block env sg None hub) ?s1 = (Inr (), s')"
      "map (stored_poi (ns_db s') sg) (tr_writes t) =
        map Some (poi_chain (env_hash env) (ing_prior_poi st) (map bb_bytes (tr_writes t)))"
      "\<forall>b. bb_daa b \<notin> bb_daa ` set (tr_writes t) \<longrightarrow> stored_poi (ns_db s') sg b = stored_poi (ns_db s) sg b"
      "ing_prior_poi (ns_ingestion s') = final_poi (env_hash env) (ing_prior_poi st) (map bb_bytes (tr_writes t))"
    by auto
  have "apply_and_persist_notification env sg None hub n s =
      (Inr \<lparr>no_recovery = tr_recovery t, no_committed = length (tr_writes t)\<rparr>, s')"
    using s'(1) by (simp add: apply_and_persist_notification_def ingest_def assms(2) persist_unwinds_def assms(3)
        andthen_def bind_def ret_def)
  then show ?thesis
    using s'(2-4) apply_notification_frame [OF assms(2)] by auto
qed

definition fresh_node :: "u64 option \<Rightarrow> node_state" where
  "fresh_node d = \<lparr>ns_db = empty_db, ns_ingestion = with_finality_depth d, ns_published = []\<rparr>"

lemma unmapped_poi_chain_witness:
  "\<exists>s'. apply_and_persist_notification sample_env ''main'' None False (BlockAdded (header_block ''a'' 5 True)) (fresh_node None) =
      (Inr \<lparr>no_recovery = None, no_committed = 1\<rparr>, s') \<and> length (db_poi (ns_db s')) = 1"
proof -
  let ?n = "BlockAdded (header_block ''a'' 5 True)" and ?conv = "conv_of sample_env"
  have run: "case apply_notification ?conv (with_finality_depth None) ?n of
      Returns (st, t) \<Rightarrow> tr_unwinds t = [] \<and> length (tr_writes t) = 1 \<and> tr_recovery t = None \<and>
        list_all (\<lambda>b. bb_bytes b \<noteq> []) (tr_writes t) | Panics \<Rightarrow> False"
    by code_simp
  then obtain st t where r: "apply_notification ?conv (ns_ingestion (fresh_node None)) ?n = Returns (st, t)"
      "tr_unwinds t = []" "length (tr_writes t) = 1" "tr_recovery t = None" "\<forall>b \<in> set (tr_writes t). bb_bytes b \<noteq> []"
    by (auto simp: fresh_node_def list_all_iff split: run.splits)
  have ok: "ing_ok (ns_ingestion (fresh_node None))" by (simp add: fresh_node_def ing_ok_init)
  have len: "case apply_and_persist_notification sample_env ''main'' None False ?n (fresh_node None) of
      (x, s') \<Rightarrow> length (db_poi (ns_db s')) = 1"
    by code_simp
  from unmapped_poi_chain [OF ok r(1,2,5), of "''main''" False] show ?thesis
    using len r(3,4) by auto
qed

section \<open>A reorganisation\<close>

lemma bt_insert_twice: "bt_insert k u (bt_insert k v m) = bt_insert k u m"
  by (induction k v m rule: bt_insert.induct) auto

definition removed_blocks :: "string list \<Rightarrow> ingestion_state \<Rightarrow> bootstrap_block list" where
  "removed_blocks removed st = map snd (filter (\<lambda>e. bb_hash (snd e) \<in> set removed) (ing_committed st))"

lemma unwind_mapping_tables_eq:
  assumes "map_of (db_schemas db) sg = Some tab"
  shows "unwind_mapping_tables sg c db = (Inr (), snd (unwind_covenant_lineage
    (db\<lparr>db_schemas := bt_insert sg (unwind_schema c tab) (db_schemas db)\<rparr>) sg c))"
proof -
  let ?put = "\<lambda>tab db. db\<lparr>db_schemas := bt_insert sg tab (db_schemas db)\<rparr>"
  let ?e = "unwind_entity_rows c tab"
  let ?u = "unwind_utxo_rows c ?e"
  have twice: "?put b (?put a db) = ?put b db" for a b db by (simp add: bt_insert_twice)
  have "execute_counted (\<lambda>db. unwind_entity_versions db sg c) db =
      (Inr (length (filter (\<lambda>r. c \<le> ev_block_daa r) (st_entities tab))), ?put ?e db)"
    by (simp add: execute_counted_def unwind_entity_versions_def delete_schema_def assms)
  moreover have "\<exists>k. execute_counted (\<lambda>db. unwind_covenant_utxos db sg c) (?put ?e db) = (Inr k, ?put ?u db)"
    by (simp add: execute_counted_def unwind_covenant_utxos_def delete_schema_def bt_insert_twice)
  moreover have "\<exists>k. execute_counted (\<lambda>db. unwind_covenant_spends db sg c) (?put ?u db) =
      (Inr k, ?put (unwind_schema c tab) db)"
    by (simp add: execute_counted_def unwind_covenant_spends_def delete_schema_def bt_insert_twice unwind_schema_def)
  ultimately show ?thesis
    by (auto simp: unwind_mapping_tables_def andthen_def bind_def ret_def execute_counted_def split: prod.split)
qed

definition recorded :: "store_db \<Rightarrow> string \<Rightarrow> bootstrap_block \<Rightarrow> bool" where
  "recorded db sg b \<longleftrightarrow> (\<exists>r \<in> set (db_committed db).
     cr_subgraph r = sg \<and> cr_block_hash r = bb_hash b \<and> cr_daa r = bb_daa b)"

lemma unwound_tables:
  assumes "hs \<noteq> []" "\<forall>h \<in> set hs. \<exists>r \<in> set (db_committed db). cr_subgraph r = sg \<and> cr_block_hash r = h"
  shows "db_committed (snd (unwind_committed_blocks_for_subgraph db sg hs why)) =
      filter (\<lambda>r. \<not> (cr_subgraph r = sg \<and> cr_block_hash r \<in> set hs)) (db_committed db) \<and>
    db_detected (snd (unwind_committed_blocks_for_subgraph db sg hs why)) =
      filter (\<lambda>r. \<not> (dt_subgraph r = sg \<and> dt_block_hash r \<in> set hs)) (db_detected db) \<and>
    db_poi (snd (unwind_committed_blocks_for_subgraph db sg hs why)) =
      filter (\<lambda>r. \<not> (pr_subgraph r = sg \<and>
        (\<exists>q \<in> set (db_committed db). cr_subgraph q = sg \<and> cr_block_hash q \<in> set hs \<and> cr_daa q = pr_daa r))) (db_poi db) \<and>
    db_schemas (snd (unwind_committed_blocks_for_subgraph db sg hs why)) = db_schemas db \<and>
    db_audit (snd (unwind_committed_blocks_for_subgraph db sg hs why)) = filter (\<lambda>a. ra_block_hash a \<notin> set hs) (db_audit db)"
proof -
  let ?rows = "filter (\<lambda>r. cr_subgraph r = sg \<and> cr_block_hash r \<in> set hs) (db_committed db)"
  let ?sorted = "sort_key (\<lambda>r. - cr_daa r) ?rows"
  have removed: "set (map cr_block_hash ?sorted) = set hs" using assms(2) by auto
  then have ne: "map cr_block_hash ?sorted \<noteq> []" using assms(1) by (metis set_empty)
  have scores: "s \<in> set (map cr_daa ?sorted) \<longleftrightarrow>
      (\<exists>q \<in> set (db_committed db). cr_subgraph q = sg \<and> cr_block_hash q \<in> set hs \<and> cr_daa q = s)" for s
    by auto
  show ?thesis
    unfolding unwind_committed_blocks_for_subgraph_def Let_def snd_conv if_not_P [OF ne] removed
    by (simp add: tbl_delete_def scores del: set_map)
qed

lemma unwound_reorg:
  assumes "\<forall>h \<in> set hs. \<exists>r \<in> set (db_committed db). cr_subgraph r = sg \<and> cr_block_hash r = h"
  shows "\<exists>a. db_reorgs (snd (unwind_committed_blocks_for_subgraph db sg hs why)) = db_reorgs db @ [a] \<and>
    rg_subgraph a = sg \<and> set (rg_removed a) = set hs \<and> rg_reason a = why"
proof -
  have "set (map cr_block_hash (sort_key (\<lambda>r. - cr_daa r)
      (filter (\<lambda>r. cr_subgraph r = sg \<and> cr_block_hash r \<in> set hs) (db_committed db)))) = set hs"
    using assms by auto
  then show ?thesis by (simp add: unwind_committed_blocks_for_subgraph_def Let_def)
qed

text \<open>What the lineage unwind leaves: no row at or above the cutoff; a head of the subgraph has a row left, and follows
  the last row the subgraph itself recorded; the heads of other subgraphs stay.\<close>

definition follows_row :: "lineage_head \<Rightarrow> lineage_row \<Rightarrow> bool" where
  "follows_row h r \<longleftrightarrow> lh_current_utxo h = lr_tx_hash r @ '':'' @ int_to_string (lr_output_index r) \<and>
     lh_last_seen_daa h = lr_daa r \<and> lh_count h = lr_seq r + 1"

definition lineage_unwound_at :: "string \<Rightarrow> i64 \<Rightarrow> store_db \<Rightarrow> store_db \<Rightarrow> bool" where
  "lineage_unwound_at sg cutoff db db' \<longleftrightarrow>
     db_rows db' = filter (\<lambda>r. \<not> (lr_subgraph r = sg \<and> cutoff \<le> lr_daa r)) (db_rows db) \<and>
     (\<forall>h \<in> set (db_heads db'). lh_subgraph h = sg \<longrightarrow> has_key lr_covenant_id (lh_covenant_id h) (db_rows db') \<and>
       pred_option (follows_row h)
         (max_by lr_seq (filter (\<lambda>r. lr_covenant_id r = lh_covenant_id h \<and> lr_subgraph r = sg) (db_rows db')))) \<and>
     filter (\<lambda>h. lh_subgraph h \<noteq> sg) (db_heads db') = filter (\<lambda>h. lh_subgraph h \<noteq> sg) (db_heads db)"

lemma unwound_lineage_tables:
  "db_rows (snd (unwind_committed_blocks_for_subgraph db sg hs why)) = db_rows db"
  "db_heads (snd (unwind_committed_blocks_for_subgraph db sg hs why)) = db_heads db"
  by (simp_all add: unwind_committed_blocks_for_subgraph_def Let_def)

lemma lineage_left_by_unwind:
  assumes "db_rows db1 = db_rows db" "db_heads db1 = db_heads db"
  shows "lineage_unwound_at sg cutoff db (snd (unwind_covenant_lineage db1 sg cutoff))"
proof -
  let ?db = "snd (unwind_covenant_lineage db1 sg cutoff)"
  let ?rows = "db_rows ?db"
  let ?gone = "\<lambda>h. lh_subgraph h = sg \<and> \<not> has_key lr_covenant_id (lh_covenant_id h) ?rows"
  have rows: "?rows = filter (\<lambda>r. \<not> (lr_subgraph r = sg \<and> cutoff \<le> lr_daa r)) (db_rows db)"
    by (simp add: unwind_covenant_lineage_def Let_def tbl_delete_def assms)
  have heads: "db_heads ?db = map (repoint_head ?rows sg) (tbl_delete ?gone (db_heads db))"
    by (simp add: unwind_covenant_lineage_def Let_def assms)
  have id: "lh_covenant_id (repoint_head ?rows sg h) = lh_covenant_id h" "lh_subgraph (repoint_head ?rows sg h) = lh_subgraph h"
      "lh_subgraph h \<noteq> sg \<Longrightarrow> repoint_head ?rows sg h = h" for h
    by (simp_all add: repoint_head_def split: option.split)
  have "has_key lr_covenant_id (lh_covenant_id h) ?rows \<and> pred_option (follows_row h)
      (max_by lr_seq (filter (\<lambda>r. lr_covenant_id r = lh_covenant_id h \<and> lr_subgraph r = sg) ?rows))"
    if h: "h \<in> set (db_heads ?db)" "lh_subgraph h = sg" for h
  proof -
    from h(1) obtain h0 where h0: "h = repoint_head ?rows sg h0" "\<not> ?gone h0" unfolding heads by (auto simp: tbl_delete_def)
    have "lh_subgraph h0 = sg" "lh_covenant_id h = lh_covenant_id h0" using h(2) by (simp_all add: h0(1) id)
    moreover have "pred_option (follows_row (repoint_head ?rows sg h0))
        (max_by lr_seq (filter (\<lambda>r. lr_covenant_id r = lh_covenant_id h0 \<and> lr_subgraph r = sg) ?rows))"
      using calculation(1) by (auto simp: repoint_head_def follows_row_def split: option.split)
    ultimately show ?thesis using h0 by simp
  qed
  moreover have "filter (\<lambda>h. lh_subgraph h \<noteq> sg) (db_heads ?db) = filter (\<lambda>h. lh_subgraph h \<noteq> sg) (db_heads db)"
  proof -
    have "filter (\<lambda>h. lh_subgraph h \<noteq> sg) (map (repoint_head ?rows sg) hs) = filter (\<lambda>h. lh_subgraph h \<noteq> sg) hs" for hs
      by (induction hs) (auto simp: id)
    then show ?thesis unfolding heads by (auto simp: tbl_delete_def intro: filter_cong)
  qed
  ultimately show ?thesis using rows by (simp add: lineage_unwound_at_def)
qed

lemma latest_poi_stored:
  assumes "\<forall>r \<in> set (db_poi db). length (pr_hash r) = 32"
  shows "latest_poi_for_subgraph db sg =
      Inr (map_option (\<lambda>r. \<lparr>pr_subgraph = sg, pr_daa = pr_daa r, pr_hash = pr_hash r\<rparr>)
        (max_by pr_daa (filter (\<lambda>r. pr_subgraph r = sg) (db_poi db))))"
proof (cases "max_by pr_daa (filter (\<lambda>r. pr_subgraph r = sg) (db_poi db))")
  case (Some r)
  then have "r \<in> set (db_poi db)" using max_by_Some [OF Some] by simp
  then show ?thesis using Some assms by (simp add: latest_poi_for_subgraph_def)
qed (simp add: latest_poi_for_subgraph_def)

lemma persist_unwinds_reseeds:
  fixes sg u s st why
  defines "db1 \<equiv> snd (unwind_committed_blocks_for_subgraph (ns_db s) sg (map bb_hash u)
      ''virtualChainChanged removed_chain_block_hashes'')"
  assumes "u \<noteq> []" and "unwind_mapping_tables sg (Min (set (map bb_daa u))) db1 = (Inr (), db2)"
    and "\<forall>r \<in> set (db_poi db2). length (pr_hash r) = 32"
  shows "persist_unwinds sg True u (s\<lparr>ns_ingestion := st\<rparr>) = (Inr (), s\<lparr>ns_db := db2, ns_ingestion := reseed_prior_poi
      (case max_by pr_daa (filter (\<lambda>r. pr_subgraph r = sg) (db_poi db2)) of None \<Rightarrow> genesis_poi | Some r \<Rightarrow> pr_hash r) st\<rparr>)"
  using assms(2,3) latest_poi_stored [OF assms(4), of sg] unfolding db1_def
  by (cases "max_by pr_daa (filter (\<lambda>r. pr_subgraph r = sg) (db_poi db2))")
    (simp_all add: persist_unwinds_def andthen_def bind_def on_db_def update_def query_def)

text \<open>C5: a reorganisation removes what the removed blocks left. When a notification removes committed
  blocks of a subgraph with a mapping and adds none, it is persisted without an error. Afterwards the
  subgraph's schema is the old one unwound at the lowest removed score and no other schema changed; its committed
  blocks and detected patterns are the old ones less those of the removed blocks, its checkpoints the old ones less
  those at a removed score, its lineage rows the old ones below the lowest removed score; each of its lineage heads has a row left and
  follows the last row the subgraph recorded of the covenant, and the heads of other subgraphs are as they were; the audit rows of
  the removed blocks are gone and one reorg audit names exactly the removed blocks; and the running POI is the
  latest checkpoint left, or the genesis one.\<close>

theorem reorg_leaves_no_trace:
  fixes env sg m hub removed s
  defines "u \<equiv> removed_blocks removed (ns_ingestion s)"
  assumes "ing_ok (ns_ingestion s)" "u \<noteq> []" "\<forall>b \<in> set u. recorded (ns_db s) sg b"
    and "map_of (db_schemas (ns_db s)) sg = Some tab"
    and "\<forall>r \<in> set (db_poi (ns_db s)). length (pr_hash r) = 32"
    and "\<forall>r \<in> set (db_committed (ns_db s)). \<forall>b \<in> set u. cr_subgraph r = sg \<and> cr_block_hash r = bb_hash b \<longrightarrow> cr_daa r = bb_daa b"
  shows "\<exists>s'. apply_and_persist_notification env sg (Some m) hub (VirtualChainChanged removed []) s =
      (Inr \<lparr>no_recovery = None, no_committed = 0\<rparr>, s') \<and>
    map_of (db_schemas (ns_db s')) =
      (map_of (db_schemas (ns_db s)))(sg \<mapsto> unwind_schema (Min (bb_daa ` set u)) tab) \<and>
    db_committed (ns_db s') = filter (\<lambda>r. \<not> (cr_subgraph r = sg \<and> cr_block_hash r \<in> bb_hash ` set u)) (db_committed (ns_db s)) \<and>
    db_detected (ns_db s') = filter (\<lambda>r. \<not> (dt_subgraph r = sg \<and> dt_block_hash r \<in> bb_hash ` set u)) (db_detected (ns_db s)) \<and>
    db_poi (ns_db s') = filter (\<lambda>r. \<not> (pr_subgraph r = sg \<and> pr_daa r \<in> bb_daa ` set u)) (db_poi (ns_db s)) \<and>
    lineage_unwound_at sg (Min (bb_daa ` set u)) (ns_db s) (ns_db s') \<and>
    db_audit (ns_db s') = filter (\<lambda>a. ra_block_hash a \<notin> bb_hash ` set u) (db_audit (ns_db s)) \<and>
    (\<exists>a. db_reorgs (ns_db s') = db_reorgs (ns_db s) @ [a] \<and> rg_subgraph a = sg \<and> set (rg_removed a) = bb_hash ` set u) \<and>
    ing_prior_poi (ns_ingestion s') =
      (case max_by pr_daa (filter (\<lambda>r. pr_subgraph r = sg) (db_poi (ns_db s'))) of None \<Rightarrow> genesis_poi | Some r \<Rightarrow> pr_hash r)"
proof -
  let ?db = "ns_db s" and ?c = "Min (set (map bb_daa u))" and ?why = "''virtualChainChanged removed_chain_block_hashes''"
  have ok: "bt_ok (ing_committed (ns_ingestion s))" "bt_ok (ing_probabilistic (ns_ingestion s))"
    using assms(2) by (simp_all add: ing_ok_def)
  obtain st rolled where n: "apply_notification (conv_of env) (ns_ingestion s) (VirtualChainChanged removed []) =
      Returns (st, \<lparr>tr_writes = [], tr_rolled_back = rolled, tr_unwinds = u, tr_recovery = None\<rparr>)"
    by (simp add: remove_probabilistic_by_hashes_def remove_committed_by_hashes_def remove_by_hashes_eq ok Let_def
        u_def removed_blocks_def)
  let ?db1 = "snd (unwind_committed_blocks_for_subgraph ?db sg (map bb_hash u) ?why)"
  have "map bb_hash u \<noteq> []"
      "\<forall>h \<in> set (map bb_hash u). \<exists>r \<in> set (db_committed ?db). cr_subgraph r = sg \<and> cr_block_hash r = h"
    using assms(3,4) by (auto simp: recorded_def)
  note t1 = unwound_tables [OF this, of ?why] and t1' = unwound_reorg [OF this(2), of ?why]
  have daas: "(\<exists>q \<in> set (db_committed ?db). cr_subgraph q = sg \<and> cr_block_hash q \<in> set (map bb_hash u) \<and> cr_daa q = d) \<longleftrightarrow>
      d \<in> bb_daa ` set u" for d
    using assms(4,7) unfolding recorded_def by (fastforce simp: image_iff)
  have poi1: "db_poi ?db1 = filter (\<lambda>r. \<not> (pr_subgraph r = sg \<and> pr_daa r \<in> bb_daa ` set u)) (db_poi ?db)"
    using t1 unfolding daas by blast
  let ?db2 = "snd (unwind_covenant_lineage (?db1\<lparr>db_schemas := bt_insert sg (unwind_schema ?c tab) (db_schemas ?db)\<rparr>) sg ?c)"
  have db2: "db_committed ?db2 = db_committed ?db1" "db_detected ?db2 = db_detected ?db1" "db_poi ?db2 = db_poi ?db1"
      "db_schemas ?db2 = bt_insert sg (unwind_schema ?c tab) (db_schemas ?db)" "db_audit ?db2 = db_audit ?db1"
      "db_reorgs ?db2 = db_reorgs ?db1"
    by (simp_all add: unwind_covenant_lineage_def Let_def)
  have lineage: "lineage_unwound_at sg ?c ?db ?db2"
    by (rule lineage_left_by_unwind) (simp_all add: unwound_lineage_tables)
  have unwound: "unwind_mapping_tables sg ?c ?db1 = (Inr (), ?db2)"
    using unwind_mapping_tables_eq [of ?db1 sg tab ?c] t1 assms(5) by simp
  let ?hash = "case max_by pr_daa (filter (\<lambda>r. pr_subgraph r = sg) (db_poi ?db2)) of None \<Rightarrow> genesis_poi | Some r \<Rightarrow> pr_hash r"
  let ?s' = "s\<lparr>ns_db := ?db2, ns_ingestion := reseed_prior_poi ?hash st\<rparr>"
  have "\<forall>r \<in> set (db_poi ?db2). length (pr_hash r) = 32" using assms(6) unfolding db2(3) poi1 by simp
  then have "persist_unwinds sg True u (s\<lparr>ns_ingestion := st\<rparr>) = (Inr (), ?s')"
    by (rule persist_unwinds_reseeds [OF assms(3) unwound])
  then have "apply_and_persist_notification env sg (Some m) hub (VirtualChainChanged removed []) s =
      (Inr \<lparr>no_recovery = None, no_committed = 0\<rparr>, ?s')"
    using n by (simp add: apply_and_persist_notification_def ingest_def andthen_def bind_def ret_def)
  moreover have "map_of (db_schemas (ns_db ?s')) =
      (map_of (db_schemas ?db))(sg \<mapsto> unwind_schema (Min (bb_daa ` set u)) tab)"
    using db2(4) by (auto simp: fun_eq_iff)
  moreover have "db_committed (ns_db ?s') = filter (\<lambda>r. \<not> (cr_subgraph r = sg \<and> cr_block_hash r \<in> bb_hash ` set u)) (db_committed ?db)"
      "db_detected (ns_db ?s') = filter (\<lambda>r. \<not> (dt_subgraph r = sg \<and> dt_block_hash r \<in> bb_hash ` set u)) (db_detected ?db)"
    using t1 db2(1,2) by simp_all
  moreover have "db_poi (ns_db ?s') = filter (\<lambda>r. \<not> (pr_subgraph r = sg \<and> pr_daa r \<in> bb_daa ` set u)) (db_poi ?db)"
    using poi1 db2(3) by simp
  moreover have "lineage_unwound_at sg (Min (bb_daa ` set u)) ?db (ns_db ?s')"
    using lineage by simp
  moreover have "db_audit (ns_db ?s') = filter (\<lambda>a. ra_block_hash a \<notin> bb_hash ` set u) (db_audit ?db)"
    using t1 db2(5) by simp
  moreover have "\<exists>a. db_reorgs (ns_db ?s') = db_reorgs ?db @ [a] \<and> rg_subgraph a = sg \<and> set (rg_removed a) = bb_hash ` set u"
    using t1' db2(6) by auto
  moreover have "ing_prior_poi (ns_ingestion ?s') =
      (case max_by pr_daa (filter (\<lambda>r. pr_subgraph r = sg) (db_poi (ns_db ?s'))) of None \<Rightarrow> genesis_poi | Some r \<Rightarrow> pr_hash r)"
    by (simp add: reseed_prior_poi_def)
  ultimately show ?thesis by (intro exI [of _ ?s'] conjI)
qed

definition reorg_node :: node_state where
  "reorg_node = (let b = plain_block ''b'' 7 True in
     \<lparr>ns_db = insert_poi_checkpoint (insert_poi_checkpoint
        (record_committed_block (ensure_subgraph_schema empty_db ''main'')
          \<lparr>cr_subgraph = ''main'', cr_block_hash = ''b'', cr_daa = 7, cr_served_by = ''rpc''\<rparr>)
          \<lparr>pr_subgraph = ''main'', pr_daa = 3, pr_hash = replicate 32 1\<rparr>)
          \<lparr>pr_subgraph = ''main'', pr_daa = 7, pr_hash = replicate 32 2\<rparr>,
      ns_ingestion = (with_finality_depth None)\<lparr>ing_committed := [(7, b)]\<rparr>, ns_published = []\<rparr>)"

definition idle_mapping :: loaded_mapping where
  "idle_mapping = \<lparr>lm_subgraph = ''main'', lm_descriptor = \<lparr>bd_name = ''main'', bd_wasm = ''main.wasm'', bd_data_sources = []\<rparr>,
     lm_runtime = (\<lambda>_ _. Inr \<lparr>do_logs = [], do_entity_ops = [], do_fuel = 0\<rparr>)\<rparr>"

lemma reorg_leaves_no_trace_witness:
  "\<exists>s'. apply_and_persist_notification sample_env ''main'' (Some idle_mapping) False
      (VirtualChainChanged [''b''] []) reorg_node = (Inr \<lparr>no_recovery = None, no_committed = 0\<rparr>, s') \<and>
    map pr_daa (db_poi (ns_db s')) = [3] \<and> ing_prior_poi (ns_ingestion s') = replicate 32 1"
proof -
  have u: "removed_blocks [''b''] (ns_ingestion reorg_node) = [plain_block ''b'' 7 True]"
    by (simp add: removed_blocks_def reorg_node_def plain_block_def Let_def)
  have ok: "ing_ok (ns_ingestion reorg_node)"
    by (simp add: reorg_node_def ing_ok_def with_finality_depth_def keyed_def bt_ok_def plain_block_def Let_def)
  have db: "db_committed (ns_db reorg_node) =
        [\<lparr>cr_subgraph = ''main'', cr_block_hash = ''b'', cr_daa = 7, cr_served_by = ''rpc''\<rparr>]"
      "db_poi (ns_db reorg_node) = [\<lparr>pr_subgraph = ''main'', pr_daa = 3, pr_hash = replicate 32 1\<rparr>,
         \<lparr>pr_subgraph = ''main'', pr_daa = 7, pr_hash = replicate 32 2\<rparr>]"
      "map_of (db_schemas (ns_db reorg_node)) ''main'' = Some empty_schema"
    by code_simp+
  have "\<exists>s'. apply_and_persist_notification sample_env ''main'' (Some idle_mapping) False
      (VirtualChainChanged [''b''] []) reorg_node = (Inr \<lparr>no_recovery = None, no_committed = 0\<rparr>, s') \<and>
    db_poi (ns_db s') = [\<lparr>pr_subgraph = ''main'', pr_daa = 3, pr_hash = replicate 32 1\<rparr>] \<and>
    ing_prior_poi (ns_ingestion s') =
      (case max_by pr_daa (filter (\<lambda>r. pr_subgraph r = ''main'') (db_poi (ns_db s'))) of None \<Rightarrow> genesis_poi | Some r \<Rightarrow> pr_hash r)"
    using reorg_leaves_no_trace [OF ok, of "[''b'']" "''main''" empty_schema sample_env idle_mapping False]
    by (auto simp: u db recorded_def plain_block_def)
  then show ?thesis by fastforce
qed

section \<open>A block without a schema\<close>

lemma has_key_upsert:
  "(\<And>q. key (upd q r) = key q) \<Longrightarrow> has_key key (key r) (tbl_upsert key upd r t)"
  using map_key_upsert [of key upd r t] by (auto simp: has_key_iff simp flip: set_map)

lemma classify_without_schema:
  "map_of (db_schemas db) sg = None \<Longrightarrow>
    classify_lineage env sg hit ins db = (Inl (Store_failed Query_error), db) \<or>
    (\<exists>c. classify_lineage env sg hit ins db = (Inr c, db))"
  by (induction ins) (auto simp: ret_def bind_def query_def lookup_covenant_utxo_def query_schema_def)

lemma persist_hit_without_schema:
  assumes "map_of (db_schemas (ns_db s)) sg = None"
  shows "\<exists>det pub. persist_hit env sg True hub b hit s =
    (Inl (Store_failed Query_error), s\<lparr>ns_db := (ns_db s)\<lparr>db_detected := det\<rparr>, ns_published := pub\<rparr>)"
proof -
  consider "classify_lineage env sg hit (bb_inputs b) (ns_db s) = (Inl (Store_failed Query_error), ns_db s)"
    | c where "classify_lineage env sg hit (bb_inputs b) (ns_db s) = (Inr c, ns_db s)"
    using classify_without_schema [OF assms] by blast
  then show ?thesis
  proof cases
    case 1
    then show ?thesis
      by (intro exI [of _ "db_detected (ns_db s)"] exI [of _ "ns_published s"])
        (simp add: persist_hit_def bind_def on_db_def)
  next
    case 2
    let ?det = "db_detected (insert_detected_pattern (ns_db s) (detected_record_of sg b hit (Some (lc_covenant_id c))))"
    show ?thesis
      by (intro exI [of _ ?det] exI [of _ "ns_published (snd (publish_hit_to_stream hub b hit s))"], cases hub)
        (simp_all add: persist_hit_def bind_def andthen_def on_db_def ret_def 2 update_def execute_def Let_def
          publish_hit_to_stream_def insert_detected_pattern_def track_covenant_utxo_def execute_schema_def
          utxo_record_of_def assms)
  qed
qed

text \<open>C38: without a schema a subgraph with a mapping stops at its first relevant block. If the schema was
  never created, persisting a block with a hit or an input fails with a query error, after the block was
  already recorded as committed, and no checkpoint is written and the running POI stays.\<close>

theorem missing_schema_stops:
  assumes "map_of (db_schemas (ns_db s)) sg = None" "bb_hits b \<noteq> [] \<or> bb_inputs b \<noteq> []"
  shows "case persist_block env sg (Some m) hub b s of (r, s') \<Rightarrow>
    r = Inl (Store_failed Query_error) \<and>
    has_key committed_pk (sg, bb_hash b) (db_committed (ns_db s')) \<and>
    db_poi (ns_db s') = db_poi (ns_db s) \<and> ns_ingestion s' = ns_ingestion s"
proof -
  let ?db = "record_committed_block (insert_rpc_block_audit (ns_db s)
        \<lparr>ra_block_hash = bb_hash b, ra_daa = bb_daa b, ra_served_by = bb_served_by b\<rparr>)
      \<lparr>cr_subgraph = sg, cr_block_hash = bb_hash b, cr_daa = bb_daa b, cr_served_by = bb_served_by b\<rparr>"
  let ?s = "s\<lparr>ns_db := ?db\<rparr>"
  have none: "map_of (db_schemas (ns_db ?s)) sg = None"
    using assms(1) by (simp add: record_committed_block_def insert_rpc_block_audit_def)
  have key: "has_key committed_pk (sg, bb_hash b) (db_committed ?db)"
    using has_key_upsert [of committed_pk "\<lambda>old new. old\<lparr>cr_daa := cr_daa new, cr_served_by := cr_served_by new\<rparr>"
        "\<lparr>cr_subgraph = sg, cr_block_hash = bb_hash b, cr_daa = bb_daa b, cr_served_by = bb_served_by b\<rparr>"]
    by (simp add: record_committed_block_def committed_pk_def)
  have poi: "db_poi ?db = db_poi (ns_db s)"
    by (simp add: record_committed_block_def insert_rpc_block_audit_def)
  have block: "persist_block env sg (Some m) hub b s =
      bind (persist_hits env sg (Some m) hub b) (\<lambda>dispatched.
        andthen (on_db (persist_spends env sg (Some m) b)) (persist_poi env sg True b dispatched)) ?s"
    by (simp add: persist_block_def andthen_def bind_def on_db_def update_def)
  show ?thesis
  proof (cases "bb_hits b")
    case Nil
    then obtain i rest where "bb_inputs b = i # rest" using assms(2) by (cases "bb_inputs b") auto
    then have "persist_block env sg (Some m) hub b s = (Inl (Store_failed Query_error), ?s)"
      using none by (simp add: block Nil persist_hits_def persist_spends_def bind_def andthen_def ret_def on_db_def
          query_def lookup_covenant_utxo_def query_schema_def)
    then show ?thesis using key poi by simp
  next
    case (Cons hit rest)
    obtain det pub where h: "persist_hit env sg True hub b hit ?s =
        (Inl (Store_failed Query_error), ?s\<lparr>ns_db := (ns_db ?s)\<lparr>db_detected := det\<rparr>, ns_published := pub\<rparr>)"
      using persist_hit_without_schema [OF none] by blast
    then have "persist_block env sg (Some m) hub b s =
        (Inl (Store_failed Query_error), ?s\<lparr>ns_db := (ns_db ?s)\<lparr>db_detected := det\<rparr>, ns_published := pub\<rparr>)"
      by (simp add: block Cons persist_hits_def bind_def andthen_def)
    then show ?thesis using key poi by simp
  qed
qed

lemma missing_schema_stops_witness:
  "fst (persist_block sample_env ''main'' (Some idle_mapping) False
      ((plain_block ''a'' 5 True)\<lparr>bb_hits := [sample_hit ''t'']\<rparr>) (fresh_node None)) = Inl (Store_failed Query_error)"
proof -
  have "map_of (db_schemas (ns_db (fresh_node None))) ''main'' = None"
    by (simp add: fresh_node_def empty_db_def)
  from missing_schema_stops [OF this, of "(plain_block ''a'' 5 True)\<lparr>bb_hits := [sample_hit ''t'']\<rparr>" sample_env idle_mapping False]
  show ?thesis by (auto split: prod.splits)
qed

section \<open>Published events\<close>

lemma detect_entries_unnamed:
  "detect_entries hexe s tx ix es = Returns hits \<Longrightarrow> \<forall>h \<in> set hits. dp_covenant_id h = None"
  by (induction es arbitrary: hits) (fastforce simp: run_bind_Returns_iff run_map_Returns_iff split: option.splits)+

lemma detect_outputs_unnamed:
  "detect_outputs hexd hexe outs = Returns hits \<Longrightarrow> \<forall>h \<in> set hits. dp_covenant_id h = None"
  by (induction outs arbitrary: hits)
    (fastforce simp: run_bind_Returns_iff run_map_Returns_iff detect_in_output_def dest: detect_entries_unnamed)+

text \<open>Which filters a published hit can match: a hit of a converted block is published as one event
  with the block's hash and score, and a filter matches it only if it is the one for all events or the
  one for the hit's pattern: the covenant, ticker and address filters never do, as the event carries
  neither the covenant id nor, at the top of its payload, the detector's fields.\<close>

theorem published_hit_filters:
  assumes "block_from_rpc hexd hexe ser rb = Returns b" "hit \<in> set (bb_hits b)"
    and "publish_hit_to_stream True b hit s = (Inr (), s')"
  shows "\<exists>e. s' = s\<lparr>ns_published := ns_published s @ [e]\<rparr> \<and> ev_block_hash e = ib_hash rb \<and>
    ev_daa e = ib_daa rb \<and>
    (\<forall>f. event_matches e f \<longleftrightarrow> f = AllFilter \<or> f = OpenSilverPatternFilter (kind_name (dp_kind hit)))"
proof -
  have "dp_covenant_id hit = None" and b: "bb_hash b = ib_hash rb" "bb_daa b = u64_as_i64 (ib_daa rb)"
    using assms(1,2) detect_outputs_unnamed [of hexd hexe "ib_outputs rb"]
    by (auto simp: block_from_rpc_def run_map_Returns_iff)
  let ?e = "\<lparr>ev_daa = i64_as_u64 (bb_daa b), ev_block_hash = bb_hash b, ev_kind = kind_name (dp_kind hit),
    ev_payload = JObject (bt_insert ''detector_payload'' (dp_payload hit)
      (bt_insert ''output_index'' (JNumber (PosInt (ucast (dp_output_index hit))))
        (bt_insert ''tx_hash'' (JString (dp_tx_hash hit)) [])))\<rparr>"
  have "s' = s\<lparr>ns_published := ns_published s @ [?e]\<rparr>"
    using assms(3) by (simp add: publish_hit_to_stream_def \<open>dp_covenant_id hit = None\<close> Let_def)
  moreover have "event_matches ?e f \<longleftrightarrow> f = AllFilter \<or> f = OpenSilverPatternFilter (kind_name (dp_kind hit))" for f
    by (cases f) (auto simp: payload_string_def ADDRESS_FIELDS_def get_str_def)
  ultimately show ?thesis
    using b by (intro exI [of _ ?e] conjI allI) simp_all
qed

definition script_block :: "u8 list \<Rightarrow> ingested_block" where
  "script_block script = (header_block ''a'' 5 True)\<lparr>ib_outputs :=
     [\<lparr>io_tx_hash = ''t'', io_output_index = 0, io_script = script, io_value = 1\<rparr>]\<rparr>"

lemma published_hit_filters_witness:
  "\<exists>script b s' e. block_from_rpc base16_decode base16_encode (\<lambda>_. []) (script_block script) = Returns b \<and>
    publish_hit_to_stream True b (hd (bb_hits b)) (fresh_node None) = (Inr (), s') \<and>
    ns_published s' = [e] \<and> ev_daa e = 5 \<and> \<not> event_matches e (CovenantIdFilter ''c'')"
proof -
  obtain reg where reg: "build_registry base16_decode = Returns reg" "disjoint_registry reg"
      "map entry_kind reg = map fst registry_signatures"
    using registry_disjoint by blast
  have "reg \<noteq> []" using reg(3) by (auto simp: registry_signatures_def)
  then obtain e where e: "e \<in> set reg" by (cases reg) auto
  let ?script = "pm_instance (entry_matcher e) (\<lambda>_. []) []"
  have ok: "pm_ok (entry_matcher e)" using reg(2) e by (auto simp: disjoint_registry_def)
  obtain out where "detect_entries base16_encode ?script ''t'' 0 reg = Returns [\<lparr>dp_kind = entry_kind e,
      dp_covenant_id = None, dp_tx_hash = ''t'', dp_output_index = 0, dp_payload = payload_to_json base16_encode out\<rparr>]"
    using detect_disjoint [OF reg(2) e pm_instance_matches [OF ok], where hexe = base16_encode and tx = "''t''" and ix = 0]
    by blast
  then have "\<exists>b h. block_from_rpc base16_decode base16_encode (\<lambda>_. []) (script_block ?script) = Returns b \<and> bb_hits b = [h]"
    by (simp add: block_from_rpc_def script_block_def detect_in_output_def reg(1))
  then obtain b h where b: "block_from_rpc base16_decode base16_encode (\<lambda>_. []) (script_block ?script) = Returns b"
      "bb_hits b = [h]" by blast
  obtain s' where s': "publish_hit_to_stream True b h (fresh_node None) = (Inr (), s')"
    by (simp add: publish_hit_to_stream_def update_def Let_def)
  have "h \<in> set (bb_hits b)" by (simp add: b(2))
  from published_hit_filters [OF b(1) this s'] obtain ev where
      ev: "s' = (fresh_node None)\<lparr>ns_published := ns_published (fresh_node None) @ [ev]\<rparr>"
        "ev_daa ev = ib_daa (script_block ?script)"
        "\<forall>f. event_matches ev f \<longleftrightarrow> f = AllFilter \<or> f = OpenSilverPatternFilter (kind_name (dp_kind h))"
    by blast
  have "ev_daa ev = 5" "ns_published s' = [ev]"
    using ev(1,2) by (simp_all add: script_block_def header_block_def fresh_node_def)
  moreover have "\<not> event_matches ev (CovenantIdFilter ''c'')"
    unfolding ev(3) [rule_format] by blast
  ultimately show ?thesis
    using b s' by (intro exI [of _ ?script] exI [of _ b] exI [of _ s'] exI [of _ ev]) simp
qed

end
