(* ===== verification/Rpc_Facts.thy ===== *)
theory Rpc_Facts
  imports Subscription Ingestion "HOL-Library.Multiset"
begin

text \<open>
  What the client promises: a fetch succeeds when any endpoint answers, a reconnect announces exactly the
  scores it may have missed, and the reconnecting driver stops and waits as configured.
\<close>

section \<open>Failover\<close>

definition block_answer :: "network \<Rightarrow> wire \<Rightarrow> string \<Rightarrow> nat \<Rightarrow> rpc_endpoint \<Rightarrow> rpc_error + ingested_block" where
  "block_answer net w hash n ep =
     attempt (post_answer net w n ep (get_block_request hash)) (\<lambda>v. parse_ingested_block w v (ep_label ep))"

lemma fetch_block_from_endpoint_eq:
  "fetch_block_from_endpoint net w hash ep c =
     (block_answer net w hash (rc_requests c) ep, c\<lparr>rc_requests := rc_requests c + 1\<rparr>)"
  by (simp add: fetch_block_from_endpoint_def post_json_def block_answer_def)

lemma failover_chain_rotate:
  assumes "unat start + length (cc_backups cfg) \<le> 2 ^ 64"
  shows "failover_chain cfg start = cc_primary cfg # rotate (unat start) (cc_backups cfg)"
proof -
  let ?bs = "cc_backups cfg"
  have "unat (start + word_of_nat k) = unat start + k" if "k < length ?bs" for k
  proof -
    have "unat (word_of_nat k :: u64) = k" using that assms by (simp add: unat_of_nat take_bit_nat_eq_self)
    then show ?thesis using that assms by (simp add: unat_word_ariths)
  qed
  then have "map (\<lambda>offset. ?bs ! (unat (start + word_of_nat offset) mod length ?bs)) [0..<length ?bs] =
      rotate (unat start) ?bs"
    by (intro nth_equalityI) (simp_all add: nth_rotate)
  then show ?thesis by (auto simp: failover_chain_def)
qed

lemma mset_rotate: "mset (rotate n xs) = mset xs"
proof (induction n)
  case (Suc n)
  have "mset (rotate1 ys) = mset ys" for ys :: "'a list" by (cases ys) simp_all
  with Suc show ?case by simp
qed simp

lemma failover_chain_all:
  assumes "unat start + length (cc_backups cfg) \<le> 2 ^ 64"
  shows "mset (failover_chain cfg start) = mset (all_endpoints cfg)"
  by (simp add: failover_chain_rotate [OF assms] all_endpoints_def mset_rotate)

definition tried :: "(nat \<Rightarrow> rpc_endpoint \<Rightarrow> rpc_error + 'a) \<Rightarrow> rpc_endpoint list \<Rightarrow> nat \<Rightarrow> nat \<Rightarrow> bool" where
  "tried ans chain n i \<longleftrightarrow> (\<forall>j < i. isl (ans (n + j) (chain ! j)))"

lemma tried_Suc: "tried ans (ep # eps) n (Suc i) \<longleftrightarrow> isl (ans n ep) \<and> tried ans eps (Suc n) i"
  by (auto simp: tried_def less_Suc_eq_0_disj)

definition health_after :: "rpc_endpoint list \<Rightarrow> nat \<Rightarrow> (string \<Rightarrow> bool option) \<Rightarrow> string \<Rightarrow> bool option" where
  "health_after chain i h = (\<lambda>l.
     if i < length chain \<and> l = ep_label (chain ! i) then Some True
     else if l \<in> ep_label ` set (take i chain) then Some False else h l)"

lemma health_after_Suc:
  "health_after eps i (h(ep_label ep \<mapsto> False)) = health_after (ep # eps) (Suc i) h"
  by (auto simp: health_after_def fun_eq_iff)

text \<open>The failover loop over endpoints whose answers depend on the number of the request.\<close>

lemma try_endpoints_result:
  assumes f: "\<And>ep c. f ep c = (ans (rc_requests c) ep, c\<lparr>rc_requests := rc_requests c + 1\<rparr>)"
    and "try_endpoints f chain le c = (r, c')"
  shows "\<exists>i \<le> length chain. tried ans chain (rc_requests c) i \<and> rc_health c' = health_after chain i (rc_health c) \<and>
    (case r of Inr x \<Rightarrow> i < length chain \<and> ans (rc_requests c + i) (chain ! i) = Inr x | Inl e \<Rightarrow> i = length chain) \<and>
    rc_audit c' = rc_audit c"
  using assms(2)
proof (induction chain arbitrary: le c)
  case Nil
  then show ?case by (auto simp: tried_def health_after_def)
next
  case (Cons ep eps)
  let ?c1 = "c\<lparr>rc_requests := rc_requests c + 1\<rparr>"
  show ?case
  proof (cases "ans (rc_requests c) ep")
    case (Inr x)
    then have "r = Inr x" "c' = set_endpoint_health (ep_label ep) True ?c1"
      using Cons.prems by (simp_all add: f)
    then show ?thesis
      using Inr by (intro exI [of _ 0]) (auto simp: tried_def set_endpoint_health_def health_after_def)
  next
    case (Inl e)
    let ?c2 = "set_endpoint_health (ep_label ep) False ?c1"
    have c2: "rc_requests ?c2 = Suc (rc_requests c)" "rc_audit ?c2 = rc_audit c"
        "rc_health ?c2 = (rc_health c)(ep_label ep \<mapsto> False)"
      by (simp_all add: set_endpoint_health_def)
    have "f ep c = (Inl e, ?c1)" unfolding f Inl by (rule refl)
    then have "try_endpoints f eps (Some e) ?c2 = (r, c')" using Cons.prems by simp
    from Cons.IH [OF this, unfolded c2 health_after_Suc] obtain i where
      i: "i \<le> length eps" "tried ans eps (Suc (rc_requests c)) i"
        "rc_health c' = health_after (ep # eps) (Suc i) (rc_health c)"
        "case r of Inr x \<Rightarrow> i < length eps \<and> ans (Suc (rc_requests c) + i) (eps ! i) = Inr x | Inl e \<Rightarrow> i = length eps"
        "rc_audit c' = rc_audit c" by blast
    show ?thesis
      using i by (intro exI [of _ "Suc i"]) (auto simp: tried_Suc Inl split: sum.splits)
  qed
qed

text \<open>C23: a fetch fails only when every endpoint fails. The endpoints are tried primary first and each
  configured one exactly once; the block returned is the first good answer, carries the label of the
  endpoint that gave it and is added to the audit log under it; the endpoints tried before are marked
  unhealthy and that one healthy. If some endpoint answers whenever it is asked, the fetch succeeds;
  when all fail, all are marked unhealthy and nothing is logged.\<close>

theorem fetch_block_failover:
  fixes net w hash c
  defines "chain \<equiv> failover_chain (rc_config c) (rc_next_backup c)" and "ans \<equiv> block_answer net w hash"
  assumes "fetch_block net w hash c = (r, c')"
    and "unat (rc_next_backup c) + length (cc_backups (rc_config c)) \<le> 2 ^ 64"
  shows "mset chain = mset (all_endpoints (rc_config c)) \<and> hd chain = cc_primary (rc_config c) \<and>
    (\<exists>i \<le> length chain. tried ans chain (rc_requests c) i \<and> rc_health c' = health_after chain i (rc_health c) \<and>
      (case r of
         Inr b \<Rightarrow> i < length chain \<and> ans (rc_requests c + i) (chain ! i) = Inr b \<and>
           ib_served_by b = ep_label (chain ! i) \<and>
           rc_audit c' = rc_audit c @ [\<lparr>ba_block_hash = ib_hash b, ba_daa = ib_daa b, ba_served_by = ep_label (chain ! i)\<rparr>]
       | Inl e \<Rightarrow> i = length chain \<and> rc_audit c' = rc_audit c)) \<and>
    ((\<exists>ep \<in> set (all_endpoints (rc_config c)). \<forall>n. \<not> isl (ans n ep)) \<longrightarrow> \<not> isl r)"
proof -
  let ?c1 = "c\<lparr>rc_next_backup := rc_next_backup c + 1\<rparr>"
  obtain r0 c0 where t: "try_endpoints (fetch_block_from_endpoint net w hash) chain None ?c1 = (r0, c0)" by force
  have served: "ib_served_by b = ep_label ep" if "ans n ep = Inr b" for n ep b
    using that by (auto simp: ans_def block_answer_def attempt_Inr parse_ingested_block_def parse_block_value_def Let_def
        split: option.splits)
  have c1: "rc_requests ?c1 = rc_requests c" "rc_health ?c1 = rc_health c" "rc_audit ?c1 = rc_audit c" by simp_all
  obtain i where i: "i \<le> length chain" "tried ans chain (rc_requests c) i" "rc_health c0 = health_after chain i (rc_health c)"
      "case r0 of Inr x \<Rightarrow> i < length chain \<and> ans (rc_requests c + i) (chain ! i) = Inr x | Inl e \<Rightarrow> i = length chain"
      "rc_audit c0 = rc_audit c"
    using try_endpoints_result [OF fetch_block_from_endpoint_eq t] unfolding ans_def c1 by blast
  have r: "r = r0" "c' = (case r0 of Inr b \<Rightarrow> record_audit b c0 | Inl e \<Rightarrow> c0)"
    using assms(3) t by (auto simp: fetch_block_def next_chain_def chain_def split: sum.splits)
  have all: "mset chain = mset (all_endpoints (rc_config c))"
    unfolding chain_def by (rule failover_chain_all [OF assms(4)])
  have "\<not> isl r" if alive: "\<exists>ep \<in> set (all_endpoints (rc_config c)). \<forall>n. \<not> isl (ans n ep)"
  proof
    obtain ep where ep: "ep \<in> set (all_endpoints (rc_config c))" "\<forall>n. \<not> isl (ans n ep)" using alive by blast
    assume "isl r"
    then have "tried ans chain (rc_requests c) (length chain)" using i r(1) by (auto simp: isl_def)
    moreover have "ep \<in> set chain" using ep(1) mset_eq_setD [OF all] by simp
    ultimately show False using ep(2) unfolding tried_def in_set_conv_nth by metis
  qed
  then have "(\<exists>ep \<in> set (all_endpoints (rc_config c)). \<forall>n. \<not> isl (ans n ep)) \<longrightarrow> \<not> isl r" by (rule impI)
  moreover have "hd chain = cc_primary (rc_config c)" by (simp add: chain_def failover_chain_def)
  moreover have "\<exists>i \<le> length chain. tried ans chain (rc_requests c) i \<and> rc_health c' = health_after chain i (rc_health c) \<and>
      (case r of
         Inr b \<Rightarrow> i < length chain \<and> ans (rc_requests c + i) (chain ! i) = Inr b \<and>
           ib_served_by b = ep_label (chain ! i) \<and>
           rc_audit c' = rc_audit c @ [\<lparr>ba_block_hash = ib_hash b, ba_daa = ib_daa b, ba_served_by = ep_label (chain ! i)\<rparr>]
       | Inl e \<Rightarrow> i = length chain \<and> rc_audit c' = rc_audit c)"
    using i by (intro exI [of _ i]) (auto simp: r record_audit_def dest: served split: sum.splits)
  ultimately show ?thesis
    using all by (intro conjI)
qed

definition sample_wire :: wire where
  "sample_wire = \<lparr>wi_parse = (\<lambda>_. Inr JNull), wi_print = (\<lambda>_. ''null''), wi_hex = base16_decode\<rparr>"

definition sample_block_json :: json where
  "sample_block_json = JObject [(''result'', JObject [(''block'', JObject
     [(''blueScore'', JNumber (PosInt 4)), (''daaScore'', JNumber (PosInt 5)), (''hash'', JString ''a'')])])]"

definition sample_network :: network where
  "sample_network = \<lparr>nw_http = (\<lambda>_ ep _. if ep_label ep = ''backup'' then Inr sample_block_json else Inl ''refused''),
     nw_ws = (\<lambda>_ _ _. WsReplyClosed), nw_utf8_error = (\<lambda>_. ''utf8'')\<rparr>"

definition sample_client :: rpc_client where
  "sample_client = new_client \<lparr>
     cc_primary = \<lparr>ep_label = ''primary'', ep_url = ''http://a'', ep_timeout = 1500\<rparr>,
     cc_backups = [\<lparr>ep_label = ''backup'', ep_url = ''http://b'', ep_timeout = 1500\<rparr>],
     cc_health_probe_interval = 10000\<rparr>"

lemma fetch_block_failover_witness:
  "\<not> isl (fst (fetch_block sample_network sample_wire ''a'' sample_client))"
proof -
  obtain r c' where f: "fetch_block sample_network sample_wire ''a'' sample_client = (r, c')" by force
  have "unat (rc_next_backup sample_client) + length (cc_backups (rc_config sample_client)) \<le> 2 ^ 64"
    by (simp add: sample_client_def new_client_def)
  moreover have "\<exists>ep \<in> set (all_endpoints (rc_config sample_client)).
      \<forall>n. \<not> isl (block_answer sample_network sample_wire ''a'' n ep)"
    by (simp add: sample_client_def new_client_def all_endpoints_def block_answer_def post_answer_def starts_with_def
        sample_network_def sample_block_json_def parse_ingested_block_def response_result_def ok_or_def unwrap_or_def
        parse_block_value_def get_bool_def get_array_def Let_def)
  ultimately have "\<not> isl r" using fetch_block_failover [OF f] by blast
  then show ?thesis by (simp add: f)
qed

section \<open>Gaps\<close>

fun scores_of :: "chain_notification \<Rightarrow> u64 set" where
  "scores_of (BlockAdded b) = {ib_daa b}"
| "scores_of (VirtualChainChanged removed added) = ib_daa ` set added"
| "scores_of (RecoveryRequired lo hi reason) = {}"

lemma scores_finite [simp]: "finite (scores_of n)"
  by (cases n) simp_all

lemma next_daa_after_None: "next_daa_after n l = None \<longleftrightarrow> (\<forall>s \<in> scores_of n. s \<le> l)"
  by (cases n) (auto simp: min_of_def filter_empty_conv not_less)

lemma next_daa_after_Some:
  "next_daa_after n l = Some x \<Longrightarrow> l < x \<and> x = Min {s \<in> scores_of n. l < s}"
proof (cases n)
  case (VirtualChainChanged removed added)
  assume "next_daa_after n l = Some x"
  then have "min_of (filter (\<lambda>daa. daa > l) (map ib_daa added)) = Some x"
    by (simp only: VirtualChainChanged next_daa_after.simps)
  then have x: "{s \<in> scores_of n. l < s} \<noteq> {}" "x = Min {s \<in> scores_of n. l < s}"
    unfolding min_of_def set_filter set_map VirtualChainChanged scores_of.simps set_empty [symmetric]
    unfolding option.inject option.distinct if_split_eq1 by blast+
  then show ?thesis using Min_in [OF _ x(1)] by auto
next
  case (BlockAdded b)
  assume "next_daa_after n l = Some x"
  then have x: "l < ib_daa b" "x = ib_daa b" by (simp_all add: BlockAdded split: if_splits)
  then have "{s \<in> scores_of n. l < s} = {ib_daa b}" by (auto simp: BlockAdded)
  then show ?thesis using x by simp
qed simp

lemma max_daa_of_scores: "max_daa_of n = (if scores_of n = {} then None else Some (Max (scores_of n)))"
  by (cases n) (auto simp: max_of_def)

lemma note_stale:
  assumes "ds_last_emitted (dr_state d) = Some l" "\<forall>s \<in> scores_of n. s \<le> l"
  shows "note_daa n d = d"
proof (cases "scores_of n = {}")
  case False
  then have "max l (Max (scores_of n)) = l" using assms(2) by (simp add: max_absorb1)
  then show ?thesis
    using assms(1) False by (cases d; cases "dr_state d") (simp add: note_daa_def max_daa_of_scores)
qed (simp add: note_daa_def max_daa_of_scores)

lemma send_open: "dr_left d = None \<Longrightarrow> send_to n d = (True, d\<lparr>dr_sent := dr_sent d @ [n]\<rparr>)"
  by (cases d) (simp add: send_to_def)

lemma note_daa_frame [simp]:
  "dr_left (note_daa n d) = dr_left d" "dr_sent (note_daa n d) = dr_sent d"
  "ds_pending_gap_check (dr_state (note_daa n d)) = ds_pending_gap_check (dr_state d)"
  by (simp_all add: note_daa_def split: option.split)

lemma forward_unchecked:
  "\<not> ds_pending_gap_check (dr_state d) \<Longrightarrow> dr_left d = None \<Longrightarrow>
    \<exists>d'. forward url ns d = (True, d') \<and> dr_sent d' = dr_sent d @ ns \<and> \<not> ds_pending_gap_check (dr_state d')"
proof (induction ns arbitrary: d)
  case (Cons n ns)
  let ?d = "(note_daa n d)\<lparr>dr_sent := dr_sent d @ [n]\<rparr>"
  obtain d' where "forward url ns ?d = (True, d')" "dr_sent d' = dr_sent ?d @ ns" "\<not> ds_pending_gap_check (dr_state d')"
    using Cons.IH [of ?d] Cons.prems by auto
  then show ?case using Cons.prems by (simp add: gap_check_def send_open)
qed simp

lemma forward_stale:
  assumes "ds_last_emitted (dr_state d) = Some l" "dr_left d = None" "\<forall>m \<in> set ms. \<forall>s \<in> scores_of m. s \<le> l"
  shows "forward url (ms @ ns) d = forward url ns (d\<lparr>dr_sent := dr_sent d @ ms\<rparr>)"
  using assms
proof (induction ms arbitrary: d)
  case (Cons m ms)
  have "gap_check url m d = (True, d)"
    using Cons.prems by (auto simp: gap_check_def next_daa_after_None [THEN iffD2] split: option.split)
  moreover have "note_daa m d = d" using Cons.prems by (intro note_stale) auto
  ultimately show ?case using Cons.prems Cons.IH [of "d\<lparr>dr_sent := dr_sent d @ [m]\<rparr>"] by (simp add: send_open)
qed simp

text \<open>C12: after a reconnect exactly the missed scores are announced. While the check is pending, the
  notifications that bring no score above the highest one emitted are forwarded as they are; in front of
  the first one that does, one recovery request is sent if there are scores in between, from the first to
  the last of them, and none otherwise; nothing else is added, and the check is over. Applying that
  request does not make the node panic for scores a signed integer can hold.\<close>

theorem gap_after_reconnect:
  assumes "ds_pending_gap_check (dr_state d)" "ds_last_emitted (dr_state d) = Some l" "dr_left d = None"
    and "\<forall>m \<in> set stale. \<forall>s \<in> scores_of m. s \<le> l" "{s \<in> scores_of n. l < s} \<noteq> {}"
  defines "x \<equiv> Min {s \<in> scores_of n. l < s}"
  shows "\<exists>d' gap. forward url (stale @ n # later) d = (True, d') \<and>
    dr_sent d' = dr_sent d @ stale @ gap @ n # later \<and> \<not> ds_pending_gap_check (dr_state d') \<and>
    (if \<exists>s. l < s \<and> s < x
     then \<exists>lo hi. gap = [RecoveryRequired lo hi (gap_reason l x)] \<and> (\<forall>s. lo \<le> s \<and> s \<le> hi \<longleftrightarrow> l < s \<and> s < x) \<and>
       (unat x < 2 ^ 63 \<longrightarrow> (\<forall>conv st. apply_notification conv st (hd gap) \<noteq> Panics))
     else gap = [])"
proof -
  let ?d = "d\<lparr>dr_sent := dr_sent d @ stale\<rparr>"
  obtain y where "next_daa_after n l = Some y" using assms(5) next_daa_after_None [of n l] by fastforce
  then have x: "next_daa_after n l = Some x" "l < x" using next_daa_after_Some [of n l y] by (auto simp: x_def)
  have l1: "u64_saturating_add l 1 = l + 1" "unat (l + 1) = unat l + 1"
  proof -
    have "unat l + 1 < 2 ^ 64"
      using x(2) u64_bound [of x] by (simp add: word_less_nat_alt)
    then show "u64_saturating_add l 1 = l + 1" "unat (l + 1) = unat l + 1"
      by (simp_all add: u64_saturating_add_def unat_word_ariths)
  qed
  have x1: "u64_saturating_sub x 1 = x - 1" "unat (x - 1) = unat x - 1"
    using x(2) by (auto simp: u64_saturating_sub_def word_le_nat_alt word_less_nat_alt unat_sub)
  have between: "(\<exists>s. l < s \<and> s < x) \<longleftrightarrow> l + 1 < x"
    using l1(2) by (auto simp: word_less_nat_alt intro!: exI [of _ "l + 1"])
  have range: "l + 1 \<le> s \<and> s \<le> x - 1 \<longleftrightarrow> l < s \<and> s < x" for s
    using l1(2) x1(2) x(2) by (auto simp: word_less_nat_alt word_le_nat_alt)
  have fwd: "forward url (stale @ n # later) d = forward url (n # later) ?d"
    using assms(2-4) by (rule forward_stale)
  show ?thesis
  proof (cases "l + 1 < x")
    case False
    let ?d1 = "(note_daa n (cleared ?d))\<lparr>dr_sent := dr_sent ?d @ [n]\<rparr>"
    obtain d' where "forward url later ?d1 = (True, d')" "dr_sent d' = dr_sent ?d1 @ later" "\<not> ds_pending_gap_check (dr_state d')"
      using forward_unchecked [of ?d1 url later] assms(3) by (auto simp: cleared_def)
    moreover have "gap_check url n ?d = (True, cleared ?d)"
      using assms(1,2) x(1) False by (simp add: gap_check_def l1)
    ultimately show ?thesis
      using assms(3) False by (intro exI [of _ d'] exI [of _ "[]"]) (simp add: fwd send_open cleared_def between)
  next
    case True
    let ?gap = "RecoveryRequired (l + 1) (x - 1) (gap_reason l x)"
    let ?dg = "cleared ((emit_driver_event (GapDetected url (ds_reconnects (dr_state d)) (l + 1) (x - 1)) ?d)
      \<lparr>dr_sent := dr_sent d @ stale @ [?gap]\<rparr>)"
    let ?d1 = "(note_daa n ?dg)\<lparr>dr_sent := dr_sent d @ stale @ [?gap, n]\<rparr>"
    obtain d' where d': "forward url later ?d1 = (True, d')" "dr_sent d' = dr_sent ?d1 @ later" "\<not> ds_pending_gap_check (dr_state d')"
      using forward_unchecked [of ?d1 url later] assms(3) by (auto simp: cleared_def emit_driver_event_def)
    have "gap_check url n ?d = (True, ?dg)"
      using assms(1-3) x(1) True by (simp add: gap_check_def l1 x1 send_open emit_driver_event_def Let_def)
    then have "forward url (stale @ n # later) d = (True, d')"
      using d'(1) assms(3) by (simp add: fwd send_open cleared_def emit_driver_event_def)
    moreover have "apply_notification conv st ?gap \<noteq> Panics" if "unat x < 2 ^ 63" for conv st
    proof -
      have "unat (l + 1) < 2 ^ 63" "unat (x - 1) < 2 ^ 63" "unat (l + 1) \<le> unat (x - 1)"
        using that True l1(2) x1(2) by (auto simp: word_less_nat_alt)
      then have "u64_as_i64 (l + 1) \<le> u64_as_i64 (x - 1)"
        unfolding u64_as_i64_small [OF \<open>unat (l + 1) < 2 ^ 63\<close>] u64_as_i64_small [OF \<open>unat (x - 1) < 2 ^ 63\<close>] by (simp only: of_nat_le_iff)
      then show ?thesis by (simp add: remove_probabilistic_in_range_def Let_def split: prod.split)
    qed
    ultimately show ?thesis
      using d'(2,3) True range between by (intro exI [of _ d'] exI [of _ "[?gap]"]) auto
  qed
qed

definition reconnected_driver :: driver where
  "reconnected_driver = (start_driver sample_client None)\<lparr>dr_state :=
     \<lparr>ds_last_emitted = Some 10, ds_pending_gap_check = True, ds_reconnects = 1\<rparr>\<rparr>"

lemma gap_after_reconnect_witness:
  "\<exists>d' lo hi. forward ''ws'' [BlockAdded (header_block ''a'' 10 False), BlockAdded (header_block ''b'' 14 False)]
      reconnected_driver = (True, d') \<and> map (\<lambda>n. scores_of n) (dr_sent d') = [{10}, {}, {14}] \<and> lo \<le> hi \<and>
    RecoveryRequired lo hi (gap_reason 10 14) \<in> set (dr_sent d')"
proof -
  have s: "{s \<in> scores_of (BlockAdded (header_block ''b'' 14 False)). 10 < s} = {14}"
    by (auto simp: header_block_def)
  have gap: "\<exists>s :: u64. 10 < s \<and> s < 14" by (rule exI [of _ 11]) simp
  have "\<exists>d' gap. forward ''ws'' ([BlockAdded (header_block ''a'' 10 False)] @ BlockAdded (header_block ''b'' 14 False) # [])
      reconnected_driver = (True, d') \<and>
    dr_sent d' = dr_sent reconnected_driver @ [BlockAdded (header_block ''a'' 10 False)] @ gap @ BlockAdded (header_block ''b'' 14 False) # [] \<and>
    (\<exists>lo hi. gap = [RecoveryRequired lo hi (gap_reason 10 14)] \<and> (\<forall>s. lo \<le> s \<and> s \<le> hi \<longleftrightarrow> 10 < s \<and> s < 14))"
    using gap_after_reconnect [of reconnected_driver 10 "[BlockAdded (header_block ''a'' 10 False)]"
        "BlockAdded (header_block ''b'' 14 False)" "''ws''" "[]", unfolded s] gap
    by (simp add: reconnected_driver_def start_driver_def header_block_def) blast
  then obtain d' lo hi where d': "forward ''ws'' ([BlockAdded (header_block ''a'' 10 False)] @ BlockAdded (header_block ''b'' 14 False) # [])
      reconnected_driver = (True, d')"
    "dr_sent d' = dr_sent reconnected_driver @ [BlockAdded (header_block ''a'' 10 False)] @
       [RecoveryRequired lo hi (gap_reason 10 14)] @ BlockAdded (header_block ''b'' 14 False) # []"
    "\<forall>s. lo \<le> s \<and> s \<le> hi \<longleftrightarrow> 10 < s \<and> s < 14" by blast
  have "lo \<le> 11 \<and> 11 \<le> hi" using d'(3) by simp
  then have "lo \<le> hi" by (meson order_trans)
  with d'(1,2) show ?thesis
    by (intro exI [of _ d'] exI [of _ lo] exI [of _ hi]) (simp add: reconnected_driver_def start_driver_def header_block_def)
qed

section \<open>Backing off\<close>

lemma driver_frame:
  "dr_sleeps (emit_driver_event e d) = dr_sleeps d" "dr_sleeps (cleared d) = dr_sleeps d"
  "dr_sleeps (note_daa n d) = dr_sleeps d" "dr_sleeps (reconnecting d) = dr_sleeps d"
  "send_to n d = (b, d') \<Longrightarrow> dr_sleeps d' = dr_sleeps d"
  by (auto simp: emit_driver_event_def cleared_def note_daa_def reconnecting_def send_to_def split: option.split if_splits)

lemma gap_check_sleeps: "gap_check url n d = (b, d') \<Longrightarrow> dr_sleeps d' = dr_sleeps d"
  by (auto simp: gap_check_def driver_frame(1,2) Let_def split: if_splits option.splits prod.splits dest!: driver_frame(5))

lemma forward_sleeps: "forward url ns d = (b, d') \<Longrightarrow> dr_sleeps d' = dr_sleeps d"
  by (induction ns arbitrary: d)
    (auto split: prod.splits bool.splits dest!: gap_check_sleeps driver_frame(5) simp: driver_frame(3))

lemma read_items_sleeps: "read_items net w url sb its d = (r, d') \<Longrightarrow> dr_sleeps d' = dr_sleeps d"
proof (induction its arbitrary: d)
  case (Cons it its)
  then show ?case
    by (fastforce split: if_splits ws_item.splits prod.splits sum.splits bool.splits dest: forward_sleeps)
qed simp

lemma run_once_sleeps: "run_subscription_once net w url sb conn d = (r, d') \<Longrightarrow> dr_sleeps d' = dr_sleeps d"
  by (auto simp: run_subscription_once_def split: option.splits sum.splits dest: read_items_sleeps)

text \<open>What a connection does to the driver does not depend on the events emitted and the sleeps before it.\<close>

definition same_run :: "driver \<Rightarrow> driver \<Rightarrow> bool" where
  "same_run d e \<longleftrightarrow> dr_state d = dr_state e \<and> dr_client d = dr_client e \<and> dr_sent d = dr_sent e \<and> dr_left d = dr_left e"

definition same_result :: "'a \<times> driver \<Rightarrow> 'a \<times> driver \<Rightarrow> bool" where
  "same_result x y \<longleftrightarrow> fst x = fst y \<and> same_run (snd x) (snd y)"

lemma same_resultE:
  assumes "same_result x y"
  obtains r d e where "x = (r, d)" "y = (r, e)" "same_run d e"
  using assms by (cases x; cases y) (simp add: same_result_def)

lemma same_send: "same_run d e \<Longrightarrow> same_result (send_to n d) (send_to n e)"
  by (simp add: same_result_def same_run_def send_to_def)

lemma same_steps:
  "same_run d e \<Longrightarrow> same_run (note_daa n d) (note_daa n e)" "same_run d e \<Longrightarrow> same_run (cleared d) (cleared e)"
  "same_run d e \<Longrightarrow> same_run (emit_driver_event x d) (emit_driver_event y e)"
  "same_run d e \<Longrightarrow> same_run (reconnecting d) (reconnecting e)"
  by (simp_all add: same_run_def note_daa_def cleared_def emit_driver_event_def reconnecting_def split: option.split)

lemma same_gap_check:
  assumes s: "same_run d e"
  shows "same_result (gap_check url n d) (gap_check url n e)"
proof (cases "ds_pending_gap_check (dr_state d)")
  case pending: True
  show ?thesis
  proof (cases "ds_last_emitted (dr_state d)")
    case None
    then show ?thesis using s pending same_steps(2) [OF s] by (simp add: gap_check_def same_result_def same_run_def)
  next
    case (Some prev)
    show ?thesis
    proof (cases "next_daa_after n prev")
      case None
      then show ?thesis using s pending Some by (simp add: gap_check_def same_result_def same_run_def)
    next
      case above: (Some x)
      let ?lo = "u64_saturating_add prev 1" and ?hi = "u64_saturating_sub x 1"
      let ?sent = "\<lambda>d. send_to (RecoveryRequired ?lo ?hi (gap_reason prev x))
        (emit_driver_event (GapDetected url (ds_reconnects (dr_state d)) ?lo ?hi) d)"
      have "same_result (?sent d) (?sent e)" by (rule same_send [OF same_steps(3) [OF s]])
      then show ?thesis
        using s pending Some above same_steps(2)
        by (cases "?sent d"; cases "?sent e") (auto simp: gap_check_def same_result_def Let_def same_run_def cleared_def)
    qed
  qed
qed (use s in \<open>simp add: gap_check_def same_result_def same_run_def\<close>)

lemma same_forward: "same_run d e \<Longrightarrow> same_result (forward url ns d) (forward url ns e)"
proof (induction ns arbitrary: d e)
  case (Cons n ns)
  obtain p d1 e1 where g: "gap_check url n d = (p, d1)" "gap_check url n e = (p, e1)" "same_run d1 e1"
    using same_gap_check [OF Cons.prems, of url n] by (rule same_resultE)
  obtain q d2 e2 where t: "send_to n (note_daa n d1) = (q, d2)" "send_to n (note_daa n e1) = (q, e2)" "same_run d2 e2"
    using same_send [OF same_steps(1) [OF g(3)], of n n] by (rule same_resultE)
  show ?case using g t Cons.IH [OF t(3)] by (cases p; cases q) (simp_all add: same_result_def)
qed (simp add: same_result_def)

lemma same_read_items: "same_run d e \<Longrightarrow> same_result (read_items net w url sb its d) (read_items net w url sb its e)"
proof (induction its arbitrary: d e)
  case (Cons it its)
  note s = Cons.prems
  have left: "dr_left e = dr_left d" "dr_client e = dr_client d" using s by (simp_all add: same_run_def)
  show ?case
  proof (cases "dr_left d = Some 0")
    case live: False
    show ?thesis
    proof (cases it)
      case (WsItem m)
      obtain x c where x: "decode_ws_message net w m sb (dr_client d) = (x, c)" by force
      have sc: "same_run (d\<lparr>dr_client := c\<rparr>) (e\<lparr>dr_client := c\<rparr>)" using s by (simp add: same_run_def)
      show ?thesis
      proof (cases x)
        case (Inr ns)
        obtain p d1 e1 where f: "forward url ns (d\<lparr>dr_client := c\<rparr>) = (p, d1)" "forward url ns (e\<lparr>dr_client := c\<rparr>) = (p, e1)"
            "same_run d1 e1"
          using same_forward [OF sc, of url ns] by (rule same_resultE)
        show ?thesis using live left WsItem x Inr f Cons.IH [OF f(3)] s by (cases p) (simp_all add: same_result_def)
      qed (use live left WsItem x sc s in \<open>simp add: same_result_def\<close>)
    qed (use live left s Cons.IH [OF s] in \<open>simp_all add: same_result_def same_run_def\<close>)
  qed (use left s in \<open>simp add: same_result_def\<close>)
qed (simp add: same_result_def)

lemma same_once:
  assumes "same_run d e" "run_subscription_once net w url sb conn d = (r, d')"
  shows "\<exists>e'. run_subscription_once net w url sb conn e = (r, e') \<and> same_run d' e'"
proof -
  have "same_result (run_subscription_once net w url sb conn d) (run_subscription_once net w url sb conn e)"
    using assms(1) same_read_items [OF assms(1)]
    by (auto simp: run_subscription_once_def same_result_def split: option.split sum.split)
  then show ?thesis by (cases "run_subscription_once net w url sb conn e") (simp add: assms(2) same_result_def)
qed

text \<open>How the connections end, one after another, until the receiver is gone: \<open>Inr ()\<close> for a clean end.\<close>

fun connection_ends ::
  "network \<Rightarrow> wire \<Rightarrow> string \<Rightarrow> string \<Rightarrow> (bool \<times> ws_connection) list \<Rightarrow> driver \<Rightarrow> (rpc_error + unit) list" where
  "connection_ends net w url sb [] d = []"
| "connection_ends net w url sb ((dropped, conn) # conns) d =
     (if dropped \<or> dr_left d = Some 0 then []
      else (case run_subscription_once net w url sb conn d of (r, d) \<Rightarrow> r # connection_ends net w url sb conns (reconnecting d)))"

lemma same_ends: "same_run d e \<Longrightarrow> connection_ends net w url sb conns d = connection_ends net w url sb conns e"
proof (induction conns arbitrary: d e)
  case (Cons c conns)
  obtain dropped conn where c: "c = (dropped, conn)" by force
  obtain r d1 where d1: "run_subscription_once net w url sb conn d = (r, d1)" by force
  obtain e1 where e1: "run_subscription_once net w url sb conn e = (r, e1)" "same_run d1 e1"
    using same_once [OF Cons.prems d1] by blast
  show ?case using Cons.IH [OF same_steps(4) [OF e1(2)]] Cons.prems by (auto simp: c d1 e1(1) same_run_def)
qed simp

text \<open>The failures in a row just before end \<open>i\<close>, the delay after so many, and whether the attempts are used up by end \<open>i\<close>.\<close>

definition streak :: "(rpc_error + unit) list \<Rightarrow> nat \<Rightarrow> nat" where
  "streak ends i = length (takeWhile isl (rev (take i ends)))"

definition delay_after :: "subscription_backoff \<Rightarrow> nat \<Rightarrow> duration_ms" where
  "delay_after b k = ((\<lambda>d. min (max 1 (sb_scale b d)) (sb_max_delay b)) ^^ k) (sb_initial_delay b)"

definition gives_up :: "subscription_backoff \<Rightarrow> (rpc_error + unit) list \<Rightarrow> nat \<Rightarrow> bool" where
  "gives_up b ends i \<longleftrightarrow> isl (ends ! i) \<and> sb_max_attempts b \<noteq> 0 \<and> sb_max_attempts b \<noteq> - 1 \<and> unat (sb_max_attempts b) \<le> streak ends i"

definition waits :: "subscription_backoff \<Rightarrow> (rpc_error + unit) list \<Rightarrow> nat list" where
  "waits b ends = filter (\<lambda>i. isl (ends ! i) \<and> (\<forall>j\<le>i. \<not> gives_up b ends j)) [0..<length ends]"

lemma streak_snoc: "streak (xs @ [x]) (Suc (length xs)) = (if isl x then Suc (streak xs (length xs)) else 0)"
  by (simp add: streak_def)

lemma streak_append: "i \<le> length xs \<Longrightarrow> streak (xs @ ys) i = streak xs i"
  by (simp add: streak_def)

lemma gives_up_append: "i < length xs \<Longrightarrow> gives_up b (xs @ ys) i = gives_up b xs i"
  by (simp add: gives_up_def streak_append nth_append)

lemma delay_after_Suc: "delay_after b (Suc k) = scaled_delay b (delay_after b k)"
  by (simp add: delay_after_def scaled_delay_def)

lemma delay_after_le: "delay_after b k \<le> max (sb_initial_delay b) (sb_max_delay b)"
  by (cases k) (simp_all add: delay_after_Suc scaled_delay_def, simp add: delay_after_def)

definition refused :: "string \<Rightarrow> bool \<times> ws_connection" where
  "refused e = (False, \<lparr>cn_connect = Some e, cn_send = (\<lambda>_. None), cn_items = []\<rparr>)"

definition closing :: "bool \<times> ws_connection" where
  "closing = (False, \<lparr>cn_connect = None, cn_send = (\<lambda>_. None), cn_items = []\<rparr>)"

lemma unat_max_u32: "unat (- 1 :: u32) = 4294967295"
  by code_simp

lemma u32_bound: "unat (w :: u32) \<le> 4294967295"
proof -
  have "unat w < 2 ^ LENGTH(32)" by (rule unsigned_less)
  then show ?thesis by simp
qed

lemma unat_u32_saturating_inc: "unat (u32_saturating_inc n) = min (unat n + 1) 4294967295"
proof (cases "n = - 1")
  case False
  have "unat n \<noteq> 4294967295" using False unfolding word_unat_eq_iff unat_max_u32 .
  then have "unat n < 4294967295" using u32_bound [of n] by simp
  then show ?thesis using False by (simp add: u32_saturating_inc_def unat_word_ariths)
qed (simp add: u32_saturating_inc_def unat_max_u32)

text \<open>The saturating counter holds the streak as far as it can count, which is far enough to tell that it is over the limit.\<close>

lemma counter_over_limit:
  assumes "unat n = min k 4294967295"
  shows "unat (u32_saturating_inc n) = min (Suc k) 4294967295"
    and "u32_saturating_inc n > m \<longleftrightarrow> m \<noteq> - 1 \<and> unat m \<le> k"
proof -
  show inc: "unat (u32_saturating_inc n) = min (Suc k) 4294967295" unfolding unat_u32_saturating_inc assms by linarith
  have "m \<noteq> - 1 \<longleftrightarrow> unat m < 4294967295"
    using u32_bound [of m] unfolding word_unat_eq_iff unat_max_u32 by auto
  then show "u32_saturating_inc n > m \<longleftrightarrow> m \<noteq> - 1 \<and> unat m \<le> k" unfolding word_less_nat_alt inc by auto
qed

text \<open>A step of the driver, by how the connection ends.\<close>

lemma driver_gone:
  "dropped \<or> dr_left d = Some 0 \<Longrightarrow>
    \<exists>e. run_continuous_subscription net w url sb b ((dropped, conn) # conns) n delay d = (True, e) \<and> dr_sleeps e = dr_sleeps d"
  by (auto simp: Let_def driver_frame)

lemma driver_step:
  assumes "dr_left d \<noteq> Some 0"
    and "run_subscription_once net w url sb conn (emit_driver_event (Connected url (ds_reconnects (dr_state d))) d) = (r, d1)"
  shows "case r of
      Inr u \<Rightarrow> \<exists>e. run_continuous_subscription net w url sb b ((False, conn) # conns) n delay d =
          run_continuous_subscription net w url sb b conns 0 (sb_initial_delay b) e \<and>
        same_run (reconnecting d1) e \<and> dr_sleeps e = dr_sleeps d
    | Inl x \<Rightarrow>
        if sb_max_attempts b \<noteq> 0 \<and> u32_saturating_inc n > sb_max_attempts b
        then \<exists>e. run_continuous_subscription net w url sb b ((False, conn) # conns) n delay d = (True, e) \<and> dr_sleeps e = dr_sleeps d
        else \<exists>e. run_continuous_subscription net w url sb b ((False, conn) # conns) n delay d =
            run_continuous_subscription net w url sb b conns (u32_saturating_inc n) (scaled_delay b delay) e \<and>
          same_run (reconnecting d1) e \<and> dr_sleeps e = dr_sleeps d @ [delay]"
proof -
  have s: "dr_sleeps d1 = dr_sleeps d" using run_once_sleeps [OF assms(2)] by (simp add: driver_frame)
  show ?thesis
  proof (cases r)
    case (Inr u)
    then show ?thesis
      using assms s by (simp add: Let_def) (rule exI, rule conjI, rule refl, simp add: same_run_def emit_driver_event_def driver_frame reconnecting_def)
  next
    case (Inl x)
    show ?thesis
    proof (cases "sb_max_attempts b \<noteq> 0 \<and> u32_saturating_inc n > sb_max_attempts b")
      case True
      then show ?thesis using assms s by (simp add: Let_def Inl driver_frame)
    next
      case False
      let ?e = "emit_driver_event (ReconnectScheduled url (ds_reconnects (dr_state (reconnecting d1))) (word_of_nat delay)
          (rpc_error_text x) (ds_last_emitted (dr_state (reconnecting d1)))) (reconnecting d1)"
      have "run_continuous_subscription net w url sb b ((False, conn) # conns) n delay d =
          run_continuous_subscription net w url sb b conns (u32_saturating_inc n) (scaled_delay b delay)
            (?e\<lparr>dr_sleeps := dr_sleeps ?e @ [delay]\<rparr>)"
        by (simp only: run_continuous_subscription.simps Let_def if_False if_not_P [OF assms(1)] assms(2) Inl prod.case sum.case
            if_not_P [OF False])
      moreover have "same_run (reconnecting d1) (?e\<lparr>dr_sleeps := dr_sleeps ?e @ [delay]\<rparr>)"
        by (simp add: same_run_def emit_driver_event_def)
      moreover have "dr_sleeps (?e\<lparr>dr_sleeps := dr_sleeps ?e @ [delay]\<rparr>) = dr_sleeps d @ [delay]"
        by (simp add: driver_frame s)
      ultimately show ?thesis unfolding Inl sum.case if_not_P [OF False] by blast
    qed
  qed
qed

text \<open>The driver after some ends \<open>pre\<close>: what is still to come continues the schedule of all ends.\<close>

definition scheduled :: "subscription_backoff \<Rightarrow> (rpc_error + unit) list \<Rightarrow> nat \<Rightarrow> nat \<Rightarrow> bool \<Rightarrow> duration_ms list \<Rightarrow> bool" where
  "scheduled b ends from conns stopped sleeps \<longleftrightarrow>
     sleeps = map (\<lambda>i. delay_after b (streak ends i))
       (filter (\<lambda>i. isl (ends ! i) \<and> (\<forall>j\<le>i. \<not> gives_up b ends j)) [from..<length ends]) \<and>
     (stopped \<longleftrightarrow> (\<exists>i<length ends. gives_up b ends i) \<or> length ends < from + conns)"

lemma scheduled_step:
  assumes "p < length ends" "\<forall>j\<le>p. \<not> gives_up b ends j" "scheduled b ends (Suc p) k stopped sleeps"
  shows "scheduled b ends p (Suc k) stopped (if isl (ends ! p) then delay_after b (streak ends p) # sleeps else sleeps)"
  using assms by (simp add: scheduled_def upt_conv_Cons)

lemma driver_schedule:
  assumes "run_continuous_subscription net w url sb b conns n delay d = (stopped, d')"
    and "unat n = min (streak pre (length pre)) 4294967295" "delay = delay_after b (streak pre (length pre))"
    and "\<forall>j<length pre. \<not> gives_up b pre j" "ends = pre @ connection_ends net w url sb conns d"
  shows "\<exists>sleeps. dr_sleeps d' = dr_sleeps d @ sleeps \<and> scheduled b ends (length pre) (length conns) stopped sleeps"
  using assms
proof (induction conns arbitrary: n delay d pre)
  case Nil
  then show ?case by (auto simp: scheduled_def)
next
  case (Cons c conns)
  let ?p = "length pre"
  obtain dropped conn where c: "c = (dropped, conn)" by force
  show ?case
  proof (cases "dropped \<or> dr_left d = Some 0")
    case True
    then have "ends = pre" "stopped" "dr_sleeps d' = dr_sleeps d"
      using Cons.prems(1,5) driver_gone [OF True, of net w url sb b conn conns n delay] by (auto simp: c simp del: run_continuous_subscription.simps)
    then show ?thesis by (simp add: scheduled_def)
  next
    case live: False
    let ?d1 = "emit_driver_event (Connected url (ds_reconnects (dr_state d))) d"
    obtain r d2 where once: "run_subscription_once net w url sb conn d = (r, d2)" by force
    obtain d3 where d3: "run_subscription_once net w url sb conn ?d1 = (r, d3)" "same_run d2 d3"
      using same_once [OF _ once, of ?d1] by (auto simp: same_run_def emit_driver_event_def)
    let ?rest = "connection_ends net w url sb conns (reconnecting d2)"
    have ends: "ends = (pre @ [r]) @ ?rest" using Cons.prems(5) live by (simp add: c once)
    have rest: "?rest = connection_ends net w url sb conns e" if "same_run (reconnecting d3) e" for e
      using same_steps(4) [OF d3(2)] that by (intro same_ends) (simp add: same_run_def)
    have at: "ends ! ?p = r" "?p < length ends" "streak ends ?p = streak pre ?p" by (simp_all add: ends streak_append nth_append)
    have before: "\<not> gives_up b ends j" if "j < ?p" for j using Cons.prems(4) that gives_up_append [of j pre b "[r] @ ?rest"] by (simp add: ends)
    note step = driver_step [OF _ d3(1), where b = b and conns = conns and n = n and delay = delay]
    have onward: "\<exists>sleeps. dr_sleeps d' = dr_sleeps e @ sleeps \<and> scheduled b ends (Suc ?p) (length conns) stopped sleeps"
      if "run_continuous_subscription net w url sb b conns m dl e = (stopped, d')" "same_run (reconnecting d3) e"
        "\<not> gives_up b ends ?p" "unat m = min (streak (pre @ [r]) (Suc ?p)) 4294967295" "dl = delay_after b (streak (pre @ [r]) (Suc ?p))" for m dl e
    proof -
      have "\<not> gives_up b (pre @ [r]) j" if "j < Suc ?p" for j
        using before [of j] \<open>\<not> gives_up b ends ?p\<close> that gives_up_append [of j "pre @ [r]" b ?rest] unfolding ends by (auto simp: less_Suc_eq)
      then show ?thesis using Cons.IH [OF that(1), of "pre @ [r]"] that(4,5) rest [OF that(2)] ends by simp
    qed
    show ?thesis
    proof (cases r)
      case (Inr u)
      obtain e where e: "run_continuous_subscription net w url sb b conns 0 (sb_initial_delay b) e = (stopped, d')"
          "same_run (reconnecting d3) e" "dr_sleeps e = dr_sleeps d"
        using step live Cons.prems(1) by (auto simp: c Inr simp del: run_continuous_subscription.simps)
      have no: "\<not> gives_up b ends ?p" by (simp add: gives_up_def at(1) Inr)
      have "streak (pre @ [r]) (Suc ?p) = 0" by (simp add: streak_snoc Inr)
      with onward [OF e(1,2) no] obtain sleeps where "dr_sleeps d' = dr_sleeps d @ sleeps"
          "scheduled b ends (Suc ?p) (length conns) stopped sleeps" by (auto simp: e(3) delay_after_def)
      with scheduled_step [OF at(2), of b "length conns" stopped sleeps] before no show ?thesis
        by (auto simp: at(1) Inr le_less)
    next
      case (Inl x)
      have over: "u32_saturating_inc n > sb_max_attempts b \<longleftrightarrow> sb_max_attempts b \<noteq> - 1 \<and> unat (sb_max_attempts b) \<le> streak pre ?p"
        by (rule counter_over_limit(2) [OF Cons.prems(2)])
      show ?thesis
      proof (cases "sb_max_attempts b \<noteq> 0 \<and> u32_saturating_inc n > sb_max_attempts b")
        case True
        then have gives: "gives_up b ends ?p" using over by (simp add: gives_up_def at Inl)
        have "stopped" "dr_sleeps d' = dr_sleeps d"
          using True step live Cons.prems(1) by (auto simp: c Inl simp del: run_continuous_subscription.simps)
        then show ?thesis using gives at(2) by (auto simp: scheduled_def filter_empty_conv)
      next
        case False
        then have no: "\<not> gives_up b ends ?p" using over by (auto simp: gives_up_def at)
        obtain e where e: "run_continuous_subscription net w url sb b conns (u32_saturating_inc n) (scaled_delay b delay) e = (stopped, d')"
            "same_run (reconnecting d3) e" "dr_sleeps e = dr_sleeps d @ [delay]"
          using step live Cons.prems(1) False by (auto simp: c Inl simp del: run_continuous_subscription.simps)
        have "streak (pre @ [r]) (Suc ?p) = Suc (streak pre ?p)" by (simp add: streak_snoc Inl)
        with onward [OF e(1,2) no] obtain sleeps where "dr_sleeps d' = dr_sleeps d @ delay # sleeps"
            "scheduled b ends (Suc ?p) (length conns) stopped sleeps"
          using counter_over_limit(1) [OF Cons.prems(2)] by (auto simp: e(3) delay_after_Suc Cons.prems(3))
        with scheduled_step [OF at(2), of b "length conns" stopped sleeps] before no show ?thesis
          by (auto simp: at(1,3) Inl le_less Cons.prems(3))
      qed
    qed
  qed
qed

text \<open>C27: when the reconnecting driver stops, and how long it waits. Take any connections and let \<open>ends\<close> be how they end, until the
  receiver is gone. The driver waits exactly after the failed ones, up to the one at which it gives up, and after a
  connection that failed as the \<open>k + 1\<close>st in a row it waits the initial delay scaled, raised to 1 and clamped to the maximum \<open>k\<close> times; a
  clean end is reconnected at once and starts the row anew. So no wait exceeds the larger of the
  initial and the maximal delay. It gives up exactly when a row of failures gets longer than the attempts allowed, never if that number is zero, which
  means no limit, or the largest one, which the saturating counter cannot exceed; otherwise it returns only when the receiver is gone.\<close>

theorem driver_backoff:
  fixes net w url sb b conns c left
  defines "ends \<equiv> connection_ends net w url sb conns (start_driver c left)"
  shows "case run_continuous_subscription net w url sb b conns 0 (sb_initial_delay b) (start_driver c left) of (stopped, d) \<Rightarrow>
    dr_sleeps d = map (\<lambda>i. delay_after b (streak ends i)) (waits b ends) \<and>
    list_all (\<lambda>s. s \<le> max (sb_initial_delay b) (sb_max_delay b)) (dr_sleeps d) \<and>
    (stopped \<longleftrightarrow> (\<exists>i<length ends. gives_up b ends i) \<or> length ends < length conns)"
proof -
  obtain stopped d where run:
    "run_continuous_subscription net w url sb b conns 0 (sb_initial_delay b) (start_driver c left) = (stopped, d)" by force
  have "\<exists>sleeps. dr_sleeps d = dr_sleeps (start_driver c left) @ sleeps \<and> scheduled b ends 0 (length conns) stopped sleeps"
    using driver_schedule [OF run, of "[]" ends] by (simp add: streak_def delay_after_def ends_def)
  then have "dr_sleeps d = map (\<lambda>i. delay_after b (streak ends i)) (waits b ends)"
      "stopped \<longleftrightarrow> (\<exists>i<length ends. gives_up b ends i) \<or> length ends < length conns"
    by (simp_all add: scheduled_def waits_def start_driver_def)
  then show ?thesis by (simp add: run list_all_iff delay_after_le)
qed

text \<open>Two refusals, a clean end and three refusals, with two attempts allowed and with five.\<close>

definition flaky :: "(bool \<times> ws_connection) list" where
  "flaky = [refused ''a'', refused ''b'', closing, refused ''c'', refused ''d'', refused ''e'']"

definition quick_backoff :: "u32 \<Rightarrow> subscription_backoff" where
  "quick_backoff attempts = \<lparr>sb_initial_delay = 500, sb_max_delay = 1500, sb_scale = (\<lambda>d. 2 * d), sb_max_attempts = attempts\<rparr>"

lemma driver_backoff_witness:
  "(case run_continuous_subscription sample_network sample_wire ''ws'' ''wrpc'' (quick_backoff 2) flaky 0 500 (start_driver sample_client None) of
      (stopped, d) \<Rightarrow> stopped \<and> dr_sleeps d = [500, 1000, 500, 1000]) \<and>
   (case run_continuous_subscription sample_network sample_wire ''ws'' ''wrpc'' (quick_backoff 5) flaky 0 500 (start_driver sample_client None) of
      (stopped, d) \<Rightarrow> \<not> stopped \<and> dr_sleeps d = [500, 1000, 500, 1000, 1500])"
proof -
  define E :: "(rpc_error + unit) list" where "E = map Inl [Transport ''ws'' ''a'', Transport ''ws'' ''b''] @ [Inr ()] @
      map Inl [Transport ''ws'' ''c'', Transport ''ws'' ''d'', Transport ''ws'' ''e'']"
  have ends: "connection_ends sample_network sample_wire ''ws'' ''wrpc'' flaky (start_driver sample_client None) = E"
    by (simp add: E_def flaky_def refused_def closing_def run_subscription_once_def send_notification_subscriptions_def
        notification_subscriptions_def start_driver_def reconnecting_def)
  have streaks: "streak E 0 = 0" "streak E 1 = 1" "streak E 3 = 0" "streak E 4 = 1" "streak E 5 = 2" "length E = length flaky"
    by (simp_all add: E_def streak_def flaky_def)
  have waits: "waits (quick_backoff 2) E = [0, 1, 3, 4]" "waits (quick_backoff 5) E = [0, 1, 3, 4, 5]"
      "\<exists>i<length E. gives_up (quick_backoff 2) E i" "\<not> (\<exists>i<length E. gives_up (quick_backoff 5) E i)"
    unfolding E_def by code_simp+
  have delays: "delay_after (quick_backoff n) 0 = 500" "delay_after (quick_backoff n) 1 = 1000" "delay_after (quick_backoff n) 2 = 1500"
      "sb_initial_delay (quick_backoff n) = 500" for n
    by (simp_all add: delay_after_def quick_backoff_def eval_nat_numeral)
  show ?thesis
    using driver_backoff [where net = sample_network and w = sample_wire and url = "''ws''" and sb = "''wrpc''" and b = "quick_backoff 2"
          and conns = flaky and c = sample_client and left = None, unfolded ends delays]
      driver_backoff [where net = sample_network and w = sample_wire and url = "''ws''" and sb = "''wrpc''" and b = "quick_backoff 5"
          and conns = flaky and c = sample_client and left = None, unfolded ends delays] waits(3,4)
    unfolding waits(1,2) by (simp add: case_prod_beta streaks delays del: One_nat_def)
qed

text \<open>The one-shot reader treats \<open>max_messages = 0\<close> as no limit while it reads, and then keeps none.\<close>

lemma unlimited_read_is_empty:
  "read_notifications_ws net w url sb 0 idle conn c = (Inr ns, c') \<Longrightarrow> ns = []"
  by (auto simp: read_notifications_ws_def attempt_Inr split: option.splits prod.splits sum.splits)

end
