(* ===== verification/Node_Runtime.thy ===== *)
theory Node_Runtime
  imports Node_Config Node_Facts Rpc_Facts
begin

text \<open>
  The running node (\<open>src/crates/kasgraph-node/src/main.rs\<close>): the set of subgraph runtimes, the fan-out of
  a notification to all of them, the reload of the set from the registry, the bootstrap pass and the loop
  of continuous ingestion. Writing a deployment to disk and compiling its mapping, which the file system
  and the WASM engine decide, are the functions of \<open>loader\<close>; what the select of the loop yields is a list.
\<close>

section \<open>Runtimes\<close>

record subgraph_runtime =
  rt_subgraph :: string
  rt_ingestion :: ingestion_state
  rt_mapping :: "loaded_mapping option"

record node =
  nd_db :: store_db
  nd_runtimes :: "subgraph_runtime list"
  nd_published :: "stream_event list"

datatype runtime_error =
    Node_failed node_error
  | Rpc_failed rpc_error
  | Capability_failed capability_error
  | Ws_url_missing

record loader =
  ld_deployment :: "subgraph_deployment \<Rightarrow> node_error + loaded_mapping"
  ld_dir :: "string \<Rightarrow> node_error + loaded_mapping"

definition load_deployment_mapping :: "loader \<Rightarrow> subgraph_deployment \<Rightarrow> node_error + loaded_mapping option" where
  "load_deployment_mapping ld dep =
     (if sd_wasm_bytes dep = None then Inr None else map_sum id Some (ld_deployment ld dep))"

definition load_mapping_from_registry :: "loader \<Rightarrow> store_db \<Rightarrow> string \<Rightarrow> node_error + loaded_mapping option" where
  "load_mapping_from_registry ld db sg =
     (case fetch_subgraph_deployment db sg of
        Inl e \<Rightarrow> Inl (Store_failed e)
      | Inr None \<Rightarrow> Inr None
      | Inr (Some dep) \<Rightarrow> load_deployment_mapping ld dep)"

definition make_subgraph_runtime ::
  "store_db \<Rightarrow> string \<Rightarrow> loaded_mapping option \<Rightarrow> u64 option \<Rightarrow> node_error + subgraph_runtime" where
  "make_subgraph_runtime db sg mapping depth =
     (case latest_poi_for_subgraph db sg of
        Inl e \<Rightarrow> Inl (Store_failed e)
      | Inr cp \<Rightarrow> Inr \<lparr>rt_subgraph = sg,
          rt_ingestion = (case cp of None \<Rightarrow> with_finality_depth depth
            | Some c \<Rightarrow> reseed_prior_poi (pr_hash c) (with_finality_depth depth)),
          rt_mapping = mapping\<rparr>)"

definition deployment_runtime :: "loader \<Rightarrow> store_db \<Rightarrow> u64 option \<Rightarrow> subgraph_deployment \<Rightarrow> node_error + subgraph_runtime" where
  "deployment_runtime ld db depth dep =
     attempt (load_deployment_mapping ld dep) (\<lambda>mapping. make_subgraph_runtime db (sd_subgraph dep) mapping depth)"

text \<open>\<open>dir\<close> is \<open>KASGRAPH_SUBGRAPH_DIR\<close>.\<close>

definition build_subgraph_runtimes ::
  "loader \<Rightarrow> string option \<Rightarrow> store_db \<Rightarrow> string \<Rightarrow> u64 option \<Rightarrow> node_error + subgraph_runtime list" where
  "build_subgraph_runtimes ld dir db configured depth =
     (case list_subgraph_deployments db of
        Inl e \<Rightarrow> Inl (Store_failed e)
      | Inr deployments \<Rightarrow>
          if deployments \<noteq> [] then try_map (deployment_runtime ld db depth) deployments
          else
            attempt (load_mapping_from_registry ld db configured) (\<lambda>loaded.
            attempt (case loaded of
                Some m \<Rightarrow> Inr (Some m)
              | None \<Rightarrow> (case dir of None \<Rightarrow> Inr None | Some d \<Rightarrow> map_sum id Some (ld_dir ld d))) (\<lambda>mapping.
            attempt (make_subgraph_runtime db configured mapping depth) (\<lambda>rt. Inr [rt]))))"

record reload_delta =
  rd_added :: nat
  rd_removed :: nat

text \<open>The live set and what changed: on an error the set is the old one.\<close>

definition reconcile_subgraph_runtimes ::
  "loader \<Rightarrow> store_db \<Rightarrow> u64 option \<Rightarrow> subgraph_runtime list \<Rightarrow> (node_error + reload_delta) \<times> subgraph_runtime list" where
  "reconcile_subgraph_runtimes ld db depth runtimes =
     (case list_subgraph_deployments db of
        Inl e \<Rightarrow> (Inl (Store_failed e), runtimes)
      | Inr deployments \<Rightarrow>
          if deployments = [] then (Inr \<lparr>rd_added = 0, rd_removed = 0\<rparr>, runtimes)
          else
            (let existing = rt_subgraph ` set runtimes; desired = sd_subgraph ` set deployments in
             case try_map (deployment_runtime ld db depth) (filter (\<lambda>d. sd_subgraph d \<notin> existing) deployments) of
               Inl e \<Rightarrow> (Inl e, runtimes)
             | Inr added \<Rightarrow>
                 (let kept = filter (\<lambda>r. rt_subgraph r \<in> desired) runtimes
                  in (Inr \<lparr>rd_added = length added, rd_removed = length runtimes - length kept\<rparr>, kept @ added))))"

section \<open>Fan-out\<close>

fun fan_out_each ::
  "node_env \<Rightarrow> bool \<Rightarrow> chain_notification \<Rightarrow> subgraph_runtime list \<Rightarrow> store_db \<Rightarrow> stream_event list
     \<Rightarrow> (node_error + notification_outcome option) \<times> node" where
  "fan_out_each env hub n [] db pub = (Inr None, \<lparr>nd_db = db, nd_runtimes = [], nd_published = pub\<rparr>)"
| "fan_out_each env hub n (rt # rts) db pub =
     (case apply_and_persist_notification env (rt_subgraph rt) (rt_mapping rt) hub n
             \<lparr>ns_db = db, ns_ingestion = rt_ingestion rt, ns_published = pub\<rparr> of
        (r, s) \<Rightarrow>
          (let rt' = rt\<lparr>rt_ingestion := ns_ingestion s\<rparr> in
           case r of
             Inl e \<Rightarrow> (Inl e, \<lparr>nd_db = ns_db s, nd_runtimes = rt' # rts, nd_published = ns_published s\<rparr>)
           | Inr outcome \<Rightarrow>
               (case fan_out_each env hub n rts (ns_db s) (ns_published s) of
                  (r', nd) \<Rightarrow> (map_sum id (\<lambda>_. Some outcome) r', nd\<lparr>nd_runtimes := rt' # nd_runtimes nd\<rparr>))))"

definition fan_out_notification ::
  "node_env \<Rightarrow> bool \<Rightarrow> chain_notification \<Rightarrow> node \<Rightarrow> (node_error + notification_outcome) \<times> node" where
  "fan_out_notification env hub n nd =
     (case fan_out_each env hub n (nd_runtimes nd) (nd_db nd) (nd_published nd) of
        (r, nd') \<Rightarrow> (attempt r (\<lambda>rep. ok_or rep No_runtimes), nd'))"

fun fan_out_all :: "node_env \<Rightarrow> bool \<Rightarrow> chain_notification list \<Rightarrow> node \<Rightarrow> (node_error + unit) \<times> node" where
  "fan_out_all env hub [] nd = (Inr (), nd)"
| "fan_out_all env hub (n # ns) nd =
     (case fan_out_notification env hub n nd of
        (Inl e, nd) \<Rightarrow> (Inl e, nd)
      | (Inr _, nd) \<Rightarrow> fan_out_all env hub ns nd)"

definition persist_drained_rpc_audit :: "store_db \<Rightarrow> rpc_client \<Rightarrow> nat \<times> store_db \<times> rpc_client" where
  "persist_drained_rpc_audit db c =
     (case drain_audit_log c of
        (drained, c) \<Rightarrow> (length drained,
          foldl (\<lambda>db r. insert_rpc_block_audit db
            \<lparr>ra_block_hash = ba_block_hash r, ra_daa = u64_as_i64 (ba_daa r), ra_served_by = ba_served_by r\<rparr>) db drained, c))"

text \<open>The text of the log line about a block's hits.\<close>

fun count_kind :: "detector_kind \<Rightarrow> (detector_kind \<times> nat) list \<Rightarrow> (detector_kind \<times> nat) list" where
  "count_kind k [] = [(k, 1)]"
| "count_kind k ((j, n) # rest) = (if j = k then (j, n + 1) # rest else (j, n) # count_kind k rest)"

definition summarize_detector_hits :: "detected_pattern list \<Rightarrow> string" where
  "summarize_detector_hits hits =
     join '','' (map (\<lambda>(kind, n). kind_name kind @ '':'' @ nat_to_string n)
       (foldl (\<lambda>counts hit. count_kind (dp_kind hit) counts) [] hits))"

section \<open>The bootstrap pass\<close>

definition run_result :: "'a run \<Rightarrow> runtime_error + 'a" where
  "run_result r = (case r of Panics \<Rightarrow> Inl (Node_failed Panicked) | Returns x \<Rightarrow> Inr x)"

fun convert_all :: "(ingested_block \<Rightarrow> bootstrap_block run) \<Rightarrow> ingested_block list \<Rightarrow> bootstrap_block list run" where
  "convert_all conv [] = Returns []"
| "convert_all conv (b # bs) = run_bind (conv b) (\<lambda>x. run_map ((#) x) (convert_all conv bs))"

definition fetch_or_fallback_blocks ::
  "network \<Rightarrow> wire \<Rightarrow> node_env \<Rightarrow> node_config \<Rightarrow> rpc_client option
     \<Rightarrow> (runtime_error + bootstrap_block list) \<times> rpc_client option" where
  "fetch_or_fallback_blocks net w env cfg client =
     (case client of
        Some c \<Rightarrow>
          (case fetch_blocks net w (nc_block_hashes cfg) c of
             (Inl e, c) \<Rightarrow> (Inl (Rpc_failed e), Some c)
           | (Inr fetched, c) \<Rightarrow> (run_result (convert_all (conv_of env) fetched), Some c))
      | None \<Rightarrow> (Inr [nc_bootstrap_block cfg], None))"

definition recovery_notifications ::
  "network \<Rightarrow> wire \<Rightarrow> node_config \<Rightarrow> rpc_client option
     \<Rightarrow> (runtime_error + chain_notification list) \<times> rpc_client option" where
  "recovery_notifications net w cfg client =
     (case rv_recovery_range (nc_recovery cfg) of
        None \<Rightarrow> (Inr [], client)
      | Some (lo, hi) \<Rightarrow>
          (let n = RecoveryRequired lo hi ''env-configured recovery replay'' in
           case client of
             Some c \<Rightarrow>
               if rv_recovery_block_hashes (nc_recovery cfg) \<noteq> [] then
                 (case recover_blocks_by_hashes net w (rv_recovery_block_hashes (nc_recovery cfg)) lo hi c of
                    (Inl e, c) \<Rightarrow> (Inl (Rpc_failed e), Some c)
                  | (Inr m, c) \<Rightarrow> (Inr [n, m], Some c))
               else (Inr [n], Some c)
           | None \<Rightarrow> (Inr [n], None)))"

definition configured_notifications ::
  "network \<Rightarrow> wire \<Rightarrow> node_env \<Rightarrow> node_config \<Rightarrow> rpc_client option
     \<Rightarrow> (runtime_error + chain_notification list) \<times> rpc_client option" where
  "configured_notifications net w env cfg client =
     (let removed = rv_removed_block_hashes (nc_recovery cfg);
          (blocks, client) =
            (if removed \<noteq> [] \<or> nc_block_hashes cfg \<noteq> []
             then (case fetch_or_fallback_blocks net w env cfg client of
               (r, client) \<Rightarrow> (map_sum id (\<lambda>blocks.
                  if length blocks = 1 \<and> removed = [] then [BlockAdded (block_to_rpc (blocks ! 0))]
                  else [VirtualChainChanged removed (map block_to_rpc blocks)]) r, client))
             else (Inr [], client))
      in case blocks of
           Inl e \<Rightarrow> (Inl e, client)
         | Inr ns \<Rightarrow>
             (let (r, client) = recovery_notifications net w cfg client
              in (attempt r (\<lambda>ms. Inr (ns @ ms)), client)))"

definition build_notifications ::
  "network \<Rightarrow> wire \<Rightarrow> node_env \<Rightarrow> ws_connection \<Rightarrow> node_config \<Rightarrow> rpc_client option
     \<Rightarrow> (runtime_error + chain_notification list) \<times> rpc_client option" where
  "build_notifications net w env conn cfg client =
     (case nc_notification_stream cfg of
        None \<Rightarrow> configured_notifications net w env cfg client
      | Some st \<Rightarrow>
          (case (ns_jsonl st, ns_ws_url st) of
             (Some jsonl, _) \<Rightarrow> (map_sum Rpc_failed id (parse_notifications_jsonl w jsonl (ns_served_by st)), client)
           | (None, Some ws_url) \<Rightarrow>
               (let read = read_notifications_ws net w ws_url (ns_served_by st) (unat (ns_max_messages st))
                      (unat (ns_idle_timeout_ms st)) conn
                in case client of
                     Some c \<Rightarrow> (let (r, c) = read c in (map_sum Rpc_failed id r, Some c))
                   | None \<Rightarrow> (map_sum Rpc_failed id (fst (read (single_endpoint_client ws_url (ns_served_by st)))), None))
           | (None, None) \<Rightarrow> configured_notifications net w env cfg client))"

section \<open>The continuous loop\<close>

definition validate_continuous_config :: "node_config \<Rightarrow> runtime_error + unit" where
  "validate_continuous_config cfg =
     (if co_ws_url (nc_continuous cfg) = None then Inl Ws_url_missing else Inr ())"

text \<open>What the select yields: a reload tick, an interrupt, or what the channel gives. A notification comes
  with the client's state at that time, which the driver and the health probes share.\<close>

datatype loop_event = ReloadTick | CtrlC | DriverClosed | Received chain_notification rpc_client

datatype loop_end = Interrupted | Channel_closed | Max_messages | Events_exhausted

definition active_recovery ::
  "network \<Rightarrow> wire \<Rightarrow> continuous_config \<Rightarrow> subgraph_runtime list \<Rightarrow> u64 \<times> u64 \<Rightarrow> rpc_client
     \<Rightarrow> ((rpc_error + chain_notification) \<times> rpc_client) option" where
  "active_recovery net w co runtimes gap c =
     (case gap of (lo, hi) \<Rightarrow>
        (case recovery_anchor_hash (rt_ingestion (runtimes ! 0)) lo of
           Some anchor \<Rightarrow> Some (recover_blocks_in_daa_range net w anchor lo hi c)
         | None \<Rightarrow>
             if co_gap_recovery_block_hashes co \<noteq> []
             then Some (recover_blocks_by_hashes net w (co_gap_recovery_block_hashes co) lo hi c)
             else None))"

fun continuous_loop ::
  "network \<Rightarrow> wire \<Rightarrow> node_env \<Rightarrow> loader \<Rightarrow> node_config \<Rightarrow> bool \<Rightarrow> loop_event list \<Rightarrow> nat \<Rightarrow> node
     \<Rightarrow> (node_error + loop_end) \<times> nat \<times> node" where
  "continuous_loop net w env ld cfg hub [] processed nd = (Inr Events_exhausted, processed, nd)"
| "continuous_loop net w env ld cfg hub (ReloadTick # es) processed nd =
     continuous_loop net w env ld cfg hub es processed
       (nd\<lparr>nd_runtimes := snd (reconcile_subgraph_runtimes ld (nd_db nd) (nc_finality_depth cfg) (nd_runtimes nd))\<rparr>)"
| "continuous_loop net w env ld cfg hub (CtrlC # es) processed nd = (Inr Interrupted, processed, nd)"
| "continuous_loop net w env ld cfg hub (DriverClosed # es) processed nd = (Inr Channel_closed, processed, nd)"
| "continuous_loop net w env ld cfg hub (Received n c # es) processed nd =
     (let max_messages = unat (co_max_messages (nc_continuous cfg));
          finish = (\<lambda>c nd.
            let (_, db, _) = persist_drained_rpc_audit (nd_db nd) c; nd = nd\<lparr>nd_db := db\<rparr>
            in if max_messages \<noteq> 0 \<and> max_messages \<le> processed + 1 then (Inr Max_messages, processed + 1, nd)
               else continuous_loop net w env ld cfg hub es (processed + 1) nd)
      in case fan_out_notification env hub n nd of
           (Inl e, nd) \<Rightarrow> (Inl e, processed, nd)
         | (Inr outcome, nd) \<Rightarrow>
             (case no_recovery outcome of
                None \<Rightarrow> finish c nd
              | Some gap \<Rightarrow>
                  (case active_recovery net w (nc_continuous cfg) (nd_runtimes nd) gap c of
                     None \<Rightarrow> continuous_loop net w env ld cfg hub es (processed + 1) nd
                   | Some (Inl e, c) \<Rightarrow> finish c nd
                   | Some (Inr m, c) \<Rightarrow>
                       (case fan_out_notification env hub m nd of
                          (Inl e, nd) \<Rightarrow> (Inl e, processed + 1, nd)
                        | (Inr _, nd) \<Rightarrow> finish c nd))))"

definition run_continuous_ingestion ::
  "network \<Rightarrow> wire \<Rightarrow> node_env \<Rightarrow> loader \<Rightarrow> node_config \<Rightarrow> bool \<Rightarrow> rpc_client option \<Rightarrow> loop_event list \<Rightarrow> node
     \<Rightarrow> (runtime_error + loop_end) \<times> node" where
  "run_continuous_ingestion net w env ld cfg hub client es nd =
     (case co_ws_url (nc_continuous cfg) of
        None \<Rightarrow> (Inl Ws_url_missing, nd)
      | Some ws_url \<Rightarrow>
          (let driver_client = unwrap_or client (single_endpoint_client ws_url (co_served_by (nc_continuous cfg)))
           in case probe_live_capabilities net w driver_client of
                (Inl e, c) \<Rightarrow> (Inl (Rpc_failed e), nd)
              | (Inr capabilities, c) \<Rightarrow>
                  (case validate_live_capabilities capabilities of
                     Inl e \<Rightarrow> (Inl (Capability_failed e), nd)
                   | Inr _ \<Rightarrow>
                       (case continuous_loop net w env ld cfg hub es 0 nd of
                          (r, processed, nd) \<Rightarrow> (map_sum Node_failed id r, nd)))))"

text \<open>The node after the store is connected and migrated.\<close>

definition persist_bootstrap_state ::
  "network \<Rightarrow> wire \<Rightarrow> node_env \<Rightarrow> loader \<Rightarrow> string option \<Rightarrow> ws_connection \<Rightarrow> node_config \<Rightarrow> loop_event list \<Rightarrow> store_db
     \<Rightarrow> (runtime_error + unit) \<times> node" where
  "persist_bootstrap_state net w env ld dir conn cfg es db =
     (let failed = (\<lambda>e db. (Inl (Node_failed e), \<lparr>nd_db = db, nd_runtimes = [], nd_published = []\<rparr>)) in
      case subgraph_id_new (nc_subgraph cfg) of
        Inl e \<Rightarrow> failed (Store_failed e) db
      | Inr sg \<Rightarrow>
          (let db = ensure_subgraph_schema db sg; client = map_option build_rpc_client (nc_rpc cfg) in
           case build_subgraph_runtimes ld dir db sg (nc_finality_depth cfg) of
             Inl e \<Rightarrow> failed e db
           | Inr runtimes \<Rightarrow>
               (let nd = \<lparr>nd_db = db, nd_runtimes = runtimes, nd_published = []\<rparr> in
                case nc_ingest_mode cfg of
                  Bootstrap \<Rightarrow>
                    (case build_notifications net w env conn cfg client of
                       (Inl e, client) \<Rightarrow> (Inl e, nd)
                     | (Inr ns, client) \<Rightarrow>
                         (case fan_out_all env True ns nd of
                            (Inl e, nd) \<Rightarrow> (Inl (Node_failed e), nd)
                          | (Inr _, nd) \<Rightarrow>
                              (Inr (), case client of None \<Rightarrow> nd
                                 | Some c \<Rightarrow> nd\<lparr>nd_db := fst (snd (persist_drained_rpc_audit (nd_db nd) c))\<rparr>)))
                | Continuous \<Rightarrow>
                    (case run_continuous_ingestion net w env ld cfg True client es nd of
                       (r, nd) \<Rightarrow> (map_sum id (\<lambda>_. ()) r, nd)))))"

text \<open>\<open>main\<close>: without a database URL nothing is persisted. \<open>db url\<close> is the database behind a URL, connected and
  migrated.\<close>

definition node_main ::
  "network \<Rightarrow> wire \<Rightarrow> node_env \<Rightarrow> loader \<Rightarrow> string option \<Rightarrow> ws_connection \<Rightarrow> (string \<Rightarrow> (duration_ms \<Rightarrow> nat) option)
     \<Rightarrow> environment \<Rightarrow> loop_event list \<Rightarrow> (string \<Rightarrow> store_db) \<Rightarrow> (runtime_error + unit) \<times> node option" where
  "node_main net w env ld dir conn parse_f64 vars es db =
     (let cfg = from_env parse_f64 vars in
      case nc_database_url cfg of
        None \<Rightarrow> (Inr (), None)
      | Some url \<Rightarrow> (case persist_bootstrap_state net w env ld dir conn cfg es (db url) of (r, nd) \<Rightarrow> (r, Some nd)))"

end
