(* ===== verification/Store_Steps.thy ===== *)
theory Store_Steps
  imports Node_Facts
begin

text \<open>
  What a notification does to the database, as a contract: a property of the store that every statement keeps,
  when the row it writes or the cutoff it unwinds is of a subgraph in \<open>own\<close>, is kept by every step of the
  node for such a subgraph. The constraints of the schema and the rows of other subgraphs are instances of the contract of all statements; the
  lineage heads of other subgraphs are one of the smaller contract, without those of a recorded hit.
\<close>

section \<open>Rules for the steps\<close>

lemma preserves_query [preserves_rules]: "preserves I (query f)"
  by (simp add: preserves_def query_def split: sum.split)

lemma preserves_execute: "(\<And>s s'. I s \<Longrightarrow> f s = Inr s' \<Longrightarrow> I s') \<Longrightarrow> preserves I (execute f)"
  by (simp add: preserves_def execute_def split: sum.split)

lemma preserves_counted: "(\<And>s n s'. I s \<Longrightarrow> f s = Inr (n, s') \<Longrightarrow> I s') \<Longrightarrow> preserves I (execute_counted f)"
  by (fastforce simp: preserves_def execute_counted_def split: sum.split)

lemma preserves_update: "(\<And>s. I s \<Longrightarrow> I (f s)) \<Longrightarrow> preserves I (update f)"
  by (simp add: preserves_def update_def)

lemma preserves_each: "(\<And>x. x \<in> set xs \<Longrightarrow> preserves I (f x)) \<Longrightarrow> preserves I (for_each xs f)"
  by (induction xs) (auto intro!: preserves_rules)

lemma preserves_conj: "preserves I m \<Longrightarrow> preserves J m \<Longrightarrow> preserves (\<lambda>s. I s \<and> J s) m"
  by (simp add: preserves_def)

section \<open>Statements that record no hit of a mapping\<close>

text \<open>The contract of the statements a notification runs when no hit is recorded through a mapping.\<close>

locale quiet_steps =
  fixes I :: "store_db \<Rightarrow> bool" and own :: "string \<Rightarrow> bool"
  assumes spend: "I db \<Longrightarrow> record_covenant_spend db sp = Inr db' \<Longrightarrow> own (cs_subgraph sp) \<Longrightarrow> I db'"
    and detected: "I db \<Longrightarrow> own (dt_subgraph d) \<Longrightarrow> I (insert_detected_pattern db d)"
    and entity: "I db \<Longrightarrow> upsert_entity_version db e = Inr db' \<Longrightarrow> own (ev_subgraph e) \<Longrightarrow> I db'"
    and audit: "I db \<Longrightarrow> I (insert_rpc_block_audit db a)"
    and block: "I db \<Longrightarrow> own (cr_subgraph c) \<Longrightarrow> I (record_committed_block db c)"
    and checkpoint: "I db \<Longrightarrow> own (pr_subgraph p) \<Longrightarrow> length (pr_hash p) = 32 \<Longrightarrow> I (insert_poi_checkpoint db p)"
    and unwind_blocks: "I db \<Longrightarrow> own sg \<Longrightarrow> I (snd (unwind_committed_blocks_for_subgraph db sg hs why))"
    and unwind_entities: "I db \<Longrightarrow> unwind_entity_versions db sg k = Inr (n, db') \<Longrightarrow> own sg \<Longrightarrow> I db'"
    and unwind_utxos: "I db \<Longrightarrow> unwind_covenant_utxos db sg k = Inr (n, db') \<Longrightarrow> own sg \<Longrightarrow> I db'"
    and unwind_spends: "I db \<Longrightarrow> unwind_covenant_spends db sg k = Inr (n, db') \<Longrightarrow> own sg \<Longrightarrow> I db'"
    and unwind_lineage: "I db \<Longrightarrow> own sg \<Longrightarrow> I (snd (unwind_covenant_lineage db sg k))"
begin

abbreviation kept :: "node_state \<Rightarrow> bool" where
  "kept s \<equiv> I (ns_db s)"

lemma kept_on_db: "preserves I m \<Longrightarrow> preserves kept (on_db m)"
  by (simp add: preserves_def on_db_def case_prod_beta)

lemma snapshot: "preserves I (load_entity_snapshot sg)"
  unfolding load_entity_snapshot_def by (intro preserves_rules)

lemma grouped: "preserves I (group_consumed sg is m)"
  by (induction "is" arbitrary: m) (auto intro!: preserves_rules)

lemma spend_queries:
  "preserves I (spend_operation_of env sg tx consumed)" "preserves I (successor_of sg tx spent)"
  by (auto simp: spend_operation_of_def successor_of_def intro!: preserves_rules split: option.split)

lemma published: "preserves kept (publish_hit_to_stream hub b hit)"
  by (auto simp: publish_hit_to_stream_def Let_def intro!: preserves_rules preserves_update)

lemma hit_without_mapping: "own sg \<Longrightarrow> preserves kept (persist_hit env sg False hub b h)"
  unfolding persist_hit_def Let_def
  by (auto intro!: preserves_rules kept_on_db preserves_update published
      intro: detected simp: detected_record_of_def)

lemma records: "(\<And>r. r \<in> set rs \<Longrightarrow> own (ev_subgraph r)) \<Longrightarrow> preserves I (upsert_records rs)"
  unfolding upsert_records_def by (intro preserves_each preserves_execute) (rule entity)

lemma dispatched_spend: "own sg \<Longrightarrow> preserves I (dispatch_spend sg m b snap operation successor spent)"
  by (auto simp: dispatch_spend_def dispatch_spend_hit_def entity_versions_def
      intro!: preserves_rules records split: option.split sum.split prod.split)

lemma recorded_spend:
  assumes "own sg"
  shows "preserves I (persist_consumed env sg m b snap entry)"
proof -
  have "own (cs_subgraph (spend_record_of sg b i spent successor))" for i spent successor
    using assms(1) by (simp add: spend_record_of_def)
  then show ?thesis
    by (cases entry) (auto simp: persist_consumed_def intro!: preserves_rules preserves_execute spend_queries
        dispatched_spend assms intro: spend)
qed

lemma spends: "own sg \<Longrightarrow> preserves I (persist_spends env sg mapping b)"
  unfolding persist_spends_def
  by (cases mapping) (auto intro!: preserves_rules grouped snapshot recorded_spend)

lemma mapping_tables: "own sg \<Longrightarrow> preserves I (unwind_mapping_tables sg k)"
proof -
  assume own: "own sg"
  have "I db'" if "I db" "Inr (unwind_covenant_lineage db sg k) = Inr (n, db')" for db n db'
    using unwind_lineage [OF that(1) own, of k] that(2) by simp
  then show ?thesis
    unfolding unwind_mapping_tables_def
    by (auto intro!: preserves_rules preserves_counted intro: unwind_entities unwind_utxos unwind_spends own)
qed

lemma poi: "own sg \<Longrightarrow> (\<And>x. length (env_hash env x) = 32) \<Longrightarrow> preserves kept (persist_poi env sg mapped b ds)"
  by (auto simp: preserves_def persist_poi_def compute_poi_def intro: checkpoint)

lemma unwinds: "own sg \<Longrightarrow> preserves kept (persist_unwinds sg mapped us)"
  unfolding persist_unwinds_def
  by (intro preserves_if preserves_andthen preserves_bind preserves_ret kept_on_db preserves_query preserves_update
      mapping_tables unwind_blocks) simp_all

text \<open>A block and a notification keep what the recording of their hits keeps.\<close>

lemma block_of_hits:
  assumes "own sg" "\<And>x. length (env_hash env x) = 32" "preserves kept (persist_hits env sg mapping hub b)"
  shows "preserves kept (persist_block env sg mapping hub b)"
  unfolding persist_block_def
  by (intro preserves_andthen preserves_bind kept_on_db preserves_update spends poi assms)
    (simp_all add: audit block assms(1))

lemma notification_of_hits:
  assumes "own sg" "\<And>x. length (env_hash env x) = 32" "kept s"
    and "\<And>st t b. apply_notification (conv_of env) (ns_ingestion s) n = Returns (st, t) \<Longrightarrow> b \<in> set (tr_writes t) \<Longrightarrow>
      preserves kept (persist_hits env sg mapping hub b)"
  shows "kept (snd (apply_and_persist_notification env sg mapping hub n s))"
proof (cases "apply_notification (conv_of env) (ns_ingestion s) n")
  case (Returns r)
  obtain st t where r: "r = (st, t)" by force
  have "preserves kept (for_each (tr_writes t) (persist_block env sg mapping hub))"
    using assms(4) Returns r by (intro preserves_each block_of_hits [OF assms(1,2)]) auto
  then have "preserves kept (andthen (persist_unwinds sg (mapping \<noteq> None) (tr_unwinds t))
      (andthen (for_each (tr_writes t) (persist_block env sg mapping hub))
        (ret \<lparr>no_recovery = tr_recovery t, no_committed = length (tr_writes t)\<rparr>)))"
    by (intro preserves_andthen preserves_ret unwinds assms(1))
  then show ?thesis
    using assms(3) Returns [unfolded r]
    by (simp add: apply_and_persist_notification_def bind_def ingest_def preserves_def)
qed (use assms(3) in \<open>simp add: apply_and_persist_notification_def bind_def ingest_def\<close>)

lemma quiet_notification:
  assumes "own sg" "\<And>x. length (env_hash env x) = 32" "kept s"
    and "mapping = None \<or> (\<forall>st t. apply_notification (conv_of env) (ns_ingestion s) n = Returns (st, t) \<longrightarrow>
      (\<forall>b \<in> set (tr_writes t). bb_hits b = []))"
  shows "kept (snd (apply_and_persist_notification env sg mapping hub n s))"
proof (rule notification_of_hits [OF assms(1-3)])
  fix st t b
  assume "apply_notification (conv_of env) (ns_ingestion s) n = Returns (st, t)" "b \<in> set (tr_writes t)"
  then have "mapping = None \<or> bb_hits b = []" using assms(4) by blast
  then show "preserves kept (persist_hits env sg mapping hub b)"
  proof
    assume none: "mapping = None"
    have "preserves kept (for_each (bb_hits b) (persist_hit env sg False hub b))"
      by (intro preserves_for_each hit_without_mapping assms(1))
    then show ?thesis
      by (simp add: persist_hits_def none preserves_ret preserves_andthen)
  qed (simp add: persist_hits_def preserves_ret)
qed

end

section \<open>All statements\<close>

locale store_steps = quiet_steps I own for I :: "store_db \<Rightarrow> bool" and own :: "string \<Rightarrow> bool" +
  assumes utxo: "I db \<Longrightarrow> track_covenant_utxo db u = Inr db' \<Longrightarrow> own (cu_subgraph u) \<Longrightarrow> I db'"
    and head: "I db \<Longrightarrow> upsert_covenant_lineage_head db h = Inr db' \<Longrightarrow> own (lh_subgraph h) \<Longrightarrow> I db'"
    and row: "I db \<Longrightarrow> insert_covenant_lineage_row db r = Inr db' \<Longrightarrow> own (lr_subgraph r) \<Longrightarrow> I db'"
begin

lemma lineage_steps:
  "preserves I (classify_lineage env sg hit ins)"
  "own sg \<Longrightarrow> preserves I (persist_lineage env sg hit c daa)"
proof -
  show "preserves I (classify_lineage env sg hit ins)"
    by (induction ins) (auto intro!: preserves_rules)
  show "own sg \<Longrightarrow> preserves I (persist_lineage env sg hit c daa)"
    unfolding persist_lineage_def Let_def next_lineage_step_def
    by (auto intro!: preserves_rules preserves_execute intro: head row)
qed

lemma hit: "own sg \<Longrightarrow> preserves kept (persist_hit env sg mapped hub b h)"
  unfolding persist_hit_def Let_def
  by (auto intro!: preserves_rules kept_on_db preserves_update preserves_execute lineage_steps published
      intro: detected utxo simp: detected_record_of_def utxo_record_of_def split: option.split)

lemma hits:
  assumes "own sg" "\<And>m. mapping = Some m \<Longrightarrow> own (lm_subgraph m)"
  shows "preserves kept (persist_hits env sg mapping hub b)"
proof -
  have "preserves kept (case mapping of None \<Rightarrow> ret [] | Some m \<Rightarrow> on_db (bind (load_entity_snapshot sg) (\<lambda>snapshot.
      let records = dispatch_committed_hits m (i64_as_u64 (bb_daa b)) (bb_hash b) (bb_hits b) snapshot
      in andthen (upsert_records records) (ret records))))"
    using assms(2) unfolding Let_def
    by (cases mapping) (auto intro!: preserves_rules kept_on_db snapshot records dest: dispatch_records)
  then show ?thesis
    unfolding persist_hits_def by (intro preserves_if preserves_andthen preserves_for_each preserves_ret hit assms(1))
qed

lemma notification:
  assumes "own sg" "\<And>m. mapping = Some m \<Longrightarrow> own (lm_subgraph m)" "\<And>x. length (env_hash env x) = 32"
  shows "preserves kept (apply_and_persist_notification env sg mapping hub n)"
  unfolding preserves_def using notification_of_hits [OF assms(1,3)] hits [OF assms(1,2)] by blast

end

end
