(* ===== verification/Store_Invariant.thy ===== *)
theory Store_Invariant
  imports Store_Steps
begin

text \<open>
  The schema of the database as an invariant: the primary keys, unique constraints and foreign keys of
  the migrations of \<open>src/crates/kasgraph-store\<close>, which every operation keeps, errors included, and so
  does the handling of any notification.
\<close>

definition schema_ok :: "schema_tables \<Rightarrow> bool" where
  "schema_ok t \<longleftrightarrow> unique_key entity_pk (st_entities t) \<and> unique_key utxo_pk (st_utxos t) \<and>
     unique_key spend_pk (st_spends t)"

text \<open>The lineage tables: the keys of both and the reference from a row to its head.\<close>

definition lineage_tables_ok :: "lineage_head list \<Rightarrow> lineage_row list \<Rightarrow> bool" where
  "lineage_tables_ok heads rows \<longleftrightarrow>
     unique_key lh_covenant_id heads \<and> unique_key lineage_pk rows \<and> unique_key lineage_step_key rows \<and>
     (\<forall>r \<in> set rows. has_key lh_covenant_id (lr_covenant_id r) heads)"

definition ledger_tables_ok :: "store_db \<Rightarrow> bool" where
  "ledger_tables_ok db \<longleftrightarrow>
     unique_key sd_subgraph (db_deployments db) \<and>
     unique_key poi_pk (db_poi db) \<and> (\<forall>r \<in> set (db_poi db). length (pr_hash r) = 32) \<and>
     unique_key committed_pk (db_committed db) \<and> unique_key detected_pk (db_detected db) \<and>
     unique_key rg_id (db_reorgs db) \<and> (\<forall>r \<in> set (db_reorgs db). rg_id r < db_next_reorg db)"

definition schemas_ok :: "store_db \<Rightarrow> bool" where
  "schemas_ok db \<longleftrightarrow> bt_ok (db_schemas db) \<and> (\<forall>sg t. map_of (db_schemas db) sg = Some t \<longrightarrow> schema_ok t)"

definition store_ok :: "store_db \<Rightarrow> bool" where
  "store_ok db \<longleftrightarrow> lineage_tables_ok (db_heads db) (db_rows db) \<and> ledger_tables_ok db \<and> schemas_ok db"

section \<open>Every statement keeps it\<close>

lemma unique_upsert_same: "(\<And>q. key (upd q r) = key q) \<Longrightarrow> unique_key key t \<Longrightarrow> unique_key key (tbl_upsert key upd r t)"
  by (rule unique_key_upsert)

lemma set_upsert: "set (tbl_upsert key upd r t) \<subseteq> insert r (set t \<union> (\<lambda>q. upd q r) ` set t)"
  by (auto simp: tbl_upsert_def)

lemma has_key_upsert_mono:
  "(\<And>q. key (upd q r) = key q) \<Longrightarrow> has_key key k t \<Longrightarrow> has_key key k (tbl_upsert key upd r t)"
  using map_key_upsert [of key upd r t] by (auto simp: has_key_iff simp flip: set_map)

lemma schemas_ok_insert: "schemas_ok db \<Longrightarrow> schema_ok t \<Longrightarrow> schemas_ok (db\<lparr>db_schemas := bt_insert sg t (db_schemas db)\<rparr>)"
  by (simp add: schemas_ok_def)

lemma store_ok_schemas:
  "store_ok db \<Longrightarrow> schemas_ok (db\<lparr>db_schemas := m\<rparr>) \<Longrightarrow> store_ok (db\<lparr>db_schemas := m\<rparr>)"
  by (simp add: store_ok_def ledger_tables_ok_def)

lemma store_ok_execute_schema:
  assumes "store_ok db" "execute_schema db sg f = Inr db'" "\<And>t. schema_ok t \<Longrightarrow> schema_ok (f t)"
  shows "store_ok db'"
  using assms by (auto simp: execute_schema_def store_ok_def schemas_ok_def ledger_tables_ok_def split: option.splits if_splits)

lemma store_ok_delete_schema:
  assumes "store_ok db" "delete_schema db sg k f = Inr (n, db')" "\<And>t. schema_ok t \<Longrightarrow> schema_ok (f t)"
  shows "store_ok db'"
  using assms by (auto simp: delete_schema_def store_ok_def schemas_ok_def ledger_tables_ok_def split: option.splits if_splits)

lemma schema_ok_writes:
  assumes "schema_ok t"
  shows "schema_ok (upsert_entity_row e t)" "schema_ok (track_utxo_row u t)" "schema_ok (record_spend_row s t)"
    "schema_ok (unwind_entity_rows c t)" "schema_ok (unwind_utxo_rows c t)" "schema_ok (unwind_spend_rows c t)"
  using assms
  by (simp_all add: schema_ok_def upsert_entity_row_def track_utxo_row_def record_spend_row_def
      unwind_entity_rows_def unwind_utxo_rows_def unwind_spend_rows_def unique_key_upsert entity_pk_def utxo_pk_def spend_pk_def)

lemma store_ok_schema_ops:
  "store_ok db \<Longrightarrow> upsert_entity_version db e = Inr db' \<Longrightarrow> store_ok db'"
  "store_ok db \<Longrightarrow> track_covenant_utxo db u = Inr db' \<Longrightarrow> store_ok db'"
  "store_ok db \<Longrightarrow> record_covenant_spend db s = Inr db' \<Longrightarrow> store_ok db'"
  "store_ok db \<Longrightarrow> unwind_entity_versions db sg c = Inr (n, db') \<Longrightarrow> store_ok db'"
  "store_ok db \<Longrightarrow> unwind_covenant_utxos db sg c = Inr (n, db') \<Longrightarrow> store_ok db'"
  "store_ok db \<Longrightarrow> unwind_covenant_spends db sg c = Inr (n, db') \<Longrightarrow> store_ok db'"
  by (simp_all only: upsert_entity_version_def track_covenant_utxo_def record_covenant_spend_def
      unwind_entity_versions_def unwind_covenant_utxos_def unwind_covenant_spends_def)
    (erule (1) store_ok_execute_schema store_ok_delete_schema, erule schema_ok_writes)+

lemma store_ok_ensure_schema: "store_ok db \<Longrightarrow> store_ok (ensure_subgraph_schema db sg)"
  by (auto simp: ensure_subgraph_schema_def store_ok_def schemas_ok_def ledger_tables_ok_def schema_ok_def empty_schema_def
      split: option.split)

lemma unique_key_replace: "unique_key key t \<Longrightarrow> unique_key key (tbl_upsert key (\<lambda>old new. new) r t)"
proof -
  have "map key (map (\<lambda>q. if key q = key r then r else q) t) = map key t" by simp
  then show "unique_key key t \<Longrightarrow> unique_key key (tbl_upsert key (\<lambda>old new. new) r t)"
    by (auto simp: unique_key_def tbl_upsert_def has_key_iff simp del: map_map)
qed

lemma store_ok_deploy: "store_ok db \<Longrightarrow> store_ok (upsert_subgraph_deployment db d)"
  by (simp add: store_ok_def ledger_tables_ok_def schemas_ok_def upsert_subgraph_deployment_def unique_key_replace)

lemma store_ok_record_committed: "store_ok db \<Longrightarrow> store_ok (record_committed_block db r)"
  by (simp add: store_ok_def ledger_tables_ok_def schemas_ok_def record_committed_block_def unique_key_upsert committed_pk_def)

lemma store_ok_audit: "store_ok db \<Longrightarrow> store_ok (insert_rpc_block_audit db a)"
  by (simp add: store_ok_def ledger_tables_ok_def schemas_ok_def insert_rpc_block_audit_def)

lemma store_ok_detected: "store_ok db \<Longrightarrow> store_ok (insert_detected_pattern db r)"
  by (simp add: store_ok_def ledger_tables_ok_def schemas_ok_def insert_detected_pattern_def unique_key_upsert detected_pk_def)

lemma store_ok_checkpoint:
  assumes "store_ok db" "length (pr_hash cp) = 32"
  shows "store_ok (insert_poi_checkpoint db cp)"
proof -
  have "\<forall>r \<in> set (db_poi (insert_poi_checkpoint db cp)). length (pr_hash r) = 32"
    using assms set_upsert [of poi_pk "\<lambda>old new. old\<lparr>pr_hash := pr_hash new\<rparr>" cp "db_poi db"]
    by (auto simp: insert_poi_checkpoint_def store_ok_def ledger_tables_ok_def)
  moreover have "unique_key poi_pk (db_poi (insert_poi_checkpoint db cp))"
    using assms(1) by (simp add: insert_poi_checkpoint_def store_ok_def ledger_tables_ok_def unique_key_upsert poi_pk_def)
  ultimately show ?thesis
    using assms(1) by (simp add: store_ok_def ledger_tables_ok_def schemas_ok_def insert_poi_checkpoint_def)
qed

lemma store_ok_unwind_committed:
  assumes "store_ok db"
  shows "store_ok (snd (unwind_committed_blocks_for_subgraph db sg hs why))"
proof -
  have "\<forall>r \<in> set (db_reorgs db). rg_id r < db_next_reorg db" "unique_key rg_id (db_reorgs db)"
    using assms by (simp_all add: store_ok_def ledger_tables_ok_def)
  then have "unique_key rg_id (db_reorgs db @ [a])" "\<forall>r \<in> set (db_reorgs db @ [a]). rg_id r < db_next_reorg db + 1"
    if "rg_id a = db_next_reorg db" for a
    using that by (auto simp: unique_key_append has_key_iff)
  then show ?thesis
    using assms by (auto simp: unwind_committed_blocks_for_subgraph_def Let_def store_ok_def ledger_tables_ok_def
        schemas_ok_def tbl_delete_def)
qed

lemma store_ok_head:
  assumes "store_ok db" "upsert_covenant_lineage_head db h = Inr db'"
  shows "store_ok db'"
proof -
  let ?upd = "\<lambda>old new. old\<lparr>lh_current_utxo := lh_current_utxo new, lh_last_seen_daa := lh_last_seen_daa new,
                           lh_count := lh_count new\<rparr>"
  have "lineage_tables_ok (tbl_upsert lh_covenant_id ?upd h (db_heads db)) (db_rows db)"
    using assms(1) by (auto simp: store_ok_def lineage_tables_ok_def intro!: unique_key_upsert has_key_upsert_mono)
  then show ?thesis
    using assms by (auto simp: upsert_covenant_lineage_head_def store_ok_def ledger_tables_ok_def schemas_ok_def
        split: if_splits)
qed

lemma store_ok_row: "store_ok db \<Longrightarrow> insert_covenant_lineage_row db r = Inr db' \<Longrightarrow> store_ok db'"
  by (auto simp: insert_covenant_lineage_row_def store_ok_def lineage_tables_ok_def ledger_tables_ok_def schemas_ok_def
      unique_key_append split: if_splits)

lemma store_ok_unwind_lineage:
  assumes "store_ok db"
  shows "store_ok (snd (unwind_covenant_lineage db sg c))"
proof -
  let ?rows = "tbl_delete (\<lambda>r. lr_subgraph r = sg \<and> c \<le> lr_daa r) (db_rows db)"
  let ?kept = "tbl_delete (\<lambda>h. lh_subgraph h = sg \<and> \<not> has_key lr_covenant_id (lh_covenant_id h) ?rows) (db_heads db)"
  have id: "lh_covenant_id (repoint_head ?rows sg h) = lh_covenant_id h" for h
    by (simp add: repoint_head_def split: option.split)
  have "unique_key lh_covenant_id (map (repoint_head ?rows sg) ?kept)"
    using assms unique_key_delete [of lh_covenant_id "db_heads db"]
    by (simp add: unique_key_def comp_def id store_ok_def lineage_tables_ok_def)
  moreover have "\<forall>r \<in> set ?rows. has_key lh_covenant_id (lr_covenant_id r) (map (repoint_head ?rows sg) ?kept)"
  proof
    fix r assume r: "r \<in> set ?rows"
    then obtain h where h: "h \<in> set (db_heads db)" "lh_covenant_id h = lr_covenant_id r"
      using assms by (auto simp: store_ok_def lineage_tables_ok_def has_key_iff tbl_delete_def)
    then have "h \<in> set ?kept" using r by (auto simp: tbl_delete_def has_key_iff)
    then show "has_key lh_covenant_id (lr_covenant_id r) (map (repoint_head ?rows sg) ?kept)"
      using h(2) id by (auto simp: has_key_iff image_iff intro!: bexI [of _ h])
  qed
  ultimately have "lineage_tables_ok (map (repoint_head ?rows sg) ?kept) ?rows"
    using assms by (simp add: store_ok_def lineage_tables_ok_def)
  then show ?thesis
    using assms by (simp add: unwind_covenant_lineage_def Let_def store_ok_def ledger_tables_ok_def schemas_ok_def)
qed

section \<open>Steps of the node keep it\<close>

text \<open>A node's state is well formed when its tables and its ingestion state are and the running POI is a hash.\<close>

definition node_ok :: "node_state \<Rightarrow> bool" where
  "node_ok s \<longleftrightarrow> store_ok (ns_db s) \<and> ing_ok (ns_ingestion s) \<and> length (ing_prior_poi (ns_ingestion s)) = 32"

interpretation well_typed: store_steps store_ok "\<lambda>_. True"
  by unfold_locales
    (auto intro: store_ok_schema_ops store_ok_head store_ok_row store_ok_detected store_ok_audit
      store_ok_record_committed store_ok_checkpoint store_ok_unwind_committed store_ok_unwind_lineage)

text \<open>The other half of a node's state: its ingestion state, and a running POI that is a hash.\<close>

definition ingestion_fine :: "node_state \<Rightarrow> bool" where
  "ingestion_fine s \<longleftrightarrow> ing_ok (ns_ingestion s) \<and> length (ing_prior_poi (ns_ingestion s)) = 32"

lemma fine_on_db [preserves_rules]: "preserves ingestion_fine (on_db m)"
  by (rule preserves_on_db) (simp add: ingestion_fine_def)

lemma fine_publish [preserves_rules]: "preserves ingestion_fine (publish_hit_to_stream hub b hit)"
  by (auto simp: publish_hit_to_stream_def Let_def ingestion_fine_def intro!: preserves_rules preserves_update)

lemma fine_poi: "(\<And>x. length (env_hash env x) = 32) \<Longrightarrow> preserves ingestion_fine (persist_poi env sg mapped b ds)"
  by (auto simp: preserves_def persist_poi_def ingestion_fine_def compute_poi_def reseed_prior_poi_def ing_ok_def)

lemma fine_hit [preserves_rules]: "preserves ingestion_fine (persist_hit env sg mapped hub b h)"
  unfolding persist_hit_def Let_def by (intro preserves_rules)

lemma fine_block: "(\<And>x. length (env_hash env x) = 32) \<Longrightarrow> preserves ingestion_fine (persist_block env sg mapping hub b)"
  unfolding persist_block_def persist_hits_def by (intro preserves_rules fine_poi)

lemma fine_reseed:
  "preserves ingestion_fine (bind (on_db (query (\<lambda>db. latest_poi_for_subgraph db sg))) (\<lambda>post.
     update (\<lambda>s. s\<lparr>ns_ingestion := reseed_prior_poi
       (case post of None \<Rightarrow> genesis_poi | Some cp \<Rightarrow> pr_hash cp) (ns_ingestion s)\<rparr>)))"
  by (auto simp: preserves_def bind_def on_db_def query_def update_def ingestion_fine_def reseed_prior_poi_def ing_ok_def
      latest_poi_for_subgraph_def genesis_poi_def split: option.splits sum.splits if_splits)

lemma fine_unwinds: "preserves ingestion_fine (persist_unwinds sg mapped us)"
  unfolding persist_unwinds_def by (intro preserves_if preserves_andthen preserves_ret fine_on_db fine_reseed)

lemma fine_ingest: "preserves ingestion_fine (ingest env n)"
  using apply_notification_ledger [of "conv_of env" _ n] apply_notification_frame [of "conv_of env" _ n]
  by (fastforce simp: preserves_def ingest_def ingestion_fine_def split: run.split)

lemma fine_notification:
  "(\<And>x. length (env_hash env x) = 32) \<Longrightarrow> preserves ingestion_fine (apply_and_persist_notification env sg mapping hub n)"
  unfolding apply_and_persist_notification_def
  by (intro preserves_bind preserves_andthen preserves_for_each preserves_ret fine_ingest fine_unwinds fine_block)

lemma node_ok_notification:
  "(\<And>x. length (env_hash env x) = 32) \<Longrightarrow> preserves node_ok (apply_and_persist_notification env sg mapping hub n)"
  using preserves_conj [OF well_typed.notification fine_notification]
  by (simp add: node_ok_def [abs_def] ingestion_fine_def)

lemma store_ok_empty: "store_ok empty_db"
  by (simp add: store_ok_def lineage_tables_ok_def ledger_tables_ok_def schemas_ok_def empty_db_def unique_key_def)

lemma node_ok_fresh: "node_ok (fresh_node d)"
  by (simp add: node_ok_def fresh_node_def store_ok_empty ing_ok_init) (simp add: with_finality_depth_def genesis_poi_def)

end
