(* ===== verification/Runtime_Facts.thy ===== *)
theory Runtime_Facts
  imports Node_Runtime Store_Invariant
begin

text \<open>
  What the running node keeps: well-formed tables and runtimes through the whole run, and the exact effect
  of reloading the set of runtimes from the registry.
\<close>

section \<open>A run keeps the tables and the runtimes well formed\<close>

definition runtime_ok :: "subgraph_runtime \<Rightarrow> bool" where
  "runtime_ok rt \<longleftrightarrow> ing_ok (rt_ingestion rt) \<and> length (ing_prior_poi (rt_ingestion rt)) = 32"

definition running_ok :: "node \<Rightarrow> bool" where
  "running_ok nd \<longleftrightarrow> store_ok (nd_db nd) \<and> (\<forall>rt \<in> set (nd_runtimes nd). runtime_ok rt)"

text \<open>Every row of the store comes from a hash of the right length.\<close>

definition hash32 :: "node_env \<Rightarrow> bool" where
  "hash32 env \<longleftrightarrow> (\<forall>x. length (env_hash env x) = 32)"

lemma notification_ok:
  assumes "hash32 env" "node_ok s" "apply_and_persist_notification env sg mapping hub n s = (r, s')"
  shows "node_ok s'"
proof -
  have "node_ok (snd (apply_and_persist_notification env sg mapping hub n s))"
    using node_ok_notification [of env sg mapping hub n] assms(1,2) unfolding hash32_def preserves_def by blast
  then show ?thesis using assms(3) by simp
qed

lemma fan_out_each_ok:
  assumes "hash32 env" "store_ok db" "\<forall>rt \<in> set rts. runtime_ok rt"
  shows "running_ok (snd (fan_out_each env hub n rts db pub))"
  using assms(2,3)
proof (induction rts arbitrary: db pub)
  case Nil
  then show ?case by (simp add: running_ok_def)
next
  case (Cons rt rts)
  obtain r s where s: "apply_and_persist_notification env (rt_subgraph rt) (rt_mapping rt) hub n
      \<lparr>ns_db = db, ns_ingestion = rt_ingestion rt, ns_published = pub\<rparr> = (r, s)"
    by (meson surj_pair)
  have "node_ok s"
    using notification_ok [OF assms(1) _ s] Cons.prems by (simp add: node_ok_def runtime_ok_def)
  then have ok: "store_ok (ns_db s)" "runtime_ok (rt\<lparr>rt_ingestion := ns_ingestion s\<rparr>)"
    by (simp_all add: node_ok_def runtime_ok_def)
  have rest: "running_ok (snd (fan_out_each env hub n rts (ns_db s) (ns_published s)))"
    using Cons ok(1) by simp
  show ?case
  proof (cases r)
    case (Inl e)
    then show ?thesis using s ok Cons.prems by (simp add: running_ok_def)
  next
    case (Inr outcome)
    then show ?thesis using s ok rest by (auto simp: running_ok_def split: prod.split)
  qed
qed

lemma fan_out_ok:
  assumes "hash32 env" "running_ok nd" "fan_out_notification env hub n nd = (r, nd')"
  shows "running_ok nd'"
  using fan_out_each_ok [OF assms(1), of "nd_db nd" "nd_runtimes nd" hub n "nd_published nd"] assms(2,3)
  by (auto simp: fan_out_notification_def running_ok_def split: prod.splits)

lemma fan_out_all_ok:
  assumes "hash32 env"
  shows "running_ok nd \<Longrightarrow> running_ok (snd (fan_out_all env hub ns nd))"
  by (induction ns arbitrary: nd) (auto split: prod.split sum.split dest: fan_out_ok [OF assms])

lemma make_runtime_ok:
  "make_subgraph_runtime db sg mapping depth = Inr rt \<Longrightarrow> runtime_ok rt \<and> rt_subgraph rt = sg \<and> rt_mapping rt = mapping"
  using ing_ok_init [of depth]
  by (auto simp: make_subgraph_runtime_def runtime_ok_def reseed_prior_poi_def latest_poi_for_subgraph_def ing_ok_def
      with_finality_depth_def genesis_poi_def split: sum.splits option.splits if_splits)

lemma try_map_Inr:
  "try_map f xs = Inr ys \<longleftrightarrow> list_all2 (\<lambda>x y. f x = Inr y) xs ys"
  by (induction xs arbitrary: ys) (auto simp: attempt_Inr list_all2_Cons1)

lemma try_map_runtimes:
  assumes "try_map (deployment_runtime ld db depth) deps = Inr rts"
  shows "map rt_subgraph rts = map sd_subgraph deps \<and> (\<forall>rt \<in> set rts. runtime_ok rt)"
proof -
  have "list_all2 (\<lambda>d rt. rt_subgraph rt = sd_subgraph d \<and> runtime_ok rt) deps rts"
    using assms unfolding try_map_Inr
    by (rule list_all2_mono) (auto simp: deployment_runtime_def attempt_Inr dest: make_runtime_ok)
  then show ?thesis
    by (induction rule: list_all2_induct) auto
qed

lemma build_runtimes_ok:
  "build_subgraph_runtimes ld dir db sg depth = Inr rts \<Longrightarrow> \<forall>rt \<in> set rts. runtime_ok rt"
  by (auto simp: build_subgraph_runtimes_def attempt_Inr split: sum.splits if_splits
      dest: try_map_runtimes make_runtime_ok)

lemma reconcile_ok:
  assumes "\<forall>rt \<in> set rts. runtime_ok rt"
  shows "\<forall>rt \<in> set (snd (reconcile_subgraph_runtimes ld db depth rts)). runtime_ok rt"
proof -
  have "runtime_ok rt" if "try_map (deployment_runtime ld db depth) ds = Inr added" "rt \<in> set added" for ds added rt
    using try_map_runtimes [OF that(1)] that(2) by blast
  then show ?thesis
    using assms by (auto simp: reconcile_subgraph_runtimes_def Let_def split: sum.split)
qed

lemma audit_ok: "store_ok db \<Longrightarrow> persist_drained_rpc_audit db c = (n, db', c') \<Longrightarrow> store_ok db'"
proof -
  have "store_ok db \<Longrightarrow> store_ok (foldl (\<lambda>db r. insert_rpc_block_audit db (f r)) db rs)" for rs :: "block_audit_record list" and f
    by (induction rs arbitrary: db) (simp_all add: store_ok_audit)
  then show "store_ok db \<Longrightarrow> persist_drained_rpc_audit db c = (n, db', c') \<Longrightarrow> store_ok db'"
    by (auto simp: persist_drained_rpc_audit_def split: prod.splits)
qed

lemma continuous_loop_ok:
  assumes "hash32 env" "running_ok nd"
  shows "running_ok (snd (snd (continuous_loop net w env ld cfg hub es processed nd)))"
  using assms(2)
proof (induction es arbitrary: processed nd)
  case (Cons e es)
  have drained: "running_ok (nd\<lparr>nd_db := db\<rparr>)" if "running_ok nd" "persist_drained_rpc_audit (nd_db nd) c = (k, db, c')" for nd c k db c'
    using that(1) audit_ok [OF _ that(2)] by (simp add: running_ok_def)
  show ?case
  proof (cases e)
    case ReloadTick
    let ?nd = "nd\<lparr>nd_runtimes := snd (reconcile_subgraph_runtimes ld (nd_db nd) (nc_finality_depth cfg) (nd_runtimes nd))\<rparr>"
    have "running_ok ?nd"
      using Cons.prems reconcile_ok [of "nd_runtimes nd"] by (simp add: running_ok_def)
    then show ?thesis using Cons.IH [of ?nd] ReloadTick by simp
  next
    case (Received n c)
    define fin where "fin = (\<lambda>c nd. let (_, db, _) = persist_drained_rpc_audit (nd_db nd) c; nd = nd\<lparr>nd_db := db\<rparr>
        in if unat (co_max_messages (nc_continuous cfg)) \<noteq> 0 \<and> unat (co_max_messages (nc_continuous cfg)) \<le> processed + 1
           then (Inr Max_messages, processed + 1, nd)
           else continuous_loop net w env ld cfg hub es (processed + 1) nd)"
    have finish: "running_ok (snd (snd (fin c nd)))" if "running_ok nd" for nd c
      using drained [OF that] Cons.IH by (auto simp: fin_def Let_def split: prod.split)
    obtain r nd1 where one: "fan_out_notification env hub n nd = (r, nd1)" by force
    have ok1: "running_ok nd1" using fan_out_ok [OF assms(1) Cons.prems one] .
    have loop: "continuous_loop net w env ld cfg hub (e # es) processed nd =
        (case r of Inl e \<Rightarrow> (Inl e, processed, nd1)
         | Inr outcome \<Rightarrow> (case no_recovery outcome of None \<Rightarrow> fin c nd1
             | Some gap \<Rightarrow> (case active_recovery net w (nc_continuous cfg) (nd_runtimes nd1) gap c of
                 None \<Rightarrow> continuous_loop net w env ld cfg hub es (processed + 1) nd1
               | Some (Inl e, c) \<Rightarrow> fin c nd1
               | Some (Inr m, c) \<Rightarrow> (case fan_out_notification env hub m nd1 of
                   (Inl e, nd) \<Rightarrow> (Inl e, processed + 1, nd) | (Inr _, nd) \<Rightarrow> fin c nd))))"
      unfolding Received continuous_loop.simps Let_def one fin_def by (cases r) simp_all
    show ?thesis
    proof (cases r)
      case (Inl e)
      then show ?thesis by (simp add: loop ok1)
    next
      case (Inr outcome)
      show ?thesis
      proof (cases "no_recovery outcome")
        case None
        then show ?thesis by (simp add: loop Inr finish ok1)
      next
        case (Some gap)
        consider "active_recovery net w (nc_continuous cfg) (nd_runtimes nd1) gap c = None"
          | e c' where "active_recovery net w (nc_continuous cfg) (nd_runtimes nd1) gap c = Some (Inl e, c')"
          | m c' where "active_recovery net w (nc_continuous cfg) (nd_runtimes nd1) gap c = Some (Inr m, c')"
          by (metis option.exhaust prod.exhaust sum.exhaust)
        then show ?thesis
        proof cases
          case 3
          obtain q nd2 where two: "fan_out_notification env hub m nd1 = (q, nd2)" by force
          have "running_ok nd2" using fan_out_ok [OF assms(1) ok1 two] .
          then show ?thesis by (cases q) (simp_all add: loop Inr Some 3 two finish)
        qed (simp_all add: loop Inr Some finish ok1 Cons.IH)
      qed
    qed
  qed (use Cons in simp_all)
qed simp

lemma bootstrap_ok:
  assumes "hash32 env" "store_ok db"
  shows "running_ok (snd (persist_bootstrap_state net w env ld dir conn cfg es db))"
proof (cases "subgraph_id_new (nc_subgraph cfg)")
  case (Inl e)
  then show ?thesis using assms(2) by (simp add: persist_bootstrap_state_def running_ok_def)
next
  case (Inr sg)
  let ?db = "ensure_subgraph_schema db sg" and ?client = "map_option build_rpc_client (nc_rpc cfg)"
  have db: "store_ok ?db" using assms(2) by (rule store_ok_ensure_schema)
  show ?thesis
  proof (cases "build_subgraph_runtimes ld dir ?db sg (nc_finality_depth cfg)")
    case (Inl e)
    then show ?thesis using Inr db by (simp add: persist_bootstrap_state_def running_ok_def Let_def)
  next
    case (Inr rts)
    let ?nd = "\<lparr>nd_db = ?db, nd_runtimes = rts, nd_published = []\<rparr>"
    have nd: "running_ok ?nd" using build_runtimes_ok [OF Inr] db by (simp add: running_ok_def)
    show ?thesis
    proof (cases "nc_ingest_mode cfg")
      case Bootstrap
      obtain r c where b: "build_notifications net w env conn cfg ?client = (r, c)" by force
      obtain q nd2 where f: "fan_out_all env True (projr r) ?nd = (q, nd2)" by force
      have nd2: "running_ok nd2" using fan_out_all_ok [OF assms(1) nd, of True "projr r"] f by simp
      have "running_ok (nd2\<lparr>nd_db := fst (snd (persist_drained_rpc_audit (nd_db nd2) c))\<rparr>)" for c
        using nd2 audit_ok [of "nd_db nd2" c] by (cases "persist_drained_rpc_audit (nd_db nd2) c") (simp add: running_ok_def)
      then show ?thesis
        using Bootstrap b f nd nd2 \<open>subgraph_id_new _ = _\<close> Inr
        by (cases r; cases q) (simp_all add: persist_bootstrap_state_def Let_def split: option.split)
    next
      case Continuous
      have "running_ok (snd (run_continuous_ingestion net w env ld cfg True ?client es ?nd))"
        using continuous_loop_ok [OF assms(1) nd, of net w ld cfg True es 0] nd
        by (auto simp: run_continuous_ingestion_def Let_def split: option.split prod.split sum.split)
      then show ?thesis
        using Continuous \<open>subgraph_id_new _ = _\<close> Inr
        by (simp add: persist_bootstrap_state_def Let_def case_prod_beta)
    qed
  qed
qed

text \<open>C18: the node keeps its database well typed. Whatever the configuration, the answers of the network,
  the notifications and the errors, a run on tables that satisfy the schema's keys and references leaves
  tables that do, and every runtime it leaves has ordered, disjoint maps keyed by the blocks' scores and a
  running POI of 32 bytes. The hash is assumed to be 32 bytes long.\<close>

theorem store_well_typed:
  assumes "hash32 env" "store_ok db"
  shows "case persist_bootstrap_state net w env ld dir conn cfg es db of (r, nd) \<Rightarrow>
    store_ok (nd_db nd) \<and> list_all (\<lambda>rt. ing_ok (rt_ingestion rt) \<and> length (ing_prior_poi (rt_ingestion rt)) = 32) (nd_runtimes nd)"
  using bootstrap_ok [OF assms, of net w ld dir conn cfg es]
  by (auto simp: running_ok_def runtime_ok_def list_all_iff split: prod.split)

definition idle_loader :: loader where
  "idle_loader = \<lparr>ld_deployment = (\<lambda>_. Inr idle_mapping), ld_dir = (\<lambda>_. Inr idle_mapping)\<rparr>"

definition default_config :: node_config where
  "default_config = from_env (\<lambda>_. None) (\<lambda>_. None)"

definition silent :: ws_connection where
  "silent = \<lparr>cn_connect = None, cn_send = (\<lambda>_. None), cn_items = []\<rparr>"

lemma store_well_typed_witness:
  "\<exists>nd. persist_bootstrap_state sample_network sample_wire sample_env idle_loader None silent default_config [] empty_db = (Inr (), nd) \<and>
    store_ok (nd_db nd) \<and> length (db_poi (nd_db nd)) = 1"
proof -
  have "hash32 sample_env" by (auto simp: hash32_def sample_env_def)
  moreover have "case persist_bootstrap_state sample_network sample_wire sample_env idle_loader None silent default_config [] empty_db of
      (r, nd) \<Rightarrow> r = Inr () \<and> length (db_poi (nd_db nd)) = 1"
    by code_simp
  ultimately show ?thesis
    using store_well_typed [OF _ store_ok_empty, of sample_env sample_network sample_wire idle_loader None silent default_config "[]"]
    by (auto split: prod.splits)
qed

section \<open>Reloading the runtimes\<close>

lemma collect_all_Inr: "collect_all rs = Inr xs \<Longrightarrow> rs = map Inr xs"
proof (induction rs arbitrary: xs rule: collect_all.induct)
  case (3 x rs)
  then show ?case by (cases "collect_all rs") auto
qed simp_all

definition active_subgraphs :: "store_db \<Rightarrow> string set" where
  "active_subgraphs db = sd_subgraph ` set (filter (\<lambda>r. dr_status r \<noteq> ''removed'') (db_deployments db))"

lemma listed_deployments:
  assumes "list_subgraph_deployments db = Inr deps" "unique_key sd_subgraph (db_deployments db)"
  shows "sd_subgraph ` set deps = active_subgraphs db \<and> distinct (map sd_subgraph deps)"
proof -
  let ?rows = "sort_key sd_subgraph (filter (\<lambda>r. dr_status r \<noteq> ''removed'') (db_deployments db))"
  have "map deployment_of_row ?rows = map Inr deps"
    using assms(1) unfolding list_subgraph_deployments_def by (rule collect_all_Inr)
  then have "list_all2 (=) (map deployment_of_row ?rows) (map Inr deps)"
    by (simp only: list.rel_eq)
  then have "list_all2 (\<lambda>r d. deployment_of_row r = Inr d) ?rows deps"
    by (simp only: list.rel_map)
  then have "list_all2 (\<lambda>r d. sd_subgraph d = sd_subgraph r) ?rows deps"
    by (rule list_all2_mono) (auto simp: deployment_of_row_def subgraph_id_new_def split: if_splits)
  then have keys: "map sd_subgraph deps = map sd_subgraph ?rows"
    by (induction rule: list_all2_induct) simp_all
  have "distinct (map sd_subgraph ?rows)"
  proof -
    have "distinct (map sd_subgraph (filter (\<lambda>r. dr_status r \<noteq> ''removed'') (db_deployments db)))"
      using assms(2) by (simp add: unique_key_def distinct_map_filter)
    moreover have "mset (map sd_subgraph ?rows) =
        mset (map sd_subgraph (filter (\<lambda>r. dr_status r \<noteq> ''removed'') (db_deployments db)))"
      by simp
    ultimately show ?thesis by (metis mset_eq_imp_distinct_iff)
  qed
  moreover have "set (map sd_subgraph deps) = active_subgraphs db"
    unfolding keys by (simp add: active_subgraphs_def)
  ultimately show ?thesis using keys by (metis set_map)
qed

lemma image_filter_set: "f ` set (filter (\<lambda>x. f x \<in> S) xs) = f ` set xs \<inter> S"
  by auto

text \<open>A runtime that has seen no block: no blocks and the POI of the latest checkpoint.\<close>

definition fresh_runtime :: "store_db \<Rightarrow> u64 option \<Rightarrow> subgraph_runtime \<Rightarrow> bool" where
  "fresh_runtime db depth rt \<longleftrightarrow>
     (\<exists>cp. latest_poi_for_subgraph db (rt_subgraph rt) = Inr cp \<and>
       rt_ingestion rt = (with_finality_depth depth)\<lparr>ing_prior_poi := (case cp of None \<Rightarrow> genesis_poi | Some c \<Rightarrow> pr_hash c)\<rparr>)"

lemma make_runtime_fresh: "make_subgraph_runtime db sg mapping depth = Inr rt \<Longrightarrow> fresh_runtime db depth rt"
  by (auto simp: make_subgraph_runtime_def fresh_runtime_def reseed_prior_poi_def with_finality_depth_def
      split: sum.splits option.splits)

lemma try_map_fresh:
  assumes "try_map (deployment_runtime ld db depth) deps = Inr rts"
  shows "\<forall>rt \<in> set rts. fresh_runtime db depth rt"
proof -
  have "list_all2 (\<lambda>d. fresh_runtime db depth) deps rts"
    using assms unfolding try_map_Inr
    by (rule list_all2_mono) (auto simp: deployment_runtime_def attempt_Inr dest: make_runtime_fresh)
  then show ?thesis by (induction rule: list_all2_induct) auto
qed

text \<open>C28: a reload makes the set of runtimes that of the registry. An error, or a registry without active
  deployments, leaves the runtimes as they are. Otherwise there is afterwards one runtime for each
  active deployment and none else; a runtime whose subgraph stays is untouched, whatever its deployment now says,
  every other one is new, starting with no blocks from its subgraph's latest checkpoint; and the counts
  reported are those of the subgraphs added and removed.\<close>

theorem reconcile_exact:
  assumes "store_ok db" "distinct (map rt_subgraph rts)"
    and "reconcile_subgraph_runtimes ld db depth rts = (r, rts')"
  shows "case r of
      Inl e \<Rightarrow> rts' = rts
    | Inr delta \<Rightarrow>
        if active_subgraphs db = {} then rts' = rts \<and> delta = \<lparr>rd_added = 0, rd_removed = 0\<rparr>
        else rt_subgraph ` set rts' = active_subgraphs db \<and> distinct (map rt_subgraph rts') \<and>
          (\<forall>rt \<in> set rts. rt_subgraph rt \<in> active_subgraphs db \<longrightarrow> rt \<in> set rts') \<and>
          (\<forall>rt \<in> set rts'. rt \<notin> set rts \<longrightarrow> rt_subgraph rt \<notin> rt_subgraph ` set rts \<and> fresh_runtime db depth rt) \<and>
          rd_added delta = card (active_subgraphs db - rt_subgraph ` set rts) \<and>
          rd_removed delta = card (rt_subgraph ` set rts - active_subgraphs db)"
proof (cases r)
  case (Inl e)
  then show ?thesis
    using assms(3) by (auto simp: reconcile_subgraph_runtimes_def Let_def split: sum.splits if_splits)
next
  case (Inr delta)
  let ?E = "rt_subgraph ` set rts" and ?D = "active_subgraphs db"
  obtain deps where deps: "list_subgraph_deployments db = Inr deps"
    using assms(3) Inr by (auto simp: reconcile_subgraph_runtimes_def split: sum.splits)
  have D: "sd_subgraph ` set deps = ?D" "distinct (map sd_subgraph deps)"
    using listed_deployments [OF deps] assms(1) by (simp_all add: store_ok_def ledger_tables_ok_def)
  show ?thesis
  proof (cases "deps = []")
    case True
    then show ?thesis using assms(3) Inr deps D by (auto simp: reconcile_subgraph_runtimes_def)
  next
    case False
    let ?new = "filter (\<lambda>d. sd_subgraph d \<notin> ?E) deps" and ?kept = "filter (\<lambda>r. rt_subgraph r \<in> ?D) rts"
    obtain added where added: "try_map (deployment_runtime ld db depth) ?new = Inr added"
        "delta = \<lparr>rd_added = length added, rd_removed = length rts - length ?kept\<rparr>" "rts' = ?kept @ added"
      using assms(3) Inr deps False D(1)
      by (auto simp: reconcile_subgraph_runtimes_def Let_def split: sum.splits)
    have names: "map rt_subgraph added = map sd_subgraph ?new"
      using try_map_runtimes [OF added(1)] by blast
    have set_added: "rt_subgraph ` set added = ?D - ?E"
      using arg_cong [OF names, of set] image_filter_set [of sd_subgraph "- ?E" deps] D(1) by auto
    have set_kept: "rt_subgraph ` set ?kept = ?E \<inter> ?D"
      by (rule image_filter_set)
    have d: "distinct (map rt_subgraph added)" "distinct (map rt_subgraph ?kept)"
      unfolding names using D(2) assms(2) by (simp_all add: distinct_map_filter)
    have "length added = card (?D - ?E)"
      using distinct_card [OF d(1)] set_added by simp
    moreover have "length rts - length ?kept = card (?E - ?D)"
    proof -
      have "length rts - length ?kept = length (filter (\<lambda>r. rt_subgraph r \<notin> ?D) rts)"
        using sum_length_filter_compl [of "\<lambda>r. rt_subgraph r \<in> ?D" rts] by simp
      moreover have "card (set (map rt_subgraph (filter (\<lambda>r. rt_subgraph r \<in> - ?D) rts))) =
          length (filter (\<lambda>r. rt_subgraph r \<in> - ?D) rts)"
        using distinct_card [OF distinct_map_filter [OF assms(2), of "\<lambda>r. rt_subgraph r \<in> - ?D"]] by simp
      ultimately show ?thesis
        using image_filter_set [of rt_subgraph "- ?D" rts] by (simp add: Diff_eq)
    qed
    moreover have "rt_subgraph ` set rts' = ?D"
      using set_added set_kept by (auto simp: added(3) image_Un)
    moreover have "distinct (map rt_subgraph rts')"
      using d set_added set_kept by (auto simp: added(3))
    moreover have "rt_subgraph rt \<notin> ?E \<and> fresh_runtime db depth rt" if "rt \<in> set added" for rt
      using try_map_fresh [OF added(1)] that set_added by blast
    moreover have "?D \<noteq> {}" using False D(1) by auto
    ultimately show ?thesis
      unfolding Inr added(2,3) by auto
  qed
qed

definition deployed :: "string \<Rightarrow> subgraph_deployment" where
  "deployed sg = \<lparr>sd_subgraph = sg, sd_schema_sdl = ''type A'', sd_manifest = JNull, sd_wasm_sha256 = None,
     sd_wasm_bytes = None\<rparr>"

definition idle_runtime :: "string \<Rightarrow> subgraph_runtime" where
  "idle_runtime sg = \<lparr>rt_subgraph = sg, rt_ingestion = with_finality_depth None, rt_mapping = None\<rparr>"

lemma reconcile_exact_witness:
  "\<exists>rt. snd (reconcile_subgraph_runtimes idle_loader
      (upsert_subgraph_deployment (upsert_subgraph_deployment empty_db (deployed ''b'')) (deployed ''c'')) None
      [idle_runtime ''a'', idle_runtime ''b'']) = [idle_runtime ''b'', rt] \<and>
    rt_subgraph rt = ''c''"
proof -
  let ?db = "upsert_subgraph_deployment (upsert_subgraph_deployment empty_db (deployed ''b'')) (deployed ''c'')"
    and ?rts = "[idle_runtime ''a'', idle_runtime ''b'']"
  obtain r rts' where r: "reconcile_subgraph_runtimes idle_loader ?db None ?rts = (r, rts')" by force
  have db: "store_ok ?db" by (intro store_ok_deploy store_ok_empty)
  have active: "active_subgraphs ?db = {''b'', ''c''}" by code_simp
  have "case reconcile_subgraph_runtimes idle_loader ?db None ?rts of (r, rts') \<Rightarrow> \<not> isl r \<and> length rts' = 2 \<and>
      rt_subgraph (rts' ! 0) = ''b'' \<and> rt_subgraph (rts' ! 1) = ''c''"
    by code_simp
  then have "\<not> isl r" "length rts' = 2" "rt_subgraph (rts' ! 0) = ''b''" "rt_subgraph (rts' ! 1) = ''c''"
    by (simp_all add: r)
  moreover from this obtain x y where xy: "rts' = [x, y]" by (auto simp: numeral_2_eq_2 length_Suc_conv)
  moreover have "distinct (map rt_subgraph ?rts)" by (simp add: idle_runtime_def)
  note exact = reconcile_exact [OF db this r]
  ultimately have "idle_runtime ''b'' \<in> set rts'"
    using active by (cases r) (auto simp: idle_runtime_def)
  then have "rts' = [idle_runtime ''b'', y]" "rt_subgraph y = ''c''"
    using xy \<open>rt_subgraph (rts' ! 1) = ''c''\<close> by (auto simp: idle_runtime_def)
  then show ?thesis by (intro exI [of _ y]) (simp add: r)
qed

end
