(* ===== verification/Node_Equiv.thy ===== *)
theory Node_Equiv
  imports Node_Facts
begin

text \<open>
  A change of the virtual chain is the removal of blocks followed by the blocks one at a time: the node does
  not depend on how a notification groups the blocks it adds.
\<close>

section \<open>Steps that do not look at the block maps\<close>

text \<open>The state with other block maps but its own running POI.\<close>

definition with_maps :: "ingestion_state \<Rightarrow> node_state \<Rightarrow> node_state" where
  "with_maps st s = s\<lparr>ns_ingestion := st\<lparr>ing_prior_poi := ing_prior_poi (ns_ingestion s)\<rparr>\<rparr>"

definition frames :: "(node_state, 'a) act \<Rightarrow> bool" where
  "frames m \<longleftrightarrow> (\<forall>st s. m (with_maps st s) = (case m s of (r, s') \<Rightarrow> (r, with_maps st s')))"

named_theorems frames_rules

lemma with_maps_simps [simp]:
  "ns_db (with_maps st s) = ns_db s" "ns_published (with_maps st s) = ns_published s"
  "ing_prior_poi (ns_ingestion (with_maps st s)) = ing_prior_poi (ns_ingestion s)"
  "with_maps st (with_maps st' s) = with_maps st s"
  "with_maps st (s\<lparr>ns_db := db\<rparr>) = (with_maps st s)\<lparr>ns_db := db\<rparr>"
  "with_maps st (s\<lparr>ns_published := p\<rparr>) = (with_maps st s)\<lparr>ns_published := p\<rparr>"
  by (simp_all add: with_maps_def)

lemma with_maps_ingestion [simp]: "with_maps (ns_ingestion (with_maps st q)) s = with_maps st s"
  by (simp add: with_maps_def)

lemma frames_ret [frames_rules]: "frames (ret x)"
  by (simp add: frames_def ret_def)

lemma frames_bind [frames_rules]: "frames m \<Longrightarrow> (\<And>x. frames (f x)) \<Longrightarrow> frames (bind m f)"
  by (simp add: frames_def bind_def split: prod.split sum.split)

lemma frames_andthen [frames_rules]: "frames m \<Longrightarrow> frames n \<Longrightarrow> frames (andthen m n)"
  unfolding andthen_def by (rule frames_bind)

lemma frames_for_each [frames_rules]: "(\<And>x. frames (f x)) \<Longrightarrow> frames (for_each xs f)"
  by (induction xs) (simp_all add: frames_rules)

lemma frames_on_db [frames_rules]: "frames (on_db m)"
  by (simp add: frames_def on_db_def split: prod.split)

lemma frames_if [frames_rules]: "frames m \<Longrightarrow> frames n \<Longrightarrow> frames (if b then m else n)"
  by simp

lemma frames_option [frames_rules]:
  "frames m \<Longrightarrow> (\<And>x. frames (f x)) \<Longrightarrow> frames (case z of None \<Rightarrow> m | Some x \<Rightarrow> f x)"
  by (cases z) simp_all

lemma frames_reseed: "frames (update (\<lambda>s. s\<lparr>ns_ingestion := reseed_prior_poi poi (ns_ingestion s)\<rparr>))"
  by (simp add: frames_def update_def with_maps_def reseed_prior_poi_def)

lemma frames_publish [frames_rules]: "frames (publish_hit_to_stream hub b hit)"
  by (simp add: frames_def publish_hit_to_stream_def Let_def update_def ret_def)

lemma frames_persist_poi [frames_rules]: "frames (persist_poi env sg mapped b dispatched)"
  by (simp add: frames_def persist_poi_def with_maps_def reseed_prior_poi_def split: sum.split)

lemma frames_persist_hit [frames_rules]: "frames (persist_hit env sg mapped hub b hit)"
  unfolding persist_hit_def Let_def by (intro frames_rules)

lemma frames_persist_block [frames_rules]: "frames (persist_block env sg mapping hub b)"
  unfolding persist_block_def persist_hits_def Let_def by (intro frames_rules)

lemma frames_persist_unwinds [frames_rules]: "frames (persist_unwinds sg mapped us)"
  unfolding persist_unwinds_def by (intro frames_rules frames_reseed)

lemma framed: "frames m \<Longrightarrow> m s = (r, s') \<Longrightarrow> m (with_maps st s) = (r, with_maps st s')"
  by (simp add: frames_def)

section \<open>One block at a time\<close>

text \<open>Notifications one after the other: how many blocks they committed.\<close>

fun persist_all ::
  "node_env \<Rightarrow> string \<Rightarrow> loaded_mapping option \<Rightarrow> bool \<Rightarrow> chain_notification list \<Rightarrow> (node_state, nat) act" where
  "persist_all env sg mapping hub [] = ret 0"
| "persist_all env sg mapping hub (n # ns) =
     bind (apply_and_persist_notification env sg mapping hub n) (\<lambda>out.
       bind (persist_all env sg mapping hub ns) (\<lambda>k. ret (no_committed out + k)))"

lemma apply_block_prior:
  "apply_block (st\<lparr>ing_prior_poi := p\<rparr>) b = (case apply_block st b of (st', t) \<Rightarrow> (st'\<lparr>ing_prior_poi := p\<rparr>, t))"
  by (simp add: apply_block_def derived_finalized_cutoff_def Let_def split: option.split prod.split)

lemma apply_block_quiet: "apply_block st b = (st', t) \<Longrightarrow> tr_unwinds t = [] \<and> tr_recovery t = None"
  by (auto simp: apply_block_def no_writes_def Let_def split: option.splits prod.splits if_splits)

lemma for_each_append: "for_each (xs @ ys) f = andthen (for_each xs f) (for_each ys f)"
  by (induction xs) (auto simp: andthen_def bind_def ret_def fun_eq_iff split: prod.split sum.split)

lemma block_added_step:
  assumes "conv_of env b = Returns block" "apply_block st block = (st1, t1)" "with_maps st s = s"
  shows "apply_and_persist_notification env sg mapping hub (BlockAdded b) s =
    (case for_each (tr_writes t1) (persist_block env sg mapping hub) (with_maps st1 s) of
       (Inl e, q) \<Rightarrow> (Inl e, q)
     | (Inr _, q) \<Rightarrow> (Inr \<lparr>no_recovery = None, no_committed = length (tr_writes t1)\<rparr>, q))"
proof -
  have "ns_ingestion s = st\<lparr>ing_prior_poi := ing_prior_poi (ns_ingestion s)\<rparr>"
    using arg_cong [OF assms(3), of ns_ingestion] by (simp add: with_maps_def)
  then have "apply_block (ns_ingestion s) block = (st1\<lparr>ing_prior_poi := ing_prior_poi (ns_ingestion s)\<rparr>, t1)"
    using apply_block_prior [where st = st and p = "ing_prior_poi (ns_ingestion s)" and b = block] assms(2) by simp
  then have "ingest env (BlockAdded b) s = (Inr t1, with_maps st1 s)"
    using assms(1) by (simp add: ingest_def with_maps_def)
  then show ?thesis
    using apply_block_quiet [OF assms(2)]
    by (simp add: apply_and_persist_notification_def andthen_def bind_def ret_def persist_unwinds_def split: prod.split sum.split)
qed

lemma added_one_by_one:
  assumes "apply_added (conv_of env) bs (st, t) = Returns (st', t')" "with_maps st s = s"
  shows "\<exists>ws s2. tr_writes t' = tr_writes t @ ws \<and> tr_unwinds t' = tr_unwinds t \<and> tr_recovery t' = tr_recovery t \<and>
    (case for_each ws (persist_block env sg mapping hub) (with_maps st' s) of
       (r, s') \<Rightarrow> persist_all env sg mapping hub (map BlockAdded bs) s = (map_sum id (\<lambda>_. length ws) r, s2) \<and>
         s' = with_maps st' s2 \<and> (isl r \<or> s2 = s'))"
  using assms
proof (induction bs arbitrary: st t s)
  case Nil
  then show ?case by (intro exI [of _ "[]"] exI [of _ s]) (auto simp: ret_def)
next
  case (Cons b bs)
  obtain block where b: "conv_of env b = Returns block" using Cons.prems(1) by (auto simp: run_bind_Returns_iff)
  obtain st1 t1 where b1: "apply_block st block = (st1, t1)" by force
  let ?pb = "persist_block env sg mapping hub"
  let ?t = "t\<lparr>tr_rolled_back := tr_rolled_back t @ tr_rolled_back t1, tr_writes := tr_writes t @ tr_writes t1\<rparr>"
  have rest: "apply_added (conv_of env) bs (st1, ?t) = Returns (st', t')"
    using Cons.prems(1) b b1 by simp
  obtain r0 s0 where zero: "for_each (tr_writes t1) ?pb s = (r0, s0)" by force
  have fr: "frames (for_each ws ?pb)" for ws by (intro frames_rules)
  have one: "for_each (tr_writes t1) ?pb (with_maps st1 s) = (r0, with_maps st1 s0)"
      "for_each (tr_writes t1) ?pb (with_maps st' s) = (r0, with_maps st' s0)"
    using framed [OF fr zero] by simp_all
  obtain ws s2 where ws: "tr_writes t' = tr_writes ?t @ ws" "tr_unwinds t' = tr_unwinds ?t" "tr_recovery t' = tr_recovery ?t"
      "case for_each ws ?pb (with_maps st' (with_maps st1 s0)) of
         (r, s') \<Rightarrow> persist_all env sg mapping hub (map BlockAdded bs) (with_maps st1 s0) = (map_sum id (\<lambda>_. length ws) r, s2) \<and>
           s' = with_maps st' s2 \<and> (isl r \<or> s2 = s')"
    using Cons.IH [OF rest with_maps_simps(4) [where st = st1 and st' = st1 and s = s0]] by (elim exE conjE) (rule that)
  obtain r s' where r: "for_each ws ?pb (with_maps st' s0) = (r, s')" by force
  note step = block_added_step [OF b b1 Cons.prems(2), of sg mapping hub, unfolded one(1)]
  show ?case
  proof (cases r0)
    case (Inl e)
    have "for_each (tr_writes t1 @ ws) ?pb (with_maps st' s) = (Inl e, with_maps st' s0)"
      using one(2) Inl by (simp add: for_each_append andthen_def bind_def)
    moreover have "persist_all env sg mapping hub (map BlockAdded (b # bs)) s = (Inl e, with_maps st1 s0)"
      using step Inl by (simp add: bind_def)
    ultimately show ?thesis
      using ws(1-3) by (intro exI [of _ "tr_writes t1 @ ws"] exI [of _ "with_maps st1 s0"]) simp
  next
    case (Inr u)
    have grouped: "for_each (tr_writes t1 @ ws) ?pb (with_maps st' s) = (r, s')"
      using one(2) Inr r by (simp add: for_each_append andthen_def bind_def)
    note tail = ws(4) [unfolded with_maps_simps(4) r prod.case]
    have "persist_all env sg mapping hub (map BlockAdded (b # bs)) s = (map_sum id (\<lambda>_. length (tr_writes t1 @ ws)) r, s2)"
      using step Inr conjunct1 [OF tail] by (cases r) (simp_all add: bind_def ret_def)
    then have "case for_each (tr_writes t1 @ ws) ?pb (with_maps st' s) of
        (r, s') \<Rightarrow> persist_all env sg mapping hub (map BlockAdded (b # bs)) s =
            (map_sum id (\<lambda>_. length (tr_writes t1 @ ws)) r, s2) \<and> s' = with_maps st' s2 \<and> (isl r \<or> s2 = s')"
      using conjunct2 [OF tail] unfolding grouped prod.case by (rule conjI)
    moreover have "tr_writes t' = tr_writes t @ tr_writes t1 @ ws" "tr_unwinds t' = tr_unwinds t" "tr_recovery t' = tr_recovery t"
      using ws(1-3) by simp_all
    ultimately show ?thesis by (intro exI conjI)
  qed
qed

text \<open>C17: A change of the virtual chain is the removal of blocks followed by the added blocks one at a
  time. Whatever the notification returns, the removal and the single blocks run one after the other return the
  same: the same error, or the sum of the committed blocks. They leave the same store, the same published events
  and the same running POI; when the run succeeds, the whole state is the same. (After an error the grouped
  notification has already ingested the blocks behind the failing one.)\<close>

theorem chain_change_by_steps:
  assumes "apply_notification (conv_of env) (ns_ingestion s) (VirtualChainChanged removed added) \<noteq> Panics"
    and "apply_and_persist_notification env sg mapping hub (VirtualChainChanged removed added) s = (r, s')"
  shows "\<exists>s2. persist_all env sg mapping hub (VirtualChainChanged removed [] # map BlockAdded added) s =
      (map_sum id no_committed r, s2) \<and> s' = with_maps (ns_ingestion s') s2 \<and> (isl r \<or> s2 = s')"
proof -
  obtain rolled st0 where p: "remove_probabilistic_by_hashes removed (ns_ingestion s) = (rolled, st0)" by force
  obtain us st1 where c: "remove_committed_by_hashes removed st0 = (us, st1)" by force
  let ?t = "\<lparr>tr_writes = [], tr_rolled_back = rolled, tr_unwinds = us, tr_recovery = None\<rparr>"
  obtain st' t' where added: "apply_added (conv_of env) added (st1, ?t) = Returns (st', t')"
    using assms(1) p c by (cases "apply_added (conv_of env) added (st1, ?t)") auto
  have prior: "ing_prior_poi st1 = ing_prior_poi (ns_ingestion s)" "ing_prior_poi st' = ing_prior_poi (ns_ingestion s)"
    using p c apply_added_frame [OF added]
    by (auto simp: remove_probabilistic_by_hashes_def remove_committed_by_hashes_def Let_def split: prod.splits)
  have in1: "ingest env (VirtualChainChanged removed []) s = (Inr ?t, with_maps st1 s)"
    using p c prior(1) by (simp add: ingest_def with_maps_def)
  have in2: "ingest env (VirtualChainChanged removed added) s = (Inr t', with_maps st' s)"
    using p c added prior(2) by (simp add: ingest_def with_maps_def)
  obtain r1 s1 where u: "persist_unwinds sg (mapping \<noteq> None) us s = (r1, s1)" by force
  have u2: "persist_unwinds sg (mapping \<noteq> None) us (with_maps st s) = (r1, with_maps st s1)" for st
    by (rule framed [OF frames_persist_unwinds u])
  obtain ws s2 where ws: "tr_writes t' = ws" "tr_unwinds t' = us" "tr_recovery t' = None"
      "case for_each ws (persist_block env sg mapping hub) (with_maps st' (with_maps st1 s1)) of
         (r, s') \<Rightarrow> persist_all env sg mapping hub (map BlockAdded added) (with_maps st1 s1) =
             (map_sum id (\<lambda>_. length ws) r, s2) \<and> s' = with_maps st' s2 \<and> (isl r \<or> s2 = s')"
    using added_one_by_one [OF added with_maps_simps(4) [where st = st1 and st' = st1 and s = s1], of sg mapping hub]
    by (elim exE conjE) (simp add: that)
  note grouped = assms(2) [unfolded apply_and_persist_notification_def bind_def in2 prod.case sum.case andthen_def
      ws(1-3) u2]
  have steps: "persist_all env sg mapping hub (VirtualChainChanged removed [] # map BlockAdded added) s =
      (case r1 of Inl e \<Rightarrow> (Inl e, with_maps st1 s1)
       | Inr _ \<Rightarrow> persist_all env sg mapping hub (map BlockAdded added) (with_maps st1 s1))"
    by (simp add: apply_and_persist_notification_def bind_def ret_def andthen_def in1 u2 del: not_None_eq
        split: prod.split sum.split)
  show ?thesis
  proof (cases r1)
    case (Inl e)
    then show ?thesis using grouped steps by (intro exI [of _ "with_maps st1 s1"]) auto
  next
    case (Inr x)
    obtain r2 q where run: "for_each ws (persist_block env sg mapping hub) (with_maps st' s1) = (r2, q)" by force
    note tail = ws(4) [unfolded with_maps_simps(4) run prod.case]
    have all: "persist_all env sg mapping hub (VirtualChainChanged removed [] # map BlockAdded added) s =
        (map_sum id (\<lambda>_. length ws) r2, s2)"
      using steps Inr conjunct1 [OF tail] by simp
    have out: "r = map_sum id (\<lambda>_. \<lparr>no_recovery = None, no_committed = length ws\<rparr>) r2" "s' = q"
      using grouped by (cases r2; simp add: Inr run ret_def)+
    have "map_sum id no_committed r = map_sum id (\<lambda>_. length ws) r2" "isl r = isl r2"
      using out(1) by (cases r2; simp)+
    moreover have "s' = with_maps (ns_ingestion s') s2"
      using conjunct2 [OF tail] out(2) by (metis with_maps_ingestion)
    ultimately show ?thesis using all conjunct2 [OF tail] out(2) by auto
  qed
qed

definition poi_hashes_ok :: "store_db \<Rightarrow> bool" where
  "poi_hashes_ok db \<longleftrightarrow> list_all (\<lambda>r. length (pr_hash r) = 32) (db_poi db)"

lemma unwind_poi_hashes:
  "poi_hashes_ok db \<Longrightarrow> poi_hashes_ok (snd (unwind_committed_blocks_for_subgraph db sg hs why))"
  by (auto simp: poi_hashes_ok_def list_all_iff unwind_committed_blocks_for_subgraph_def tbl_delete_def Let_def)

lemma latest_poi_succeeds: "poi_hashes_ok db \<Longrightarrow> \<exists>cp. latest_poi_for_subgraph db sg = Inr cp"
  by (auto simp: poi_hashes_ok_def list_all_iff latest_poi_for_subgraph_def dest: max_by_Some split: option.split)

lemma unmapped_unwinds_succeed:
  assumes "poi_hashes_ok (ns_db s)"
  shows "\<exists>s'. persist_unwinds sg False us s = (Inr (), s')"
proof -
  let ?db = "snd (unwind_committed_blocks_for_subgraph (ns_db s) sg (map bb_hash us) ''virtualChainChanged removed_chain_block_hashes'')"
  obtain cp where "latest_poi_for_subgraph ?db sg = Inr cp"
    using latest_poi_succeeds [OF unwind_poi_hashes [OF assms]] by blast
  then show ?thesis
    by (simp add: persist_unwinds_def ret_def andthen_def bind_def on_db_def update_def query_def)
qed

lemma unmapped_commits:
  assumes "apply_notification (conv_of env) (ns_ingestion s) n = Returns (st, t)"
    and "\<forall>b \<in> set (tr_writes t). bb_bytes b \<noteq> []" "distinct (map bb_daa (tr_writes t))" "poi_hashes_ok (ns_db s)"
  shows "\<exists>s'. apply_and_persist_notification env sg None hub n s =
    (Inr \<lparr>no_recovery = tr_recovery t, no_committed = length (tr_writes t)\<rparr>, s')"
proof -
  obtain s1 where u: "persist_unwinds sg False (tr_unwinds t) (s\<lparr>ns_ingestion := st\<rparr>) = (Inr (), s1)"
    using unmapped_unwinds_succeed [of "s\<lparr>ns_ingestion := st\<rparr>"] assms(4) by auto
  obtain s2 where w: "for_each (tr_writes t) (persist_block env sg None hub) s1 = (Inr (), s2)"
    using unmapped_blocks [OF assms(2,3), of env sg hub s1] by blast
  show ?thesis
    using u w by (simp add: apply_and_persist_notification_def ingest_def assms(1) andthen_def bind_def ret_def)
qed

lemma chain_change_by_steps_witness:
  "\<exists>s2. persist_all sample_env ''main'' None False
      [VirtualChainChanged [''b''] [], BlockAdded (header_block ''c'' 7 True), BlockAdded (header_block ''d'' 8 True)] reorg_node =
        (Inr 2, s2) \<and>
    s2 = snd (apply_and_persist_notification sample_env ''main'' None False
      (VirtualChainChanged [''b''] [header_block ''c'' 7 True, header_block ''d'' 8 True]) reorg_node)"
proof -
  let ?n = "VirtualChainChanged [''b''] [header_block ''c'' 7 True, header_block ''d'' 8 True]"
  have "case apply_notification (conv_of sample_env) (ns_ingestion reorg_node) ?n of Panics \<Rightarrow> False
      | Returns (st, t) \<Rightarrow> length (tr_writes t) = 2 \<and> list_all (\<lambda>b. bb_bytes b \<noteq> []) (tr_writes t) \<and>
          distinct (map bb_daa (tr_writes t))"
    by code_simp
  then obtain st t where ok: "apply_notification (conv_of sample_env) (ns_ingestion reorg_node) ?n = Returns (st, t)"
      "length (tr_writes t) = 2" "\<forall>b \<in> set (tr_writes t). bb_bytes b \<noteq> []" "distinct (map bb_daa (tr_writes t))"
    by (auto simp: list_all_iff split: run.splits)
  have db: "poi_hashes_ok (ns_db reorg_node)" by code_simp
  obtain s' where run: "apply_and_persist_notification sample_env ''main'' None False ?n reorg_node =
      (Inr \<lparr>no_recovery = tr_recovery t, no_committed = 2\<rparr>, s')"
    using unmapped_commits [OF ok(1,3,4) db, of "''main''" False] ok(2) by auto
  have "apply_notification (conv_of sample_env) (ns_ingestion reorg_node) ?n \<noteq> Panics" using ok(1) by simp
  from chain_change_by_steps [OF this run] show ?thesis by (simp add: run)
qed

end
