(* ===== verification/Poi_Ledger.thy ===== *)
theory Poi_Ledger
  imports Runtime_Facts Node_Equiv
begin

text \<open>
  The checkpoints of a whole run: while reorganisations remove the latest committed blocks and blocks are
  committed above the ones that stay, the checkpoints and block rows of a subgraph are those of its committed
  map, they verify, and a restart resumes the chain where the node left it.
\<close>

section \<open>The rows of one subgraph\<close>

definition poi_rows :: "string \<Rightarrow> store_db \<Rightarrow> poi_row list" where
  "poi_rows sg db = filter (\<lambda>r. pr_subgraph r = sg) (db_poi db)"

definition block_rows :: "string \<Rightarrow> store_db \<Rightarrow> committed_record list" where
  "block_rows sg db = filter (\<lambda>r. cr_subgraph r = sg) (db_committed db)"

definition poi_of :: "string \<Rightarrow> bootstrap_block \<Rightarrow> poi_hash \<Rightarrow> poi_row" where
  "poi_of sg b h = \<lparr>pr_subgraph = sg, pr_daa = bb_daa b, pr_hash = h\<rparr>"

definition row_of :: "string \<Rightarrow> bootstrap_block \<Rightarrow> committed_record" where
  "row_of sg b = \<lparr>cr_subgraph = sg, cr_block_hash = bb_hash b, cr_daa = bb_daa b, cr_served_by = bb_served_by b\<rparr>"

definition latest_hash :: "poi_row list \<Rightarrow> poi_hash" where
  "latest_hash rows = (case max_by pr_daa rows of None \<Rightarrow> genesis_poi | Some r \<Rightarrow> pr_hash r)"

text \<open>The rows a run leaves for the committed blocks \<open>bs\<close> with the POI inputs \<open>ins\<close>, above the rows \<open>ps\<close> and
  \<open>cs\<close> it started with.\<close>

definition chain_rows :: "node_env \<Rightarrow> string \<Rightarrow> poi_row list \<Rightarrow> bootstrap_block list \<Rightarrow> u8 list list \<Rightarrow> poi_row list" where
  "chain_rows env sg ps bs ins = ps @ map2 (poi_of sg) bs (poi_chain (env_hash env) (latest_hash ps) ins)"

definition recorded_as ::
  "node_env \<Rightarrow> string \<Rightarrow> poi_row list \<Rightarrow> committed_record list \<Rightarrow> bootstrap_block list \<Rightarrow> u8 list list \<Rightarrow> node_state \<Rightarrow> bool" where
  "recorded_as env sg ps cs bs ins s \<longleftrightarrow>
     poi_rows sg (ns_db s) = chain_rows env sg ps bs ins \<and>
     block_rows sg (ns_db s) = cs @ map (row_of sg) bs \<and>
     ing_prior_poi (ns_ingestion s) = final_poi (env_hash env) (latest_hash ps) ins \<and> length ins = length bs"

text \<open>Blocks a run may have committed above those rows: in score order, each hash once, none known before.\<close>

definition placed :: "poi_row list \<Rightarrow> committed_record list \<Rightarrow> bootstrap_block list \<Rightarrow> bool" where
  "placed ps cs bs \<longleftrightarrow>
     sorted_wrt (<) (map bb_daa bs) \<and> distinct (map bb_hash bs) \<and>
     list_all (\<lambda>b. list_all (\<lambda>r. pr_daa r < bb_daa b) ps \<and> list_all (\<lambda>r. cr_block_hash r \<noteq> bb_hash b) cs) bs"

definition settled :: "poi_row list \<Rightarrow> committed_record list \<Rightarrow> bootstrap_block list \<Rightarrow> bool" where
  "settled ps cs bs \<longleftrightarrow> placed ps cs bs \<and> list_all (\<lambda>b. bb_bytes b \<noteq> []) bs"

lemma placed_append: "placed ps cs (as @ bs) \<Longrightarrow> placed ps cs as"
  by (auto simp: placed_def sorted_wrt_append)

lemma settled_append: "settled ps cs (as @ bs) \<Longrightarrow> settled ps cs as"
  by (auto simp: settled_def placed_append)

lemma poi_chain_append:
  "poi_chain H p (as @ bs) = poi_chain H p as @ poi_chain H (final_poi H p as) bs"
  by (induction "as" arbitrary: p) (simp_all add: final_poi_def)

lemma final_poi_append: "final_poi H p (as @ bs) = final_poi H (final_poi H p as) bs"
  by (simp add: final_poi_def)

lemma chain_rows_append:
  "length is = length as \<Longrightarrow> chain_rows env sg ps (as @ bs) (is @ js) = chain_rows env sg ps as is @
     map2 (poi_of sg) bs (poi_chain (env_hash env) (final_poi (env_hash env) (latest_hash ps) is) js)"
  by (simp add: chain_rows_def poi_chain_append)

lemma chain_rows_snoc:
  "length is = length bs \<Longrightarrow> chain_rows env sg ps (bs @ [b]) (is @ [i]) = chain_rows env sg ps bs is @
     [poi_of sg b (final_poi (env_hash env) (latest_hash ps) (is @ [i]))]"
  by (simp add: chain_rows_append final_poi_snoc)

lemma chain_rows_daa: "length is = length bs \<Longrightarrow> map pr_daa (chain_rows env sg ps bs is) = map pr_daa ps @ map bb_daa bs"
proof -
  have "map pr_daa (map2 (poi_of sg) bs hs) = map bb_daa bs" if "length hs = length bs" for hs
    using that by (induction hs bs rule: list_induct2) (simp_all add: poi_of_def)
  then show "length is = length bs \<Longrightarrow> ?thesis" by (simp add: chain_rows_def)
qed

lemma max_by_snoc: "(\<And>r. r \<in> set t \<Longrightarrow> f r < f m) \<Longrightarrow> max_by f (t @ [m]) = Some m"
  by (induction t) (auto simp: not_le [symmetric])

lemma placed_snoc_below:
  assumes "placed ps cs (bs @ [b])" "r \<in> set (chain_rows env sg ps bs is)" "length is = length bs"
  shows "pr_daa r < bb_daa b"
proof -
  have "pr_daa r \<in> set (map pr_daa ps @ map bb_daa bs)"
    unfolding chain_rows_daa [OF assms(3), of env sg ps, symmetric] using assms(2) by auto
  then show ?thesis using assms(1) by (auto simp: placed_def sorted_wrt_append list_all_iff)
qed

text \<open>The latest checkpoint is the last one of the chain.\<close>

lemma latest_chain_rows:
  assumes "placed ps cs bs" "length is = length bs"
  shows "latest_hash (chain_rows env sg ps bs is) = final_poi (env_hash env) (latest_hash ps) is"
proof (cases bs rule: rev_cases)
  case Nil
  then show ?thesis using assms(2) by (simp add: chain_rows_def final_poi_def)
next
  case (snoc bs1 b)
  then obtain is1 i where "is": "is = is1 @ [i]" "length is1 = length bs1"
    using assms(2) by (cases "is" rule: rev_cases) auto
  have "max_by pr_daa (chain_rows env sg ps bs is) =
      Some (poi_of sg b (final_poi (env_hash env) (latest_hash ps) is))"
    unfolding snoc "is"(1) chain_rows_snoc [OF "is"(2)]
    using placed_snoc_below [OF assms(1) [unfolded snoc] _ "is"(2)] by (intro max_by_snoc) (simp add: poi_of_def)
  then show ?thesis by (simp add: latest_hash_def [of "chain_rows env sg ps bs is"] poi_of_def)
qed

section \<open>Committing above, unwinding from the end\<close>

lemma upsert_new: "\<not> has_key key (key r) t \<Longrightarrow> tbl_upsert key upd r t = t @ [r]"
  by (simp add: tbl_upsert_def)

lemma placed_snoc_fresh:
  "placed ps cs (bs @ [b]) \<Longrightarrow> r \<in> set (cs @ map (row_of sg) bs) \<Longrightarrow> cr_block_hash r \<noteq> bb_hash b"
proof -
  assume "placed ps cs (bs @ [b])" and r: "r \<in> set (cs @ map (row_of sg) bs)"
  then have "\<forall>x \<in> set bs. bb_hash x \<noteq> bb_hash b" "\<forall>q \<in> set cs. cr_block_hash q \<noteq> bb_hash b"
    by (auto simp: placed_def list_all_iff image_iff)
  with r show "cr_block_hash r \<noteq> bb_hash b" by (auto simp: row_of_def)
qed

text \<open>Recording one more block with its checkpoint.\<close>

lemma recorded_snoc:
  assumes "recorded_as env sg ps cs bs is s" "placed ps cs (bs @ [b])"
    and "db_poi (ns_db s') = db_poi (insert_poi_checkpoint (ns_db s)
        (poi_of sg b (env_hash env (ing_prior_poi (ns_ingestion s) @ i))))"
      "db_committed (ns_db s') = db_committed (record_committed_block (ns_db s) (row_of sg b))"
      "ns_ingestion s' = reseed_prior_poi (env_hash env (ing_prior_poi (ns_ingestion s) @ i)) (ns_ingestion s)"
  shows "recorded_as env sg ps cs (bs @ [b]) (is @ [i]) s'"
proof -
  let ?h = "env_hash env (ing_prior_poi (ns_ingestion s) @ i)"
  note rows = assms(1) [unfolded recorded_as_def poi_rows_def block_rows_def]
  have len: "length is = length bs" using rows by blast
  have h: "?h = final_poi (env_hash env) (latest_hash ps) (is @ [i])"
    using rows by (simp add: final_poi_snoc)
  have "\<forall>r \<in> set (db_poi (ns_db s)). pr_subgraph r = sg \<longrightarrow> pr_daa r \<noteq> bb_daa b"
    using placed_snoc_below [OF assms(2) _ len, of _ env sg] unfolding rows [THEN conjunct1, symmetric] by fastforce
  then have "\<not> has_key poi_pk (poi_pk (poi_of sg b ?h)) (db_poi (ns_db s))"
    by (auto simp: has_key_iff poi_pk_def poi_of_def)
  moreover have "\<forall>r \<in> set (db_committed (ns_db s)). cr_subgraph r = sg \<longrightarrow> cr_block_hash r \<noteq> bb_hash b"
    using placed_snoc_fresh [OF assms(2), of _ sg] unfolding rows [THEN conjunct2, THEN conjunct1, symmetric] by simp
  then have "\<not> has_key committed_pk (committed_pk (row_of sg b)) (db_committed (ns_db s))"
    by (auto simp: has_key_iff committed_pk_def row_of_def)
  ultimately show ?thesis
    using rows h unfolding recorded_as_def poi_rows_def block_rows_def chain_rows_snoc [OF len] assms(3-5)
    by (simp add: insert_poi_checkpoint_def record_committed_block_def upsert_new reseed_prior_poi_def)
      (simp add: poi_of_def row_of_def)
qed

lemma commit_above:
  assumes "recorded_as env sg ps cs bs is s" "settled ps cs (bs @ [b])"
  shows "\<exists>s'. persist_block env sg None hub b s = (Inr (), s') \<and> recorded_as env sg ps cs (bs @ [b]) (is @ [bb_bytes b]) s' \<and>
    (\<exists>p. ns_ingestion s' = reseed_prior_poi p (ns_ingestion s))"
proof -
  have "bb_bytes b \<noteq> []" "placed ps cs (bs @ [b])" using assms(2) by (simp_all add: settled_def)
  with unmapped_block [of b env sg hub s] recorded_snoc [OF assms(1)] show ?thesis
    unfolding poi_of_def row_of_def by blast
qed

lemma commit_all_above:
  assumes "recorded_as env sg ps cs bs is s" "settled ps cs (bs @ ws)"
  shows "\<exists>s'. for_each ws (persist_block env sg None hub) s = (Inr (), s') \<and>
    recorded_as env sg ps cs (bs @ ws) (is @ map bb_bytes ws) s' \<and>
    (\<exists>p. ns_ingestion s' = reseed_prior_poi p (ns_ingestion s))"
  using assms
proof (induction ws arbitrary: bs "is" s)
  case Nil
  have "ns_ingestion s = reseed_prior_poi (ing_prior_poi (ns_ingestion s)) (ns_ingestion s)"
    by (simp add: reseed_prior_poi_def)
  then show ?case using Nil by (auto simp: ret_def)
next
  case (Cons b ws)
  have "settled ps cs (bs @ [b])" using settled_append [of ps cs "bs @ [b]" ws] Cons.prems(2) by simp
  from commit_above [OF Cons.prems(1) this, of hub] obtain s1 where
    s1: "persist_block env sg None hub b s = (Inr (), s1)" "recorded_as env sg ps cs (bs @ [b]) (is @ [bb_bytes b]) s1"
      "\<exists>p. ns_ingestion s1 = reseed_prior_poi p (ns_ingestion s)"
    by blast
  from Cons.IH [OF s1(2)] Cons.prems(2) obtain s2 where
    s2: "for_each ws (persist_block env sg None hub) s1 = (Inr (), s2)"
      "recorded_as env sg ps cs (bs @ b # ws) (is @ bb_bytes b # map bb_bytes ws) s2"
      "\<exists>p. ns_ingestion s2 = reseed_prior_poi p (ns_ingestion s1)"
    by auto
  have "\<exists>p. ns_ingestion s2 = reseed_prior_poi p (ns_ingestion s)"
    using s1(3) s2(3) by (auto simp: reseed_prior_poi_def)
  then show ?case using s1(1) s2(1,2) by (intro exI [of _ s2]) (simp add: bind_def)
qed

lemma unwound_rows:
  fixes db sg hs why
  defines "db' \<equiv> snd (unwind_committed_blocks_for_subgraph db sg hs why)"
  shows "poi_rows sg db' = filter (\<lambda>r. pr_daa r \<notin> cr_daa ` set (filter (\<lambda>r. cr_block_hash r \<in> set hs) (block_rows sg db)))
      (poi_rows sg db)"
    "block_rows sg db' = filter (\<lambda>r. cr_block_hash r \<notin> set hs) (block_rows sg db)"
proof -
  have sorted_Nil: "sort_key f xs = [] \<longleftrightarrow> xs = []" for f :: "committed_record \<Rightarrow> int" and xs
    by (metis set_empty set_sort)
  let ?q = "filter (\<lambda>r. cr_subgraph r = sg \<and> cr_block_hash r \<in> set hs) (db_committed db)"
  have q: "filter (\<lambda>r. cr_block_hash r \<in> set hs) (block_rows sg db) = ?q"
    by (simp add: block_rows_def conj_commute)
  show "poi_rows sg db' = filter (\<lambda>r. pr_daa r \<notin> cr_daa ` set (filter (\<lambda>r. cr_block_hash r \<in> set hs) (block_rows sg db)))
      (poi_rows sg db)"
    unfolding q by (auto simp: sorted_Nil db'_def unwind_committed_blocks_for_subgraph_def Let_def poi_rows_def tbl_delete_def
        filter_empty_conv intro!: filter_cong)
  show "block_rows sg db' = filter (\<lambda>r. cr_block_hash r \<notin> set hs) (block_rows sg db)"
    by (auto simp: sorted_Nil db'_def unwind_committed_blocks_for_subgraph_def Let_def block_rows_def tbl_delete_def
        filter_empty_conv intro!: filter_cong)
qed

lemma chain_rows_hash32:
  assumes "\<forall>r \<in> set ps. length (pr_hash r) = 32" "hash32 env" "length is = length bs"
  shows "\<forall>r \<in> set (chain_rows env sg ps bs is). length (pr_hash r) = 32"
proof -
  have "\<forall>r \<in> set (map2 (poi_of sg) bs (poi_chain (env_hash env) p is)). length (pr_hash r) = 32" for p
    using assms(3) [symmetric] assms(2)
    by (induction bs "is" arbitrary: p rule: list_induct2) (simp_all add: poi_of_def hash32_def)
  then show ?thesis using assms(1) unfolding chain_rows_def set_append by blast
qed

lemma latest_poi_rows:
  assumes "\<forall>r \<in> set (poi_rows sg db). length (pr_hash r) = 32"
  shows "\<exists>cp. latest_poi_for_subgraph db sg = Inr cp \<and>
    (case cp of None \<Rightarrow> genesis_poi | Some r \<Rightarrow> pr_hash r) = latest_hash (poi_rows sg db)"
proof (cases "max_by pr_daa (poi_rows sg db)")
  case None
  then show ?thesis by (simp add: latest_poi_for_subgraph_def latest_hash_def poi_rows_def)
next
  case (Some r)
  then show ?thesis
    using assms max_by_Some [OF Some] by (simp add: latest_poi_for_subgraph_def latest_hash_def poi_rows_def)
qed

text \<open>Deleting the rows of the last blocks leaves the chain of those before them.\<close>

lemma unwound_from_end:
  fixes s sg u
  defines "db \<equiv> snd (unwind_committed_blocks_for_subgraph (ns_db s) sg (map bb_hash u)
    ''virtualChainChanged removed_chain_block_hashes'')"
  assumes "recorded_as env sg ps cs (bs @ u) (is @ js) s" "placed ps cs (bs @ u)" "length is = length bs"
    and "\<forall>r \<in> set ps. length (pr_hash r) = 32" "hash32 env"
  shows "poi_rows sg db = chain_rows env sg ps bs is" "block_rows sg db = cs @ map (row_of sg) bs"
    "\<And>db'. poi_rows sg db' = poi_rows sg db \<Longrightarrow> \<exists>cp. latest_poi_for_subgraph db' sg = Inr cp \<and>
      (case cp of None \<Rightarrow> genesis_poi | Some r \<Rightarrow> pr_hash r) = final_poi (env_hash env) (latest_hash ps) is"
proof -
  let ?why = "''virtualChainChanged removed_chain_block_hashes''"
  note ok = assms(3) [unfolded placed_def]
  have fresh: "\<forall>x \<in> set bs. bb_hash x \<notin> bb_hash ` set u" "\<forall>r \<in> set cs. cr_block_hash r \<notin> bb_hash ` set u"
    using ok by (auto simp: list_all_iff)
  have below: "\<forall>x \<in> set bs. bb_daa x \<notin> bb_daa ` set u" "\<forall>r \<in> set ps. pr_daa r \<notin> bb_daa ` set u"
    using ok by (force simp: list_all_iff sorted_wrt_append)+
  note rows = assms(2) [unfolded recorded_as_def]
  have kept: "filter (\<lambda>r. cr_block_hash r \<notin> set (map bb_hash u)) (block_rows sg (ns_db s)) = cs @ map (row_of sg) bs"
    using rows fresh by (auto simp: filter_empty_conv row_of_def intro!: filter_True)
  have "filter (\<lambda>r. cr_block_hash r \<in> set (map bb_hash u)) (block_rows sg (ns_db s)) = map (row_of sg) u"
    using rows fresh by (auto simp: filter_empty_conv row_of_def intro!: filter_True)
  note unwound = unwound_rows [of sg "ns_db s" "map bb_hash u" ?why, folded db_def, unfolded this kept]
  have "\<forall>d \<in> set (map pr_daa (chain_rows env sg ps bs is)). d \<notin> bb_daa ` set u"
    using below unfolding chain_rows_daa [OF assms(4)] by (simp add: ball_Un)
  moreover have "pr_daa r \<in> bb_daa ` set u" if "r \<in> set (map2 (poi_of sg) u hs)" for r hs
    using that by (auto simp: poi_of_def dest: set_zip_leftD)
  ultimately have "filter (\<lambda>r. pr_daa r \<notin> bb_daa ` set u) (chain_rows env sg ps (bs @ u) (is @ js)) = chain_rows env sg ps bs is"
    unfolding chain_rows_append [OF assms(4)] by (simp add: filter_empty_conv filter_True)
  then show poi: "poi_rows sg db = chain_rows env sg ps bs is" and "block_rows sg db = cs @ map (row_of sg) bs"
    using unwound rows by (simp_all add: row_of_def image_image)
  show "\<exists>cp. latest_poi_for_subgraph db' sg = Inr cp \<and>
      (case cp of None \<Rightarrow> genesis_poi | Some r \<Rightarrow> pr_hash r) = final_poi (env_hash env) (latest_hash ps) is"
    if "poi_rows sg db' = poi_rows sg db" for db'
    using latest_poi_rows [of sg db'] chain_rows_hash32 [OF assms(5,6,4), of sg]
      latest_chain_rows [OF placed_append [OF assms(3)] assms(4), of env sg]
    unfolding that poi by simp
qed

lemma unwind_from_end:
  assumes "recorded_as env sg ps cs (bs @ u) (is @ js) s" "placed ps cs (bs @ u)" "length is = length bs"
    and "\<forall>r \<in> set ps. length (pr_hash r) = 32" "hash32 env"
  shows "\<exists>s'. persist_unwinds sg False u s = (Inr (), s') \<and> recorded_as env sg ps cs bs is s' \<and>
    (\<exists>p. ns_ingestion s' = reseed_prior_poi p (ns_ingestion s))"
proof (cases "u = []")
  case True
  have "ns_ingestion s = reseed_prior_poi (ing_prior_poi (ns_ingestion s)) (ns_ingestion s)"
    by (simp add: reseed_prior_poi_def)
  moreover have "js = []" using True assms(1,3) by (simp add: recorded_as_def)
  ultimately show ?thesis using True assms(1) by (auto simp: persist_unwinds_def ret_def)
next
  case False
  let ?db = "snd (unwind_committed_blocks_for_subgraph (ns_db s) sg (map bb_hash u)
    ''virtualChainChanged removed_chain_block_hashes'')"
  note unwound = unwound_from_end [OF assms]
  obtain cp where cp: "latest_poi_for_subgraph ?db sg = Inr cp"
      "(case cp of None \<Rightarrow> genesis_poi | Some r \<Rightarrow> pr_hash r) = final_poi (env_hash env) (latest_hash ps) is"
    using unwound(3) [OF refl] by blast
  then have "recorded_as env sg ps cs bs is (s\<lparr>ns_db := ?db, ns_ingestion := reseed_prior_poi
      (case cp of None \<Rightarrow> genesis_poi | Some r \<Rightarrow> pr_hash r) (ns_ingestion s)\<rparr>)"
    using unwound(1,2) assms(3) by (simp add: recorded_as_def reseed_prior_poi_def)
  then show ?thesis
    using False cp(1) by (auto simp: persist_unwinds_def andthen_def bind_def on_db_def update_def query_def ret_def)
qed

section \<open>A whole run\<close>

text \<open>The committed blocks after a transition that unwinds from the end, and a run of such transitions.\<close>

fun tail_log :: "(bootstrap_block list \<Rightarrow> bool) \<Rightarrow> bootstrap_block list \<Rightarrow> ingestion_transition list \<Rightarrow> bool" where
  "tail_log ok bs [] \<longleftrightarrow> True"
| "tail_log ok bs (t # ts) \<longleftrightarrow>
     (let kept = take (length bs - length (tr_unwinds t)) bs in
      bs = kept @ tr_unwinds t \<and> ok (kept @ tr_writes t) \<and> tail_log ok (kept @ tr_writes t) ts)"

definition by_score :: "bootstrap_block list \<Rightarrow> block_map" where
  "by_score bs = map (\<lambda>b. (bb_daa b, b)) bs"

lemma by_score_simps [simp]:
  "by_score [] = []" "by_score (b # bs) = (bb_daa b, b) # by_score bs" "by_score (as @ bs) = by_score as @ by_score bs"
  "map snd (by_score bs) = bs" "map fst (by_score bs) = map bb_daa bs" "fst ` set (by_score bs) = bb_daa ` set bs"
  by (simp_all add: by_score_def comp_def image_image)

lemma by_score_keyed: "keyed m \<Longrightarrow> m = by_score (map snd m)"
  by (induction m) (auto simp: keyed_def)

lemma unwind_all_suffix:
  "sorted_wrt (<) (map bb_daa (bs @ u)) \<Longrightarrow> unwind_all u (by_score (bs @ u)) = Some (by_score bs)"
proof (induction u)
  case (Cons b u)
  have keep: "filter (\<lambda>e. fst e \<noteq> bb_daa b) (by_score xs) = by_score xs" if "bb_daa b \<notin> bb_daa ` set xs" for xs
    using that by (auto simp: by_score_def intro!: filter_True)
  have new: "bb_daa b \<notin> bb_daa ` set bs" "bb_daa b \<notin> bb_daa ` set u"
    using Cons.prems by (force simp: sorted_wrt_append)+
  then have "map_of (by_score (bs @ b # u)) (bb_daa b) = Some b"
    by (auto simp: map_add_def by_score_def dest!: map_of_SomeD split: option.split)
  moreover have "bt_remove (bb_daa b) (by_score (bs @ b # u)) = by_score (bs @ u)"
    using new keep by (simp add: bt_remove_def)
  ultimately show ?case
    using Cons by (simp add: sorted_wrt_append)
qed simp

lemma bt_insert_above: "\<forall>e \<in> set m. fst e < k \<Longrightarrow> bt_insert k v m = m @ [(k, v)]"
  by (induction k v m rule: bt_insert.induct) auto

lemma write_all_above:
  "sorted_wrt (<) (map bb_daa (bs @ ws)) \<Longrightarrow> write_all ws (by_score bs) = Some (by_score (bs @ ws))"
proof (induction ws arbitrary: bs)
  case (Cons b ws)
  have below: "\<forall>e \<in> set (by_score bs). fst e < bb_daa b"
    using Cons.prems by (auto simp: sorted_wrt_append by_score_def)
  then have "map_of (by_score bs) (bb_daa b) = None"
    by (auto simp: map_of_None_keys by_score_def)
  then show ?case
    using Cons.IH [of "bs @ [b]"] Cons.prems bt_insert_above [OF below] by simp
qed simp

lemma ledger_step_tail:
  assumes "ledger_step t (by_score (bs @ tr_unwinds t)) = Some m" "sorted_wrt (<) (map bb_daa (bs @ tr_unwinds t))"
    "sorted_wrt (<) (map bb_daa (bs @ tr_writes t))"
  shows "m = by_score (bs @ tr_writes t)"
  using assms(1) unwind_all_suffix [OF assms(2)] write_all_above [OF assms(3)] by (simp add: ledger_step_def)

lemma apply_block_reseed:
  "apply_block (reseed_prior_poi p st) b = (case apply_block st b of (st', t) \<Rightarrow> (reseed_prior_poi p st', t))"
  unfolding reseed_prior_poi_def by (rule apply_block_prior)

lemma apply_added_reseed:
  "apply_added conv bs (reseed_prior_poi p st, t) =
    run_map (\<lambda>(st', t). (reseed_prior_poi p st', t)) (apply_added conv bs (st, t))"
proof (induction bs arbitrary: st t)
  case (Cons b bs)
  then show ?case
    by (cases "conv b") (simp_all add: apply_block_reseed split: prod.split)
qed simp

lemma apply_notification_reseed:
  "apply_notification conv (reseed_prior_poi p st) n =
    run_map (\<lambda>(st', t). (reseed_prior_poi p st', t)) (apply_notification conv st n)"
proof (cases n)
  case (BlockAdded b)
  then show ?thesis by (cases "conv b") (simp_all add: apply_block_reseed)
next
  case (VirtualChainChanged removed added)
  have "remove_probabilistic_by_hashes removed (reseed_prior_poi p st) =
      (fst (remove_probabilistic_by_hashes removed st), reseed_prior_poi p (snd (remove_probabilistic_by_hashes removed st)))"
    "remove_committed_by_hashes removed (reseed_prior_poi p st') =
      (fst (remove_committed_by_hashes removed st'), reseed_prior_poi p (snd (remove_committed_by_hashes removed st')))" for st'
    by (simp_all add: remove_probabilistic_by_hashes_def remove_committed_by_hashes_def reseed_prior_poi_def Let_def split: prod.split)
  then show ?thesis
    by (simp add: VirtualChainChanged Let_def apply_added_reseed split: prod.split)
next
  case (RecoveryRequired lo hi reason)
  then show ?thesis
    by (simp add: remove_probabilistic_in_range_def reseed_prior_poi_def Let_def split: prod.split)
qed

lemma notification_recorded:
  assumes n: "apply_notification (conv_of env) (ns_ingestion s) n = Returns (st, t)" and ok: "ing_ok (ns_ingestion s)"
    and bs: "map snd (ing_committed (ns_ingestion s)) = kept @ tr_unwinds t"
    and rec: "recorded_as env sg ps cs (kept @ tr_unwinds t) (map bb_bytes (kept @ tr_unwinds t)) s"
    and settled: "settled ps cs (kept @ tr_unwinds t)" "settled ps cs (kept @ tr_writes t)"
    and hashes: "\<forall>r \<in> set ps. length (pr_hash r) = 32" "hash32 env"
  shows "\<exists>s' p. apply_and_persist_notification env sg None hub n s =
      (Inr \<lparr>no_recovery = tr_recovery t, no_committed = length (tr_writes t)\<rparr>, s') \<and>
    recorded_as env sg ps cs (kept @ tr_writes t) (map bb_bytes (kept @ tr_writes t)) s' \<and> ns_ingestion s' = reseed_prior_poi p st \<and>
    ing_ok st \<and> map snd (ing_committed st) = kept @ tr_writes t"
proof -
  note step = apply_notification_ledger [OF n ok]
  have m: "ing_committed (ns_ingestion s) = by_score (kept @ tr_unwinds t)"
    using by_score_keyed [of "ing_committed (ns_ingestion s)"] ok bs by (simp add: ing_ok_def)
  have "ing_committed st = by_score (kept @ tr_writes t)"
    using step [THEN conjunct2] settled unfolding m settled_def placed_def by (blast intro: ledger_step_tail)
  then have committed: "map snd (ing_committed st) = kept @ tr_writes t" by simp
  have "recorded_as env sg ps cs (kept @ tr_unwinds t) (map bb_bytes kept @ map bb_bytes (tr_unwinds t)) (s\<lparr>ns_ingestion := st\<rparr>)"
    using rec apply_notification_frame [OF n] by (simp add: recorded_as_def)
  from unwind_from_end [OF this settled(1) [unfolded settled_def, THEN conjunct1] length_map hashes] obtain s1 p1 where
    s1: "persist_unwinds sg False (tr_unwinds t) (s\<lparr>ns_ingestion := st\<rparr>) = (Inr (), s1)"
      "recorded_as env sg ps cs kept (map bb_bytes kept) s1" "ns_ingestion s1 = reseed_prior_poi p1 st"
    by auto
  from commit_all_above [OF s1(2) settled(2), of hub] obtain s2 p2 where
    s2: "for_each (tr_writes t) (persist_block env sg None hub) s1 = (Inr (), s2)"
      "recorded_as env sg ps cs (kept @ tr_writes t) (map bb_bytes (kept @ tr_writes t)) s2" "ns_ingestion s2 = reseed_prior_poi p2 (ns_ingestion s1)"
    by auto
  have "ns_ingestion s2 = reseed_prior_poi p2 st" using s1(3) s2(3) by (simp add: reseed_prior_poi_def)
  moreover have "apply_and_persist_notification env sg None hub n s =
      (Inr \<lparr>no_recovery = tr_recovery t, no_committed = length (tr_writes t)\<rparr>, s2)"
    using s1(1) s2(1) by (simp add: apply_and_persist_notification_def ingest_def n andthen_def bind_def ret_def)
  ultimately show ?thesis using s2(2) step committed by blast
qed

text \<open>A node with one runtime is the state of that runtime.\<close>

definition single_node :: "subgraph_runtime \<Rightarrow> node_state \<Rightarrow> node" where
  "single_node rt s = \<lparr>nd_db = ns_db s, nd_runtimes = [rt\<lparr>rt_ingestion := ns_ingestion s\<rparr>], nd_published = ns_published s\<rparr>"

lemma fan_out_single:
  "apply_and_persist_notification env (rt_subgraph rt) (rt_mapping rt) hub n s = (Inr out, s') \<Longrightarrow>
    fan_out_notification env hub n (single_node rt s) = (Inr out, single_node rt s')"
  by (cases s) (simp add: fan_out_notification_def single_node_def attempt_def ok_or_def)

lemma run_recorded:
  assumes "run_notifications (conv_of env) st ns = Returns (st', ts)" "ing_ok st" "ns_ingestion s = reseed_prior_poi p st"
    and "recorded_as env sg ps cs bs (map bb_bytes bs) s" "map snd (ing_committed st) = bs" "settled ps cs bs"
    and "tail_log (settled ps cs) bs ts"
    and hashes: "\<forall>r \<in> set ps. length (pr_hash r) = 32" "hash32 env"
    and rt: "rt_subgraph rt = sg" "rt_mapping rt = None"
  shows "\<exists>s' p'. fan_out_all env hub ns (single_node rt s) = (Inr (), single_node rt s') \<and>
    recorded_as env sg ps cs (map snd (ing_committed st')) (map bb_bytes (map snd (ing_committed st'))) s' \<and> settled ps cs (map snd (ing_committed st')) \<and>
    ns_ingestion s' = reseed_prior_poi p' st'"
  using assms(1-7)
proof (induction ns arbitrary: st ts s p bs)
  case Nil
  then show ?case by auto
next
  case (Cons n ns)
  obtain st1 t ts1 where n: "apply_notification (conv_of env) st n = Returns (st1, t)"
      "run_notifications (conv_of env) st1 ns = Returns (st', ts1)" "ts = t # ts1"
    using Cons.prems(1) by (auto simp: run_bind_Returns_iff run_map_Returns_iff)
  define kept where "kept = take (length bs - length (tr_unwinds t)) bs"
  have tail: "bs = kept @ tr_unwinds t" "settled ps cs (kept @ tr_writes t)" "tail_log (settled ps cs) (kept @ tr_writes t) ts1"
    using Cons.prems(7) unfolding n(3) tail_log.simps Let_def kept_def by blast+
  have n': "apply_notification (conv_of env) (ns_ingestion s) n = Returns (reseed_prior_poi p st1, t)"
    by (simp add: Cons.prems(3) apply_notification_reseed n(1))
  have ok: "ing_ok (ns_ingestion s)" "map snd (ing_committed (ns_ingestion s)) = kept @ tr_unwinds t"
    using Cons.prems(2,5) tail(1) by (simp_all add: Cons.prems(3) reseed_prior_poi_def ing_ok_def)
  from notification_recorded [OF n' ok _ _ tail(2) hashes, of sg hub] obtain s1 q where
    s1: "apply_and_persist_notification env sg None hub n s =
        (Inr \<lparr>no_recovery = tr_recovery t, no_committed = length (tr_writes t)\<rparr>, s1)"
      "recorded_as env sg ps cs (kept @ tr_writes t) (map bb_bytes (kept @ tr_writes t)) s1" "ns_ingestion s1 = reseed_prior_poi q (reseed_prior_poi p st1)"
      "ing_ok (reseed_prior_poi p st1)" "map snd (ing_committed (reseed_prior_poi p st1)) = kept @ tr_writes t"
    using Cons.prems(4,6) unfolding tail(1) by blast
  have st1: "ns_ingestion s1 = reseed_prior_poi q st1" "ing_ok st1" "map snd (ing_committed st1) = kept @ tr_writes t"
    using s1(3-5) by (simp_all add: reseed_prior_poi_def ing_ok_def)
  have "fan_out_notification env hub n (single_node rt s) =
      (Inr \<lparr>no_recovery = tr_recovery t, no_committed = length (tr_writes t)\<rparr>, single_node rt s1)"
    using s1(1) by (intro fan_out_single) (simp add: rt)
  with Cons.IH [OF n(2) st1(2,1) s1(2) st1(3) tail(2,3)] show ?case by simp
qed

lemma make_runtime_prior:
  assumes "\<forall>r \<in> set (poi_rows sg db). length (pr_hash r) = 32"
  shows "make_subgraph_runtime db sg m depth = Inr \<lparr>rt_subgraph = sg,
    rt_ingestion = reseed_prior_poi (latest_hash (poi_rows sg db)) (with_finality_depth depth), rt_mapping = m\<rparr>"
proof -
  obtain cp where cp: "latest_poi_for_subgraph db sg = Inr cp"
      "(case cp of None \<Rightarrow> genesis_poi | Some r \<Rightarrow> pr_hash r) = latest_hash (poi_rows sg db)"
    using latest_poi_rows [OF assms] by blast
  have "reseed_prior_poi genesis_poi (with_finality_depth depth) = with_finality_depth depth"
    by (simp add: reseed_prior_poi_def with_finality_depth_def)
  then show ?thesis using cp by (cases cp) (simp_all add: make_subgraph_runtime_def)
qed

lemma verify_chain_rows:
  assumes "settled ps cs bs"
  shows "verify_from (env_hash env) 0 (latest_hash ps)
      (published (map bb_bytes bs) (map pr_hash (drop (length ps) (chain_rows env sg ps bs (map bb_bytes bs))))) =
    Inr (Valid (final_poi (env_hash env) (latest_hash ps) (map bb_bytes bs)))"
proof -
  have hashes: "map pr_hash (map2 (poi_of sg) bs hs) = hs" if "length hs = length bs" for hs
    using that by (induction hs bs rule: list_induct2) (simp_all add: poi_of_def)
  have "list_all (\<lambda>b. b \<noteq> []) (map bb_bytes bs)"
    using assms by (simp add: settled_def list_all_iff)
  moreover have "find (\<lambda>i. x ! i \<noteq> x ! i) is = None" for x :: "poi_hash list" and "is"
    by (simp add: find_None_iff)
  moreover have "map pr_hash (drop (length ps) (chain_rows env sg ps bs (map bb_bytes bs))) =
      poi_chain (env_hash env) (latest_hash ps) (map bb_bytes bs)"
    using hashes [of "poi_chain (env_hash env) (latest_hash ps) (map bb_bytes bs)"] by (simp add: chain_rows_def del: map_map)
  ultimately show ?thesis by (simp add: verify_honest)
qed

section \<open>Properties\<close>


definition restarted_db :: store_db where
  "restarted_db = insert_poi_checkpoint empty_db \<lparr>pr_subgraph = ''main'', pr_daa = 3, pr_hash = replicate 32 1\<rparr>"

definition reorg_run :: "chain_notification list" where
  "reorg_run = [BlockAdded (header_block ''a'' 5 True), BlockAdded (header_block ''b'' 7 True),
     VirtualChainChanged [''b''] [header_block ''c'' 8 True]]"


end
