(* ===== verification/Isolation.thy ===== *)
theory Isolation
  imports Poi_Ledger
begin

text \<open>
  Several subgraphs in one node: what a notification does for one of them leaves the rows of the others, but for
  the position of a lineage head they share, so that every subgraph without a mapping has the checkpoints of its own committed blocks whatever the others do.
\<close>

section \<open>The rows of the other subgraphs\<close>

text \<open>The rows with a subgraph's name in every table that has a column for it, and its schema. A lineage head is shared: a
  step of any subgraph on its covenant moves it, so of the heads only the identity is here, and the whole heads apart.\<close>

record subgraph_rows =
  sr_poi :: "poi_row list"
  sr_blocks :: "committed_record list"
  sr_detected :: "detected_record list"
  sr_reorgs :: "reorg_audit list"
  sr_lineage :: "lineage_row list"
  sr_heads :: "(string \<times> string) list"
  sr_deployments :: "deployment_row list"
  sr_schema :: "schema_tables option"

definition heads_of :: "string \<Rightarrow> store_db \<Rightarrow> lineage_head list" where
  "heads_of sg db = filter (\<lambda>h. lh_subgraph h = sg) (db_heads db)"

definition rows_of_subgraph :: "string \<Rightarrow> store_db \<Rightarrow> subgraph_rows" where
  "rows_of_subgraph sg db =
     \<lparr>sr_poi = poi_rows sg db, sr_blocks = block_rows sg db,
      sr_detected = filter (\<lambda>r. dt_subgraph r = sg) (db_detected db),
      sr_reorgs = filter (\<lambda>r. rg_subgraph r = sg) (db_reorgs db),
      sr_lineage = filter (\<lambda>r. lr_subgraph r = sg) (db_rows db),
      sr_heads = map (\<lambda>h. (lh_covenant_id h, lh_genesis_tx h)) (heads_of sg db),
      sr_deployments = filter (\<lambda>r. sd_subgraph r = sg) (db_deployments db),
      sr_schema = map_of (db_schemas db) sg\<rparr>"

lemmas rows_defs = rows_of_subgraph_def poi_rows_def block_rows_def heads_of_def

lemma filter_upsert_other:
  assumes "\<not> P r" "\<And>q. key q = key r \<Longrightarrow> \<not> P q" "\<And>q. key q = key r \<Longrightarrow> \<not> P (upd q r)"
  shows "filter P (tbl_upsert key upd r t) = filter P t"
proof -
  have "filter P (map (\<lambda>q. if key q = key r then upd q r else q) t) = filter P t"
    by (induction t) (use assms(2,3) in auto)
  then show ?thesis using assms(1) by (simp add: tbl_upsert_def)
qed

lemma project_upsert_other:
  assumes "\<not> P r" "\<And>q. P (upd q r) = P q" "\<And>q. f (upd q r) = f q"
  shows "map f (filter P (tbl_upsert key upd r t)) = map f (filter P t)"
proof -
  have "map f (filter P (map (\<lambda>q. if key q = key r then upd q r else q) t)) = map f (filter P t)"
    by (induction t) (use assms(2,3) in auto)
  then show ?thesis using assms(1) by (simp add: tbl_upsert_def)
qed

lemma filter_delete_other: "(\<And>q. P q \<Longrightarrow> \<not> D q) \<Longrightarrow> filter P (tbl_delete D t) = filter P t"
  by (auto simp: tbl_delete_def intro: filter_cong)

lemma rows_execute_schema:
  "execute_schema db sg f = Inr db' \<Longrightarrow> sg \<noteq> other \<Longrightarrow> rows_of_subgraph other db' = rows_of_subgraph other db"
  by (auto simp: execute_schema_def rows_defs split: option.splits)

lemma rows_delete_schema:
  "delete_schema db sg k f = Inr (n, db') \<Longrightarrow> sg \<noteq> other \<Longrightarrow> rows_of_subgraph other db' = rows_of_subgraph other db"
  by (auto simp: delete_schema_def rows_defs split: option.splits)

lemma rows_statements:
  "dt_subgraph d \<noteq> other \<Longrightarrow> rows_of_subgraph other (insert_detected_pattern db d) = rows_of_subgraph other db"
  "rows_of_subgraph other (insert_rpc_block_audit db a) = rows_of_subgraph other db"
  "cr_subgraph c \<noteq> other \<Longrightarrow> rows_of_subgraph other (record_committed_block db c) = rows_of_subgraph other db"
  "pr_subgraph p \<noteq> other \<Longrightarrow> rows_of_subgraph other (insert_poi_checkpoint db p) = rows_of_subgraph other db"
  by (auto simp: rows_defs insert_detected_pattern_def insert_rpc_block_audit_def record_committed_block_def
      insert_poi_checkpoint_def detected_pk_def committed_pk_def poi_pk_def intro!: filter_upsert_other)

lemma heads_unwind_lineage:
  assumes "sg \<noteq> other"
  shows "heads_of other (snd (unwind_covenant_lineage db sg k)) = heads_of other db"
proof -
  let ?D = "\<lambda>rows h. lh_subgraph h = sg \<and> \<not> has_key lr_covenant_id (lh_covenant_id h) rows"
  have move: "lh_subgraph (repoint_head rows sg h) = lh_subgraph h" "lh_subgraph h = other \<Longrightarrow> repoint_head rows sg h = h"
    for rows h
    using assms by (auto simp: repoint_head_def split: option.split)
  have "filter (\<lambda>h. lh_subgraph h = other) (map (repoint_head rows sg) hs) = filter (\<lambda>h. lh_subgraph h = other) hs" for rows hs
    by (induction hs) (auto simp: move)
  moreover have "filter (\<lambda>h. lh_subgraph h = other) (tbl_delete (?D rows) hs) = filter (\<lambda>h. lh_subgraph h = other) hs" for rows hs
    using assms by (intro filter_delete_other) auto
  ultimately show ?thesis by (simp add: heads_of_def unwind_covenant_lineage_def Let_def)
qed

lemma rows_unwinds:
  "sg \<noteq> other \<Longrightarrow> rows_of_subgraph other (snd (unwind_committed_blocks_for_subgraph db sg hs why)) = rows_of_subgraph other db"
  "sg \<noteq> other \<Longrightarrow> rows_of_subgraph other (snd (unwind_covenant_lineage db sg k)) = rows_of_subgraph other db"
proof -
  show "sg \<noteq> other \<Longrightarrow> rows_of_subgraph other (snd (unwind_committed_blocks_for_subgraph db sg hs why)) = rows_of_subgraph other db"
    by (auto simp: rows_defs unwind_committed_blocks_for_subgraph_def Let_def intro!: filter_delete_other)
  show "rows_of_subgraph other (snd (unwind_covenant_lineage db sg k)) = rows_of_subgraph other db" if "sg \<noteq> other"
    using heads_unwind_lineage [OF that, of db k] that
    by (auto simp: rows_of_subgraph_def poi_rows_def block_rows_def unwind_covenant_lineage_def Let_def intro!: filter_delete_other)
qed

lemma rows_lineage:
  "upsert_covenant_lineage_head db h = Inr db' \<Longrightarrow> lh_subgraph h \<noteq> other \<Longrightarrow> rows_of_subgraph other db' = rows_of_subgraph other db"
  "insert_covenant_lineage_row db r = Inr db' \<Longrightarrow> lr_subgraph r \<noteq> other \<Longrightarrow> rows_of_subgraph other db' = rows_of_subgraph other db"
  by (auto simp: rows_defs upsert_covenant_lineage_head_def insert_covenant_lineage_row_def intro!: project_upsert_other
      split: if_splits)

interpretation others: store_steps "\<lambda>db. rows_of_subgraph other db = rs" "\<lambda>sg. sg \<noteq> other" for other rs
  by unfold_locales
    (auto simp: upsert_entity_version_def track_covenant_utxo_def record_covenant_spend_def unwind_entity_versions_def
      unwind_covenant_utxos_def unwind_covenant_spends_def rows_statements rows_unwinds
      dest: rows_execute_schema rows_delete_schema rows_lineage)

text \<open>The whole heads of another subgraph are kept by every statement but the upsert of a head.\<close>

lemma heads_same: "db_heads db' = db_heads db \<Longrightarrow> heads_of other db' = heads_of other db"
  by (simp add: heads_of_def)

lemma heads_schema:
  "execute_schema db sg f = Inr db' \<Longrightarrow> db_heads db' = db_heads db"
  "delete_schema db sg k g = Inr (n, db') \<Longrightarrow> db_heads db' = db_heads db"
  by (auto simp: execute_schema_def delete_schema_def split: option.splits)

interpretation other_heads: quiet_steps "\<lambda>db. heads_of other db = hs" "\<lambda>sg. sg \<noteq> other" for other hs
  by unfold_locales
    (auto simp: upsert_entity_version_def record_covenant_spend_def unwind_entity_versions_def unwind_covenant_utxos_def
      unwind_covenant_spends_def heads_unwind_lineage insert_detected_pattern_def insert_rpc_block_audit_def
      record_committed_block_def insert_poi_checkpoint_def unwind_committed_blocks_for_subgraph_def Let_def
      intro!: heads_same dest: heads_schema)

lemma other_rows:
  assumes "sg \<noteq> other" "pred_option (\<lambda>m. lm_subgraph m = sg) mapping" "hash32 env"
    "apply_and_persist_notification env sg mapping hub n s = (r, s')"
  shows "rows_of_subgraph other (ns_db s') = rows_of_subgraph other (ns_db s)"
proof -
  have "preserves (\<lambda>s. rows_of_subgraph other (ns_db s) = rows_of_subgraph other (ns_db s0))
      (apply_and_persist_notification env sg mapping hub n)" for s0
    by (rule others.notification) (use assms(1-3) in \<open>auto simp: hash32_def\<close>)
  from this [of s] show ?thesis using assms(4) by (simp add: preserves_def) (metis snd_conv)
qed

section \<open>One runtime among several\<close>

definition well_assigned :: "subgraph_runtime list \<Rightarrow> bool" where
  "well_assigned rts \<longleftrightarrow> distinct (map rt_subgraph rts) \<and>
     list_all (\<lambda>rt. pred_option (\<lambda>m. lm_subgraph m = rt_subgraph rt) (rt_mapping rt)) rts"

lemma fan_out_each_ConsE:
  assumes "fan_out_each env hub n (rt # rts) db pub = (Inr r, nd)"
  obtains out s r' nd' where
    "apply_and_persist_notification env (rt_subgraph rt) (rt_mapping rt) hub n
      \<lparr>ns_db = db, ns_ingestion = rt_ingestion rt, ns_published = pub\<rparr> = (Inr out, s)"
    "fan_out_each env hub n rts (ns_db s) (ns_published s) = (Inr r', nd')"
    "nd = nd'\<lparr>nd_runtimes := rt\<lparr>rt_ingestion := ns_ingestion s\<rparr> # nd_runtimes nd'\<rparr>"
proof -
  obtain x s where s: "apply_and_persist_notification env (rt_subgraph rt) (rt_mapping rt) hub n
      \<lparr>ns_db = db, ns_ingestion = rt_ingestion rt, ns_published = pub\<rparr> = (x, s)" by force
  obtain y nd' where rest: "fan_out_each env hub n rts (ns_db s) (ns_published s) = (y, nd')" by force
  show thesis
    using assms s rest that by (cases x; cases y) (auto simp: Let_def)
qed

lemma fan_out_each_frame:
  assumes "hash32 env" "fan_out_each env hub n rts db pub = (Inr r, nd)"
    "other \<notin> rt_subgraph ` set rts" "well_assigned rts"
  shows "rows_of_subgraph other (nd_db nd) = rows_of_subgraph other db"
  using assms(2-4)
proof (induction rts arbitrary: db pub nd r)
  case (Cons rt rts)
  from Cons.prems(1) obtain out s r' nd' where
    s: "apply_and_persist_notification env (rt_subgraph rt) (rt_mapping rt) hub n
      \<lparr>ns_db = db, ns_ingestion = rt_ingestion rt, ns_published = pub\<rparr> = (Inr out, s)" and
    rest: "fan_out_each env hub n rts (ns_db s) (ns_published s) = (Inr r', nd')" and
    nd: "nd = nd'\<lparr>nd_runtimes := rt\<lparr>rt_ingestion := ns_ingestion s\<rparr> # nd_runtimes nd'\<rparr>"
    by (rule fan_out_each_ConsE)
  have "rows_of_subgraph other (ns_db s) = rows_of_subgraph other db"
    using other_rows [OF _ _ assms(1) s, of other] Cons.prems(2,3) by (auto simp: well_assigned_def)
  moreover have "rows_of_subgraph other (nd_db nd') = rows_of_subgraph other (ns_db s)"
    using Cons.IH [OF rest] Cons.prems(2,3) by (auto simp: well_assigned_def)
  ultimately show ?case using nd by simp
qed simp

lemma fan_out_each_own:
  assumes "hash32 env" "fan_out_each env hub n rts db pub = (Inr r, nd)" "well_assigned rts" "rt \<in> set rts"
  shows "\<exists>s out s'. apply_and_persist_notification env (rt_subgraph rt) (rt_mapping rt) hub n s = (Inr out, s') \<and>
    ns_ingestion s = rt_ingestion rt \<and> rows_of_subgraph (rt_subgraph rt) (ns_db s) = rows_of_subgraph (rt_subgraph rt) db \<and>
    rows_of_subgraph (rt_subgraph rt) (nd_db nd) = rows_of_subgraph (rt_subgraph rt) (ns_db s') \<and>
    rt\<lparr>rt_ingestion := ns_ingestion s'\<rparr> \<in> set (nd_runtimes nd)"
  using assms(2-4)
proof (induction rts arbitrary: db pub nd r)
  case (Cons rt1 rts)
  let ?s0 = "\<lparr>ns_db = db, ns_ingestion = rt_ingestion rt1, ns_published = pub\<rparr>"
  from Cons.prems(1) obtain out s r' nd' where
    s: "apply_and_persist_notification env (rt_subgraph rt1) (rt_mapping rt1) hub n ?s0 = (Inr out, s)" and
    rest: "fan_out_each env hub n rts (ns_db s) (ns_published s) = (Inr r', nd')" and
    nd: "nd = nd'\<lparr>nd_runtimes := rt1\<lparr>rt_ingestion := ns_ingestion s\<rparr> # nd_runtimes nd'\<rparr>"
    by (rule fan_out_each_ConsE)
  have ok: "well_assigned rts" "rt_subgraph rt1 \<notin> rt_subgraph ` set rts"
    using Cons.prems(2) by (auto simp: well_assigned_def)
  show ?case
  proof (cases "rt = rt1")
    case True
    have "rows_of_subgraph (rt_subgraph rt1) (nd_db nd) = rows_of_subgraph (rt_subgraph rt1) (ns_db s)"
      using fan_out_each_frame [OF assms(1) rest ok(2,1)] nd by simp
    then show ?thesis
      using s nd True by (intro exI [of _ ?s0] exI [of _ out] exI [of _ s]) simp
  next
    case False
    then have "rt \<in> set rts" "rt_subgraph rt1 \<noteq> rt_subgraph rt" using Cons.prems(3) ok(2) by auto
    moreover have "rows_of_subgraph (rt_subgraph rt) (ns_db s) = rows_of_subgraph (rt_subgraph rt) db"
      using other_rows [OF calculation(2) _ assms(1) s] Cons.prems(2) by (auto simp: well_assigned_def)
    ultimately show ?thesis using Cons.IH [OF rest ok(1)] nd by auto
  qed
qed simp

lemma fan_out_each_assigned:
  "fan_out_each env hub n rts db pub = (Inr r, nd) \<Longrightarrow> well_assigned (nd_runtimes nd) = well_assigned rts"
proof -
  have "fan_out_each env hub n rts db pub = (Inr r, nd) \<Longrightarrow>
      map (\<lambda>rt. (rt_subgraph rt, rt_mapping rt)) (nd_runtimes nd) = map (\<lambda>rt. (rt_subgraph rt, rt_mapping rt)) rts"
  proof (induction rts arbitrary: db pub nd r)
    case (Cons rt rts)
    from Cons.prems obtain out s r' nd' where
      "apply_and_persist_notification env (rt_subgraph rt) (rt_mapping rt) hub n
        \<lparr>ns_db = db, ns_ingestion = rt_ingestion rt, ns_published = pub\<rparr> = (Inr out, s)"
      "fan_out_each env hub n rts (ns_db s) (ns_published s) = (Inr r', nd')"
      "nd = nd'\<lparr>nd_runtimes := rt\<lparr>rt_ingestion := ns_ingestion s\<rparr> # nd_runtimes nd'\<rparr>"
      by (rule fan_out_each_ConsE)
    with Cons.IH show ?case by simp
  qed auto
  moreover have "well_assigned rts \<longleftrightarrow> distinct (map fst (map (\<lambda>rt. (rt_subgraph rt, rt_mapping rt)) rts)) \<and>
      list_all (\<lambda>(sg, mp). pred_option (\<lambda>m. lm_subgraph m = sg) mp) (map (\<lambda>rt. (rt_subgraph rt, rt_mapping rt)) rts)" for rts
    by (simp add: well_assigned_def comp_def list.pred_map)
  ultimately show "fan_out_each env hub n rts db pub = (Inr r, nd) \<Longrightarrow> well_assigned (nd_runtimes nd) = well_assigned rts"
    by (simp del: map_map)
qed

text \<open>What every notification keeps for one runtime is kept through a run of the whole node. The property may
  speak about the notifications still to come.\<close>

lemma fan_out_all_follows:
  assumes env: "hash32 env" and rt: "rt \<in> set (nd_runtimes nd)" "well_assigned (nd_runtimes nd)"
      "rt_subgraph rt = sg" "rt_mapping rt = mp"
    and run: "fan_out_all env hub ns nd = (Inr (), nd')"
    and start: "Inv ns (rows_of_subgraph sg (nd_db nd)) (rt_ingestion rt)"
    and step: "\<And>n ns s out s'. Inv (n # ns) (rows_of_subgraph sg (ns_db s)) (ns_ingestion s) \<Longrightarrow>
      apply_and_persist_notification env sg mp hub n s = (Inr out, s') \<Longrightarrow>
      Inv ns (rows_of_subgraph sg (ns_db s')) (ns_ingestion s')"
  shows "\<exists>rt' \<in> set (nd_runtimes nd'). rt_subgraph rt' = sg \<and> Inv [] (rows_of_subgraph sg (nd_db nd')) (rt_ingestion rt')"
  using rt run start
proof (induction ns arbitrary: rt nd)
  case (Cons n ns)
  obtain rep nd1 where fan: "fan_out_each env hub n (nd_runtimes nd) (nd_db nd) (nd_published nd) = (Inr rep, nd1)"
      "fan_out_all env hub ns nd1 = (Inr (), nd')"
    using Cons.prems(5) by (auto simp: fan_out_notification_def attempt_def split: prod.splits sum.splits)
  from fan_out_each_own [OF env fan(1) Cons.prems(2,1)] obtain s out s' where
    s: "apply_and_persist_notification env sg mp hub n s = (Inr out, s')" "ns_ingestion s = rt_ingestion rt"
      "rows_of_subgraph sg (ns_db s) = rows_of_subgraph sg (nd_db nd)"
      "rows_of_subgraph sg (nd_db nd1) = rows_of_subgraph sg (ns_db s')"
      "rt\<lparr>rt_ingestion := ns_ingestion s'\<rparr> \<in> set (nd_runtimes nd1)"
    unfolding Cons.prems(3,4) by blast
  let ?rt = "rt\<lparr>rt_ingestion := ns_ingestion s'\<rparr>"
  have "Inv ns (rows_of_subgraph sg (nd_db nd1)) (rt_ingestion ?rt)"
    using step [OF _ s(1)] Cons.prems(6) s(2-4) by simp
  moreover have "rt_subgraph ?rt = sg" "rt_mapping ?rt = mp" using Cons.prems(3,4) by simp_all
  moreover have "well_assigned (nd_runtimes nd1)" using fan_out_each_assigned [OF fan(1)] Cons.prems(2) by simp
  ultimately show ?case using Cons.IH [OF s(5) _ _ _ fan(2)] by blast
qed auto

text \<open>A runtime on the way: its ingestion state up to the running POI, the transitions still to come, and what
  holds of its committed blocks, its rows and the running POI.\<close>

definition on_track ::
  "node_env \<Rightarrow> (bootstrap_block list \<Rightarrow> bool) \<Rightarrow> (bootstrap_block list \<Rightarrow> subgraph_rows \<Rightarrow> poi_hash \<Rightarrow> bool) \<Rightarrow> ingestion_state
     \<Rightarrow> chain_notification list \<Rightarrow> subgraph_rows \<Rightarrow> ingestion_state \<Rightarrow> bool" where
  "on_track env ok holds final ns R st \<longleftrightarrow> (\<exists>st0 p ts.
     st = reseed_prior_poi p st0 \<and> ing_ok st0 \<and> run_notifications (conv_of env) st0 ns = Returns (final, ts) \<and>
     (let bs = map snd (ing_committed st0) in ok bs \<and> tail_log ok bs ts \<and> holds bs R (ing_prior_poi st)))"

lemma fan_out_all_tail:
  assumes env: "hash32 env" and rt: "rt \<in> set (nd_runtimes nd)" "well_assigned (nd_runtimes nd)"
      "rt_subgraph rt = sg" "rt_mapping rt = mp"
    and run: "fan_out_all env hub ns nd = (Inr (), nd')"
      "run_notifications (conv_of env) (rt_ingestion rt) ns = Returns (final, ts)" "ing_ok (rt_ingestion rt)"
    and log: "ok (map snd (ing_committed (rt_ingestion rt)))" "tail_log ok (map snd (ing_committed (rt_ingestion rt))) ts"
    and start: "holds (map snd (ing_committed (rt_ingestion rt))) (rows_of_subgraph sg (nd_db nd)) (ing_prior_poi (rt_ingestion rt))"
    and step: "\<And>s n st t kept out s'. apply_notification (conv_of env) (ns_ingestion s) n = Returns (st, t) \<Longrightarrow>
      ing_ok (ns_ingestion s) \<Longrightarrow> map snd (ing_committed (ns_ingestion s)) = kept @ tr_unwinds t \<Longrightarrow>
      holds (kept @ tr_unwinds t) (rows_of_subgraph sg (ns_db s)) (ing_prior_poi (ns_ingestion s)) \<Longrightarrow>
      ok (kept @ tr_unwinds t) \<Longrightarrow> ok (kept @ tr_writes t) \<Longrightarrow>
      apply_and_persist_notification env sg mp hub n s = (Inr out, s') \<Longrightarrow>
      holds (kept @ tr_writes t) (rows_of_subgraph sg (ns_db s')) (ing_prior_poi (ns_ingestion s')) \<and>
      (\<exists>p. ns_ingestion s' = reseed_prior_poi p st) \<and> ing_ok st \<and> map snd (ing_committed st) = kept @ tr_writes t"
  shows "\<exists>rt' \<in> set (nd_runtimes nd'). rt_subgraph rt' = sg \<and>
    holds (map snd (ing_committed final)) (rows_of_subgraph sg (nd_db nd')) (ing_prior_poi (rt_ingestion rt'))"
proof -
  have track: "on_track env ok holds final ns (rows_of_subgraph sg (ns_db s')) (ns_ingestion s')"
    if before: "on_track env ok holds final (n # ns) (rows_of_subgraph sg (ns_db s)) (ns_ingestion s)"
      and out: "apply_and_persist_notification env sg mp hub n s = (Inr out, s')" for n ns s out s'
  proof -
    from before obtain st p ts where st: "ns_ingestion s = reseed_prior_poi p st" "ing_ok st"
        "run_notifications (conv_of env) st (n # ns) = Returns (final, ts)"
      and now: "ok (map snd (ing_committed st))" "tail_log ok (map snd (ing_committed st)) ts"
        "holds (map snd (ing_committed st)) (rows_of_subgraph sg (ns_db s)) (ing_prior_poi (ns_ingestion s))"
      unfolding on_track_def Let_def by blast
    obtain st1 t ts1 where n: "apply_notification (conv_of env) st n = Returns (st1, t)"
        "run_notifications (conv_of env) st1 ns = Returns (final, ts1)" "ts = t # ts1"
      using st(3) by (auto simp: run_bind_Returns_iff run_map_Returns_iff)
    define bs where "bs = map snd (ing_committed st)"
    define kept where "kept = take (length bs - length (tr_unwinds t)) bs"
    have tail: "bs = kept @ tr_unwinds t" "ok (kept @ tr_writes t)" "tail_log ok (kept @ tr_writes t) ts1"
      using now(2) unfolding n(3) tail_log.simps Let_def bs_def kept_def by blast+
    have n': "apply_notification (conv_of env) (ns_ingestion s) n = Returns (reseed_prior_poi p st1, t)"
      by (simp add: st(1) apply_notification_reseed n(1))
    have fine: "ing_ok (ns_ingestion s)" "map snd (ing_committed (ns_ingestion s)) = kept @ tr_unwinds t"
      using st(1,2) tail(1) by (simp_all add: reseed_prior_poi_def ing_ok_def bs_def)
    note before = now(3,1) [folded bs_def, unfolded tail(1)]
    from step [OF n' fine before tail(2) out]
    have after: "holds (kept @ tr_writes t) (rows_of_subgraph sg (ns_db s')) (ing_prior_poi (ns_ingestion s'))"
        "\<exists>q. ns_ingestion s' = reseed_prior_poi q (reseed_prior_poi p st1)"
        "ing_ok (reseed_prior_poi p st1)" "map snd (ing_committed (reseed_prior_poi p st1)) = kept @ tr_writes t"
      by blast+
    then obtain q where "ns_ingestion s' = reseed_prior_poi q st1" "ing_ok st1" "map snd (ing_committed st1) = kept @ tr_writes t"
      by (auto simp: reseed_prior_poi_def ing_ok_def)
    then show ?thesis
      unfolding on_track_def Let_def using after(1) n(2) tail(2,3)
      by (intro exI [of _ st1] exI [of _ q] exI [of _ ts1]) simp
  qed
  have "rt_ingestion rt = reseed_prior_poi (ing_prior_poi (rt_ingestion rt)) (rt_ingestion rt)"
    by (simp add: reseed_prior_poi_def)
  then have "on_track env ok holds final ns (rows_of_subgraph sg (nd_db nd)) (rt_ingestion rt)"
    unfolding on_track_def Let_def using run(2,3) log start by blast
  then have "\<exists>rt' \<in> set (nd_runtimes nd'). rt_subgraph rt' = sg \<and>
      on_track env ok holds final [] (rows_of_subgraph sg (nd_db nd')) (rt_ingestion rt')"
    by (rule fan_out_all_follows [OF env rt run(1)]) (rule track)
  then show ?thesis by (auto simp: on_track_def Let_def)
qed

definition rows_recorded ::
  "node_env \<Rightarrow> string \<Rightarrow> poi_row list \<Rightarrow> committed_record list \<Rightarrow> bootstrap_block list \<Rightarrow> u8 list list
     \<Rightarrow> subgraph_rows \<Rightarrow> poi_hash \<Rightarrow> bool" where
  "rows_recorded env sg ps cs bs ins R p \<longleftrightarrow>
     sr_poi R = chain_rows env sg ps bs ins \<and> sr_blocks R = cs @ map (row_of sg) bs \<and>
     p = final_poi (env_hash env) (latest_hash ps) ins \<and> length ins = length bs"

lemma rows_recorded_node:
  "rows_recorded env sg ps cs bs ins (rows_of_subgraph sg (ns_db s)) (ing_prior_poi (ns_ingestion s)) \<longleftrightarrow>
    recorded_as env sg ps cs bs ins s"
  by (simp add: rows_recorded_def recorded_as_def rows_of_subgraph_def)

section \<open>Properties\<close>

text \<open>C4: subgraphs do not touch each other's rows. Persisting a notification for one subgraph, whatever its
  mapping emits and whether it succeeds or fails half-way, leaves the checkpoints, committed blocks, detected
  patterns, reorg audits, lineage rows, deployments and schema tables of every other subgraph as they were, and the
  covenants and genesis transactions of its lineage heads. The position of such a head is shared: the table has one head for
  a covenant, and a step another subgraph records on it moves the head. But when the subgraph has no mapping, or no block
  it commits has a hit, even after an unwind, the other subgraph's heads are the same, position included.\<close>

theorem subgraph_isolation:
  assumes "hash32 env" "apply_and_persist_notification env sg mapping hub n s = (r, s')"
    and "pred_option (\<lambda>m. lm_subgraph m = sg) mapping" "other \<noteq> sg"
  shows "rows_of_subgraph other (ns_db s') = rows_of_subgraph other (ns_db s) \<and>
    (mapping = None \<or> (\<forall>st t. apply_notification (conv_of env) (ns_ingestion s) n = Returns (st, t) \<longrightarrow>
        (\<forall>b \<in> set (tr_writes t). bb_hits b = [])) \<longrightarrow>
      heads_of other (ns_db s') = heads_of other (ns_db s))"
proof (intro conjI impI)
  assume quiet: "mapping = None \<or> (\<forall>st t. apply_notification (conv_of env) (ns_ingestion s) n = Returns (st, t) \<longrightarrow>
      (\<forall>b \<in> set (tr_writes t). bb_hits b = []))"
  show "heads_of other (ns_db s') = heads_of other (ns_db s)"
    using other_heads.quiet_notification [OF assms(4) [symmetric] _ refl quiet, where hub = hub] assms(1,2) by (simp add: hash32_def)
qed (rule other_rows [OF assms(4) [symmetric] assms(3,1,2)])

text \<open>The exception: a step of another subgraph on the covenant overwrites the position and the count of a head.\<close>

lemma foreign_head_overwritten:
  "(let db = snd (persist_lineage sample_env ''a'' (sample_hit ''x'') (Genesis ''c'') 5 empty_db);
        db' = snd (persist_lineage sample_env ''b'' (sample_hit ''y'') (Transition ''c'' ''x:0'') 9 db)
    in map (\<lambda>h. (lh_current_utxo h, lh_count h)) (heads_of ''a'' db) = [(''x:0'', 1)] \<and>
       map (\<lambda>h. (lh_current_utxo h, lh_count h)) (heads_of ''a'' db') = [(''y:0'', 2)])"
  by code_simp


definition neighbour_db :: store_db where
  "neighbour_db = insert_poi_checkpoint empty_db \<lparr>pr_subgraph = ''other'', pr_daa = 3, pr_hash = replicate 32 1\<rparr>"

definition neighbour_lineage :: store_db where
  "neighbour_lineage = snd (persist_lineage sample_env ''other'' (sample_hit ''x'') (Genesis ''c'') 2 neighbour_db)"

lemma subgraph_isolation_witness:
  "let db = ns_db (snd (apply_and_persist_notification sample_env ''main'' (Some idle_mapping) False
      (BlockAdded (header_block ''a'' 3 True)) \<lparr>ns_db = neighbour_lineage, ns_ingestion = with_finality_depth None, ns_published = []\<rparr>))
   in poi_rows ''other'' db = [\<lparr>pr_subgraph = ''other'', pr_daa = 3, pr_hash = replicate 32 1\<rparr>] \<and>
     map lh_current_utxo (heads_of ''other'' db) = [''x:0'']"
proof -
  let ?s = "\<lparr>ns_db = neighbour_lineage, ns_ingestion = with_finality_depth None, ns_published = []\<rparr>"
  let ?n = "BlockAdded (header_block ''a'' 3 True)"
  have db: "poi_rows ''other'' neighbour_lineage = [\<lparr>pr_subgraph = ''other'', pr_daa = 3, pr_hash = replicate 32 1\<rparr>]"
      "map lh_current_utxo (heads_of ''other'' neighbour_lineage) = [''x:0'']"
    by code_simp+
  have "case apply_notification (conv_of sample_env) (ns_ingestion ?s) ?n of Panics \<Rightarrow> True
      | Returns (st, t) \<Rightarrow> list_all (\<lambda>b. bb_hits b = []) (tr_writes t)"
    by code_simp
  then have quiet: "\<forall>st t. apply_notification (conv_of sample_env) (ns_ingestion ?s) ?n = Returns (st, t) \<longrightarrow>
      (\<forall>b \<in> set (tr_writes t). bb_hits b = [])"
    by (auto simp: list_all_iff)
  have "hash32 sample_env" by (auto simp: hash32_def sample_env_def min_def)
  then show ?thesis
    using subgraph_isolation [of sample_env "''main''" "Some idle_mapping" False ?n ?s _ _ "''other''",
        OF _ surjective_pairing] quiet
    by (simp add: Let_def db rows_of_subgraph_def idle_mapping_def)
qed

definition two_runtimes :: "subgraph_runtime list" where
  "two_runtimes = [\<lparr>rt_subgraph = ''main'', rt_ingestion = with_finality_depth None, rt_mapping = Some idle_mapping\<rparr>,
     \<lparr>rt_subgraph = ''other'', rt_ingestion = reseed_prior_poi (replicate 32 1) (with_finality_depth None), rt_mapping = None\<rparr>]"

lemma two_runtimes_run:
  "case fan_out_all sample_env False [BlockAdded (header_block ''a'' 5 True)]
      \<lparr>nd_db = neighbour_db, nd_runtimes = two_runtimes, nd_published = []\<rparr> of
    (r, nd) \<Rightarrow> (case r of Inl _ \<Rightarrow> False | Inr _ \<Rightarrow> True)"
  by code_simp


end
