(* ===== verification/Gap_Recovery.thy ===== *)
theory Gap_Recovery
  imports Isolation
begin

text \<open>
  Gap recovery through the whole node: the scores the driver announces after a reconnect, the blocks the client
  fetches for them, and the ingestion of every runtime.
\<close>

section \<open>What a runtime knows\<close>

text \<open>A score is covered by a block if it is committed, or if the block itself waits at it.\<close>

definition covered :: "ingestion_state \<Rightarrow> i64 \<times> string \<Rightarrow> bool" where
  "covered st i \<longleftrightarrow> fst i \<in> fst ` set (ing_committed st) \<or> i \<in> block_id ` snd ` set (ing_probabilistic st)"

lemma covered_reseed [simp]: "covered (reseed_prior_poi p st) i \<longleftrightarrow> covered st i"
  by (simp add: covered_def reseed_prior_poi_def)

lemma observed_covered:
  assumes "ing_ok st" "map_of (ing_committed st) (bb_daa b) = None" "i \<in> block_id ` snd ` set (observed st b)"
  shows "covered (fst (apply_block st b)) i"
proof -
  obtain e where e: "e \<in> set (observed st b)" "i = block_id (snd e)" using assms(3) by auto
  show ?thesis
  proof (cases "promotable st b e")
    case True
    then have "bb_daa (snd e) \<in> bb_daa ` set (map snd (filter (promotable st b) (observed st b)))"
      using e(1) by simp
    then show ?thesis
      using assms(1,2) e(2) by (simp add: covered_def apply_block_free Let_def keys_commit block_id_def)
  next
    case False
    have "ing_probabilistic (fst (apply_block st b)) = filter (\<lambda>e. \<not> promotable st b e) (observed st b)"
      using assms(1,2) by (simp add: apply_block_free Let_def)
    with False e show ?thesis unfolding covered_def by (simp del: image_image)
  qed
qed

lemma applied_covered:
  assumes "ing_ok st"
  shows "covered (fst (apply_block st b)) (block_id b)"
proof (cases "map_of (ing_committed st) (bb_daa b)")
  case None
  then show ?thesis using assms by (intro observed_covered) (simp_all add: ids_observed)
next
  case (Some e)
  then show ?thesis by (force simp: covered_def apply_block_committed block_id_def dest: map_of_SomeD)
qed

lemma covered_kept:
  assumes "ing_ok st" "covered st i" "fst i < bb_daa b"
  shows "covered (fst (apply_block st b)) i"
proof (cases "map_of (ing_committed st) (bb_daa b)")
  case None
  show ?thesis
  proof (cases "fst i \<in> fst ` set (ing_committed st)")
    case True
    then show ?thesis using assms(1) None by (simp add: covered_def apply_block_free Let_def keys_commit)
  next
    case False
    then have "i \<in> block_id ` snd ` set (observed st b)"
      using assms by (simp add: covered_def ids_observed)
    then show ?thesis by (rule observed_covered [OF assms(1) None])
  qed
next
  case (Some e)
  then show ?thesis using assms(2) by (simp add: apply_block_committed)
qed

lemma added_covered:
  assumes "apply_added conv bs (st, t) = Returns (st', t')" "ing_ok st" "sorted_wrt (<) (map (\<lambda>b. u64_as_i64 (ib_daa b)) bs)"
    and "\<And>b x. conv b = Returns x \<Longrightarrow> bb_daa x = u64_as_i64 (ib_daa b) \<and> bb_hash x = ib_hash b"
  shows "(\<forall>b \<in> set bs. covered st' (u64_as_i64 (ib_daa b), ib_hash b)) \<and>
    (\<forall>i. covered st i \<longrightarrow> (\<forall>b \<in> set bs. fst i < u64_as_i64 (ib_daa b)) \<longrightarrow> covered st' i)"
  using assms(1-3)
proof (induction bs arbitrary: st t)
  case (Cons b bs)
  then obtain x where x: "conv b = Returns x" by (auto simp: run_bind_Returns_iff)
  note id = assms(4) [OF x]
  obtain s1 t1 where a: "apply_block st x = (s1, t1)" by force
  have ok: "ing_ok s1" using apply_block_ok [OF Cons.prems(2), of x] a by simp
  note rest = Cons.IH [OF _ ok]
  show ?case
    using rest Cons.prems(1,3) applied_covered [OF Cons.prems(2), of x] covered_kept [OF Cons.prems(2), of _ x] id
    by (fastforce simp: x a block_id_def)
qed auto

lemma conv_block: "conv_of env b = Returns x \<Longrightarrow> bb_daa x = u64_as_i64 (ib_daa b) \<and> bb_hash x = ib_hash b"
  by (auto simp: block_from_rpc_def run_map_Returns_iff)

lemma chain_change_covers:
  assumes "apply_notification (conv_of env) st (VirtualChainChanged removed bs) = Returns (st', t)" "ing_ok st"
    and "sorted_wrt (<) (map (\<lambda>b. u64_as_i64 (ib_daa b)) bs)" "b \<in> set bs"
  shows "covered st' (u64_as_i64 (ib_daa b), ib_hash b)"
proof -
  have ok: "bt_ok (ing_committed st)" "bt_ok (ing_probabilistic st)" using assms(2) by (simp_all add: ing_ok_def)
  obtain t0 where "apply_added (conv_of env) bs (st\<lparr>ing_probabilistic := filter (\<lambda>e. bb_hash (snd e) \<notin> set removed) (ing_probabilistic st),
      ing_committed := filter (\<lambda>e. bb_hash (snd e) \<notin> set removed) (ing_committed st)\<rparr>, t0) = Returns (st', t)"
    using assms(1) ok
    by (simp add: remove_probabilistic_by_hashes_def remove_committed_by_hashes_def remove_by_hashes_eq Let_def)
  from added_covered [OF this ing_ok_filter [OF assms(2)] assms(3) conv_block [of env]] assms(4) show ?thesis by blast
qed


section \<open>Every runtime follows a notification\<close>

lemma preservesD: "preserves I m \<Longrightarrow> I s \<Longrightarrow> m s = (r, s') \<Longrightarrow> I s'"
  by (metis preserves_def snd_conv)

lemma hits_keep_ingestion: "preserves (\<lambda>s. ns_ingestion s = st) (persist_hits env sg mapping hub b)"
proof -
  have "preserves (\<lambda>s. ns_ingestion s = st) (publish_hit_to_stream hub b h)" for h
    by (auto simp: publish_hit_to_stream_def Let_def intro!: preserves_rules preserves_update)
  then have "preserves (\<lambda>s. ns_ingestion s = st) (persist_hit env sg mapped hub b h)" for mapped h
    unfolding persist_hit_def Let_def by (auto intro!: preserves_rules split: option.split)
  then show ?thesis
    unfolding persist_hits_def by (auto intro!: preserves_rules split: option.split)
qed

lemma persist_follows:
  assumes "apply_and_persist_notification env sg mapping hub n s = (Inr out, s')"
  shows "\<exists>st t p. apply_notification (conv_of env) (ns_ingestion s) n = Returns (st, t) \<and>
    ns_ingestion s' = reseed_prior_poi p st \<and> no_recovery out = tr_recovery t"
proof -
  obtain st t where n: "apply_notification (conv_of env) (ns_ingestion s) n = Returns (st, t)"
      "andthen (persist_unwinds sg (mapping \<noteq> None) (tr_unwinds t)) (andthen (for_each (tr_writes t) (persist_block env sg mapping hub))
        (ret \<lparr>no_recovery = tr_recovery t, no_committed = length (tr_writes t)\<rparr>)) (s\<lparr>ns_ingestion := st\<rparr>) = (Inr out, s')"
    using assms by (auto simp: apply_and_persist_notification_def ingest_def bind_Inr split: run.splits)
  let ?on = "\<lambda>s. \<exists>p. ns_ingestion s = reseed_prior_poi p st"
  have again: "\<exists>q. reseed_prior_poi p' (reseed_prior_poi p st) = reseed_prior_poi q st" for p p'
    by (auto simp: reseed_prior_poi_def)
  have poi: "preserves ?on (persist_poi env sg mapped b ds)" for mapped b ds
    by (auto simp: preserves_def persist_poi_def again split: sum.split)
  have hits: "preserves ?on (persist_hits env sg mapping hub b)" for b
    using hits_keep_ingestion [of _ env sg mapping hub b] by (auto simp: preserves_def)
  have db: "preserves ?on (on_db m)" for m :: "(store_db, 'b) act"
    by (rule preserves_on_db) simp
  have blocks: "preserves ?on (persist_block env sg mapping hub b)" for b
    unfolding persist_block_def
    by (intro preserves_andthen preserves_bind hits poi) (simp_all add: preserves_on_db)
  have unwinds: "preserves ?on (persist_unwinds sg mapped us)" for mapped us
    unfolding persist_unwinds_def
    by (intro preserves_if preserves_andthen preserves_bind preserves_ret preserves_update) (auto simp: preserves_on_db again)
  have "preserves ?on (andthen (persist_unwinds sg (mapping \<noteq> None) (tr_unwinds t)) (andthen (for_each (tr_writes t) (persist_block env sg mapping hub))
        (ret \<lparr>no_recovery = tr_recovery t, no_committed = length (tr_writes t)\<rparr>)))"
    by (intro preserves_andthen preserves_for_each preserves_ret blocks unwinds)
  moreover have "st = reseed_prior_poi (ing_prior_poi st) st" by (simp add: reseed_prior_poi_def)
  then have "?on (s\<lparr>ns_ingestion := st\<rparr>)" by auto
  ultimately have "?on s'" using n(2) by (rule preservesD)
  moreover have "no_recovery out = tr_recovery t" using n(2) by (auto simp: andthen_Inr)
  ultimately show ?thesis using n(1) by blast
qed

definition follows :: "node_env \<Rightarrow> chain_notification \<Rightarrow> subgraph_runtime \<Rightarrow> subgraph_runtime \<Rightarrow> bool" where
  "follows env n rt rt' \<longleftrightarrow> (\<exists>st t p. apply_notification (conv_of env) (rt_ingestion rt) n = Returns (st, t) \<and>
     rt_ingestion rt' = reseed_prior_poi p st)"

lemma follows_ok:
  assumes "follows env n rt rt'" "ing_ok (rt_ingestion rt)"
  shows "ing_ok (rt_ingestion rt')"
proof -
  obtain st t p where st: "apply_notification (conv_of env) (rt_ingestion rt) n = Returns (st, t)"
      "rt_ingestion rt' = reseed_prior_poi p st"
    using assms(1) by (auto simp: follows_def)
  then show ?thesis using apply_notification_ledger [OF st(1) assms(2)] by (simp add: reseed_prior_poi_def ing_ok_def)
qed

lemma fan_out_each_follows:
  "fan_out_each env hub n rts db pub = (Inr r, nd) \<Longrightarrow> list_all2 (follows env n) rts (nd_runtimes nd)"
proof (induction rts arbitrary: db pub nd r)
  case (Cons rt rts)
  from Cons.prems obtain out s r' nd' where
    s: "apply_and_persist_notification env (rt_subgraph rt) (rt_mapping rt) hub n
      \<lparr>ns_db = db, ns_ingestion = rt_ingestion rt, ns_published = pub\<rparr> = (Inr out, s)" and
    rest: "fan_out_each env hub n rts (ns_db s) (ns_published s) = (Inr r', nd')" and
    nd: "nd = nd'\<lparr>nd_runtimes := rt\<lparr>rt_ingestion := ns_ingestion s\<rparr> # nd_runtimes nd'\<rparr>"
    by (rule fan_out_each_ConsE)
  have "follows env n rt (rt\<lparr>rt_ingestion := ns_ingestion s\<rparr>)"
    using persist_follows [OF s] by (auto simp: follows_def)
  then show ?case using Cons.IH [OF rest] nd by simp
qed simp

lemma list_all2_preimage: "list_all2 P xs ys \<Longrightarrow> y \<in> set ys \<Longrightarrow> \<exists>x \<in> set xs. P x y"
  by (induction rule: list_all2_induct) auto

lemma fan_out_follows:
  "fan_out_notification env hub n nd = (Inr out, nd') \<Longrightarrow> list_all2 (follows env n) (nd_runtimes nd) (nd_runtimes nd')"
  by (auto simp: fan_out_notification_def attempt_Inr split: prod.splits dest: fan_out_each_follows)


section \<open>The loop\<close>

lemma score_before: "0 < u64_as_i64 lo \<Longrightarrow> u64_as_i64 (u64_saturating_sub lo 1) < u64_as_i64 lo"
proof -
  assume pos: "0 < u64_as_i64 lo"
  have "sint lo < 2 ^ 63" using sint_lt [of lo] by simp
  then have "sint (lo - 1) = sint lo - 1"
    using pos by (simp add: sint_word_ariths signed_take_bit_int_eq_self u64_as_i64_def)
  moreover have "1 \<le> lo" using pos by (cases "lo = 0") (simp_all add: u64_as_i64_def word_le_nat_alt unat_gt_0 Suc_le_eq)
  ultimately show ?thesis by (simp add: u64_saturating_sub_def u64_as_i64_def)
qed

lemma anchor_kept:
  assumes "apply_notification conv st (RecoveryRequired lo hi why) = Returns (st', t)" "ing_ok st" "0 < u64_as_i64 lo"
  shows "recovery_anchor_hash (reseed_prior_poi p st') lo = recovery_anchor_hash st lo \<and> tr_recovery t = Some (lo, hi) \<and> ing_ok st'"
proof -
  let ?in = "\<lambda>e. u64_as_i64 lo \<le> fst e \<and> fst e \<le> u64_as_i64 hi"
  have "bt_ok (ing_probabilistic st)" using assms(2) by (simp add: ing_ok_def)
  then have st': "st' = st\<lparr>ing_probabilistic := filter (\<lambda>e. \<not> ?in e) (ing_probabilistic st)\<rparr>" "tr_recovery t = Some (lo, hi)"
    using assms(1) by (auto simp: remove_probabilistic_in_range_def remove_scores_filter run_map_Returns_iff Let_def split: if_splits)
  have "filter (\<lambda>e. fst e \<le> u64_as_i64 (u64_saturating_sub lo 1)) (filter (\<lambda>e. \<not> ?in e) m) =
      filter (\<lambda>e. fst e \<le> u64_as_i64 (u64_saturating_sub lo 1)) m" for m :: block_map
    using score_before [OF assms(3)] by (induction m) auto
  then show ?thesis
    using st' apply_notification_ledger [OF assms(1,2)] by (simp add: recovery_anchor_hash_def reseed_prior_poi_def Let_def)
qed

lemma recovery_outcome:
  assumes "fan_out_notification env hub (RecoveryRequired lo hi why) nd = (Inr out, nd')"
  shows "no_recovery out = Some (lo, hi)"
proof -
  obtain rt rts where rts: "nd_runtimes nd = rt # rts"
    using assms by (cases "nd_runtimes nd") (auto simp: fan_out_notification_def attempt_Inr ok_or_def)
  show ?thesis
    using assms
    by (auto simp: fan_out_notification_def rts attempt_Inr ok_or_def Let_def run_map_Returns_iff map_sum_def
        split: prod.splits sum.splits dest!: persist_follows)
qed

text \<open>When the loop receives a recovery request, the first runtime knows a block
  below its range, the client gets the chain from that block and its blocks, and these are in score order, then
  every runtime has covered every block of that chain: its score is committed, or the block itself waits at
  its score. The state of every runtime stays well formed.\<close>

lemma request_closed:
  assumes "\<forall>rt \<in> set (nd_runtimes nd). ing_ok (rt_ingestion rt)" "0 < u64_as_i64 lo"
    and "recovery_anchor_hash (rt_ingestion (hd (nd_runtimes nd))) lo = Some anchor"
    and "recover_blocks_in_daa_range net w anchor lo hi c = (Inr (VirtualChainChanged removed bs), c')"
    and "sorted_wrt (<) (map (\<lambda>b. u64_as_i64 (ib_daa b)) bs)"
    and "continuous_loop net w env ld cfg hub [Received (RecoveryRequired lo hi why) c] processed nd = (Inr fin, k, nd')"
  shows "\<forall>rt \<in> set (nd_runtimes nd'). ing_ok (rt_ingestion rt) \<and> (\<forall>b \<in> set bs.
    lo \<le> ib_daa b \<and> ib_daa b \<le> hi \<and> covered (rt_ingestion rt) (u64_as_i64 (ib_daa b), ib_hash b))"
proof -
  obtain out nd1 where f1: "fan_out_notification env hub (RecoveryRequired lo hi why) nd = (Inr out, nd1)"
    using assms(6) by (cases "fan_out_notification env hub (RecoveryRequired lo hi why) nd") (auto simp: Let_def split: sum.splits)
  note follow = fan_out_follows [OF f1]
  have ne: "nd_runtimes nd \<noteq> []"
    using f1 by (auto simp: fan_out_notification_def attempt_Inr ok_or_def)
  have ok1: "ing_ok (rt_ingestion rt)" if rt: "rt \<in> set (nd_runtimes nd1)" for rt
  proof -
    obtain rt0 where "rt0 \<in> set (nd_runtimes nd)" "follows env (RecoveryRequired lo hi why) rt0 rt"
      using list_all2_preimage [OF follow rt] by blast
    then show ?thesis using assms(1) follows_ok by blast
  qed
  have "follows env (RecoveryRequired lo hi why) (hd (nd_runtimes nd)) (nd_runtimes nd1 ! 0)"
    using follow ne by (cases "nd_runtimes nd") (auto simp: list_all2_Cons1)
  then have "recovery_anchor_hash (rt_ingestion (nd_runtimes nd1 ! 0)) lo = Some anchor"
    using anchor_kept [OF _ _ assms(2)] assms(1,3) list.set_sel(1) [OF ne] unfolding follows_def by auto
  then have active: "active_recovery net w (nc_continuous cfg) (nd_runtimes nd1) (lo, hi) c = Some (Inr (VirtualChainChanged removed bs), c')"
    by (simp add: active_recovery_def assms(4))
  obtain out2 nd2 where f2: "fan_out_notification env hub (VirtualChainChanged removed bs) nd1 = (Inr out2, nd2)"
      "nd_runtimes nd' = nd_runtimes nd2"
    using assms(6) f1 recovery_outcome [OF f1] active
    by (auto simp: Let_def split: prod.splits sum.splits if_splits)
  have "in_daa_range lo hi b" if "b \<in> set bs" for b
    using assms(4) that by (auto simp: recover_blocks_in_daa_range_def attempt_Inr Let_def split: prod.splits sum.splits)
  moreover have "ing_ok (rt_ingestion rt) \<and> (\<forall>b \<in> set bs. covered (rt_ingestion rt) (u64_as_i64 (ib_daa b), ib_hash b))"
    if rt: "rt \<in> set (nd_runtimes nd2)" for rt
  proof -
    obtain rt1 where rt1: "rt1 \<in> set (nd_runtimes nd1)" "follows env (VirtualChainChanged removed bs) rt1 rt"
      using list_all2_preimage [OF fan_out_follows [OF f2(1)] rt] by blast
    from rt1(2) chain_change_covers [OF _ ok1 [OF rt1(1)] assms(5)] follows_ok [OF rt1(2) ok1 [OF rt1(1)]] show ?thesis
      by (auto simp: follows_def)
  qed
  ultimately show ?thesis by (simp add: f2(2) in_daa_range_def)
qed

text \<open>A block that is added covers itself and leaves what is covered below it covered.\<close>

lemma block_added_covers:
  assumes "follows env (BlockAdded b) rt rt'" "ing_ok (rt_ingestion rt)"
  shows "covered (rt_ingestion rt') (u64_as_i64 (ib_daa b), ib_hash b)"
    and "covered (rt_ingestion rt) i \<Longrightarrow> fst i < u64_as_i64 (ib_daa b) \<Longrightarrow> covered (rt_ingestion rt') i"
proof -
  obtain x p where x: "conv_of env b = Returns x" "rt_ingestion rt' = reseed_prior_poi p (fst (apply_block (rt_ingestion rt) x))"
    using assms(1) by (auto simp: follows_def run_map_Returns_iff run_bind_Returns_iff) (metis fst_conv)
  note id = conv_block [OF x(1)]
  show "covered (rt_ingestion rt') (u64_as_i64 (ib_daa b), ib_hash b)"
    using applied_covered [OF assms(2), of x] id by (simp add: x(2) block_id_def)
  show "covered (rt_ingestion rt) i \<Longrightarrow> fst i < u64_as_i64 (ib_daa b) \<Longrightarrow> covered (rt_ingestion rt') i"
    using covered_kept [OF assms(2), of i x] id by (simp add: x(2))
qed

text \<open>Without a bound on the messages, the loop handles the first one and goes on with the rest.\<close>

lemma loop_first:
  assumes "co_max_messages (nc_continuous cfg) = 0"
    and "continuous_loop net w env ld cfg hub (Received n c # es) k nd = (Inr fin, k', nd')"
  obtains nd1 where "continuous_loop net w env ld cfg hub [Received n c] k nd = (Inr Events_exhausted, k + 1, nd1)"
    "continuous_loop net w env ld cfg hub es (k + 1) nd1 = (Inr fin, k', nd')"
  using assms by (auto simp: Let_def split: prod.splits sum.splits option.splits)

lemma block_outcome:
  assumes "fan_out_notification env hub (BlockAdded b) nd = (Inr out, nd')"
  shows "no_recovery out = None"
proof -
  obtain rt rts where rts: "nd_runtimes nd = rt # rts"
    using assms by (cases "nd_runtimes nd") (auto simp: fan_out_notification_def attempt_Inr ok_or_def)
  have "tr_recovery (snd (apply_block st x)) = None" for st x by (simp add: apply_block_def Let_def split: option.split prod.split)
  then show ?thesis
    using assms
    by (auto simp: fan_out_notification_def rts attempt_Inr ok_or_def Let_def run_map_Returns_iff map_sum_def
        split: prod.splits sum.splits dest!: persist_follows) (metis snd_conv)
qed

lemma loop_block:
  assumes "continuous_loop net w env ld cfg hub [Received (BlockAdded b) c] k nd = (Inr fin, k', nd')"
  shows "list_all2 (follows env (BlockAdded b)) (nd_runtimes nd) (nd_runtimes nd')"
proof -
  obtain out nd1 where f: "fan_out_notification env hub (BlockAdded b) nd = (Inr out, nd1)"
    using assms by (cases "fan_out_notification env hub (BlockAdded b) nd") (auto simp: Let_def split: sum.splits)
  have "nd_runtimes nd' = nd_runtimes nd1"
    using assms f block_outcome [OF f] by (auto simp: Let_def split: prod.splits if_splits)
  then show ?thesis using fan_out_follows [OF f] by simp
qed

text \<open>What the driver sends after a reconnect when a block skips scores.\<close>

lemma reconnect_sends:
  assumes "ds_pending_gap_check (dr_state d)" "ds_last_emitted (dr_state d) = Some l" "dr_left d = None"
    and "unat l + 1 < unat (ib_daa b)"
  shows "dr_sent (snd (forward url [BlockAdded b] d)) =
    dr_sent d @ [RecoveryRequired (l + 1) (ib_daa b - 1) (gap_reason l (ib_daa b)), BlockAdded b]"
proof -
  have "unat l + 1 < 2 ^ 64" using assms(4) u64_bound [of "ib_daa b"] by simp
  then have l: "u64_saturating_add l 1 = l + 1" "unat (l + 1) = unat l + 1"
    by (simp_all add: u64_saturating_add_def unat_word_ariths)
  moreover have "u64_saturating_sub (ib_daa b) 1 = ib_daa b - 1"
    using assms(4) by (auto simp: u64_saturating_sub_def word_le_nat_alt)
  ultimately have check: "gap_check url (BlockAdded b) d = (True, cleared ((emit_driver_event (GapDetected url (ds_reconnects (dr_state d))
      (l + 1) (ib_daa b - 1)) d)\<lparr>dr_sent := dr_sent d @ [RecoveryRequired (l + 1) (ib_daa b - 1) (gap_reason l (ib_daa b))]\<rparr>))"
    using assms by (simp add: gap_check_def word_less_nat_alt send_open emit_driver_event_def Let_def)
  show ?thesis using assms(3) by (simp add: check send_open cleared_def emit_driver_event_def)
qed

text \<open>C16: a gap is closed in every runtime. Take a driver that has reconnected after emitting the score \<open>l\<close> and now
  reads a block whose score skips some, and let the main loop receive what the driver sends for it. If the first runtime
  knows a block below the gap, and the client gets the chain from that block up to the new one, in score order, then,
  unless persisting fails, every runtime ends with each block of that chain covered, and the new block too: its score is
  committed, or the block itself waits at its score. The blocks fetched are those strictly between \<open>l\<close> and the new block.\<close>

theorem gap_closed:
  assumes "ds_pending_gap_check (dr_state d)" "ds_last_emitted (dr_state d) = Some l" "dr_left d = None"
    and "unat l + 1 < unat (ib_daa b)" "unat (ib_daa b) < 2 ^ 63"
    and "dr_sent (snd (forward url [BlockAdded b] d)) = dr_sent d @ sent" "length cs = length sent"
    and "\<forall>rt \<in> set (nd_runtimes nd). ing_ok (rt_ingestion rt)" "co_max_messages (nc_continuous cfg) = 0"
    and "recovery_anchor_hash (rt_ingestion (hd (nd_runtimes nd))) (l + 1) = Some anchor"
    and "recover_blocks_in_daa_range net w anchor (l + 1) (ib_daa b - 1) (hd cs) = (Inr (VirtualChainChanged removed bs), c')"
    and "sorted_wrt (<) (map (\<lambda>b. u64_as_i64 (ib_daa b)) bs)"
    and "continuous_loop net w env ld cfg hub (map2 Received sent cs) k nd = (Inr fin, k', nd')"
  shows "(\<forall>x \<in> set bs. l < ib_daa x \<and> ib_daa x < ib_daa b) \<and>
    (\<forall>rt \<in> set (nd_runtimes nd'). \<forall>x \<in> set (bs @ [b]). covered (rt_ingestion rt) (u64_as_i64 (ib_daa x), ib_hash x))"
proof -
  let ?gap = "RecoveryRequired (l + 1) (ib_daa b - 1) (gap_reason l (ib_daa b))"
  have sent: "sent = [?gap, BlockAdded b]" using reconnect_sends [OF assms(1-4), of url] assms(6) by simp
  then obtain c1 c2 where cs: "cs = [c1, c2]" using assms(7) by (auto simp: length_Suc_conv)
  obtain nd1 where first: "continuous_loop net w env ld cfg hub [Received ?gap c1] k nd = (Inr Events_exhausted, k + 1, nd1)"
      and rest: "continuous_loop net w env ld cfg hub [Received (BlockAdded b) c2] (k + 1) nd1 = (Inr fin, k', nd')"
    using loop_first [OF assms(9), of net w env ld hub ?gap c1 "[Received (BlockAdded b) c2]" k nd fin k' nd'] assms(13)
    by (auto simp: sent cs)
  have l1: "unat (l + 1) = unat l + 1" using assms(4) u64_bound [of "ib_daa b"] by (simp add: unat_word_ariths)
  have b1: "unat (ib_daa b - 1) = unat (ib_daa b) - 1" using assms(4) by (simp add: unat_sub word_le_nat_alt)
  have "u64_as_i64 (l + 1) = int (unat l + 1)" using u64_as_i64_small [of "l + 1"] l1 assms(4,5) by (metis less_trans)
  then have "0 < u64_as_i64 (l + 1)" by linarith
  from request_closed [OF assms(8) this assms(10) _ assms(12) first] assms(11)
  have closed: "\<forall>rt \<in> set (nd_runtimes nd1). ing_ok (rt_ingestion rt) \<and> (\<forall>x \<in> set bs.
      l + 1 \<le> ib_daa x \<and> ib_daa x \<le> ib_daa b - 1 \<and> covered (rt_ingestion rt) (u64_as_i64 (ib_daa x), ib_hash x))"
    by (simp add: cs)
  have range: "l < ib_daa x \<and> ib_daa x < ib_daa b \<and> u64_as_i64 (ib_daa x) < u64_as_i64 (ib_daa b)" if x: "x \<in> set bs" for x
  proof -
    have "in_daa_range (l + 1) (ib_daa b - 1) x"
      using assms(11) x by (auto simp: recover_blocks_in_daa_range_def attempt_Inr Let_def split: prod.splits sum.splits)
    then have "unat l + 1 \<le> unat (ib_daa x)" "unat (ib_daa x) < unat (ib_daa b)"
      using l1 b1 assms(4) by (auto simp: in_daa_range_def word_le_nat_alt)
    moreover from this have "uint (ib_daa x) < uint (ib_daa b)" by (simp add: word_less_nat_alt flip: word_less_def)
    ultimately show ?thesis using u64_as_i64_small [of "ib_daa x"] u64_as_i64_small [OF assms(5)] assms(5)
      by (simp add: word_less_nat_alt)
  qed
  have "covered (rt_ingestion rt) (u64_as_i64 (ib_daa x), ib_hash x)"
    if rt: "rt \<in> set (nd_runtimes nd')" and x: "x \<in> set (bs @ [b])" for rt x
  proof -
    obtain rt1 where "rt1 \<in> set (nd_runtimes nd1)" "follows env (BlockAdded b) rt1 rt"
      using list_all2_preimage [OF loop_block [OF rest] rt] by blast
    then show ?thesis using block_added_covers [of env b rt1 rt] closed range x by auto
  qed
  then show ?thesis using range by blast
qed

definition gap_network :: network where
  "gap_network = sample_network\<lparr>nw_http := (\<lambda>n _ _. Inr (JObject [(''result'', JObject
     (if n = 0 then [(''addedChainBlockHashes'', JArray [JString ''b'', JString ''c'']), (''removedChainBlockHashes'', JArray [])]
      else [(''block'', JObject [(''blueScore'', JNumber (PosInt 4)), (''daaScore'', JNumber (PosInt (of_nat (10 + n)))),
        (''hash'', JString (if n = 1 then ''b'' else ''c''))])]))]))\<rparr>"

definition gap_node :: node where
  "gap_node = \<lparr>nd_db = empty_db, nd_runtimes = [\<lparr>rt_subgraph = ''main'',
     rt_ingestion = (with_finality_depth None)\<lparr>ing_committed := [(10, plain_block ''a'' 10 True)]\<rparr>, rt_mapping = None\<rparr>], nd_published = []\<rparr>"

definition gap_messages :: "chain_notification list" where
  "gap_messages = [RecoveryRequired 11 12 (gap_reason 10 13), BlockAdded (header_block ''d'' 13 False)]"

lemma gap_loop_run:
  "case recover_blocks_in_daa_range gap_network sample_wire ''a'' 11 12 sample_client of (r, c') \<Rightarrow>
    (case r of Inl _ \<Rightarrow> False | Inr m \<Rightarrow> (case m of VirtualChainChanged removed bs \<Rightarrow> map ib_daa bs = [11, 12] \<and> map ib_hash bs = [''b'', ''c''] | _ \<Rightarrow> False))"
  "case continuous_loop gap_network sample_wire sample_env idle_loader default_config False
      (map2 Received gap_messages [sample_client, sample_client]) 0 gap_node of
    (r, k, nd) \<Rightarrow> (case r of Inl _ \<Rightarrow> False | Inr _ \<Rightarrow> length (nd_runtimes nd) = 1)"
  by code_simp+

lemma gap_closed_witness:
  "\<exists>nd. snd (snd (continuous_loop gap_network sample_wire sample_env idle_loader default_config False
      (map2 Received gap_messages [sample_client, sample_client]) 0 gap_node)) = nd \<and>
    (\<forall>i \<in> {(11, ''b''), (12, ''c''), (13, ''d'')}. covered (rt_ingestion (hd (nd_runtimes nd))) i)"
proof -
  let ?b = "header_block ''d'' 13 False"
  let ?run = "continuous_loop gap_network sample_wire sample_env idle_loader default_config False
      (map2 Received gap_messages [sample_client, sample_client]) 0 gap_node"
  obtain removed bs c' where bs: "recover_blocks_in_daa_range gap_network sample_wire ''a'' 11 12 sample_client =
      (Inr (VirtualChainChanged removed bs), c')" "map ib_daa bs = [11, 12]" "map ib_hash bs = [''b'', ''c'']"
    using gap_loop_run(1) by (auto split: prod.splits sum.splits chain_notification.splits)
  obtain fin k nd where nd: "?run = (Inr fin, k, nd)" "length (nd_runtimes nd) = 1"
    using gap_loop_run(2) by (auto split: prod.splits sum.splits)
  have scores: "map (\<lambda>b. u64_as_i64 (ib_daa b)) bs = [11, 12]"
    using arg_cong [OF bs(2), of "map u64_as_i64"] by (simp add: comp_def u64_as_i64_def)
  have driver: "ds_pending_gap_check (dr_state reconnected_driver)" "ds_last_emitted (dr_state reconnected_driver) = Some 10"
      "dr_left reconnected_driver = None" "ib_daa ?b = 13" "ib_hash ?b = ''d''"
    by (simp_all add: reconnected_driver_def start_driver_def header_block_def)
  have sent: "dr_sent (snd (forward ''ws'' [BlockAdded ?b] reconnected_driver)) = dr_sent reconnected_driver @ gap_messages"
    using reconnect_sends [OF driver(1-3), of ?b "''ws''"] by (simp add: driver(4) gap_messages_def)
  have ok: "\<forall>rt \<in> set (nd_runtimes gap_node). ing_ok (rt_ingestion rt)"
    by (simp add: gap_node_def ing_ok_def keyed_def with_finality_depth_def plain_block_def bt_ok_def)
  have anchor: "recovery_anchor_hash (rt_ingestion (hd (nd_runtimes gap_node))) (10 + 1) = Some ''a''" by code_simp
  have "co_max_messages (nc_continuous default_config) = 0" by code_simp
  then have "\<forall>rt \<in> set (nd_runtimes nd). \<forall>x \<in> set (bs @ [?b]). covered (rt_ingestion rt) (u64_as_i64 (ib_daa x), ib_hash x)"
    using gap_closed [OF driver(1-3) _ _ sent _ ok _ anchor _ _ nd(1)] bs(1) scores
    by (simp add: driver(4) gap_messages_def)
  moreover have "hd (nd_runtimes nd) \<in> set (nd_runtimes nd)" using nd(2) by (cases "nd_runtimes nd") auto
  moreover obtain b1 b2 where "bs = [b1, b2]" using arg_cong [OF bs(2), of length] by (auto simp: length_Suc_conv)
  ultimately show ?thesis using nd(1) scores bs(3) driver(4,5) by (auto simp: u64_as_i64_def)
qed

end
