(* ===== verification/Schema_Index.thy ===== *)
theory Schema_Index
  imports Isolation
begin

text \<open>
  The reference indexer of a subgraph with a mapping: what a committed block writes to the tables of the
  subgraph's schema, as a list of writes computed from the tables before it, and the node's handling of a block
  as the application of these writes.
\<close>

section \<open>The writes of a block\<close>

definition snapshot_of :: "entity_version list \<Rightarrow> entity_snapshot" where
  "snapshot_of E = map_of (rev (map (\<lambda>r. ((sr_type r, sr_id r), sr_payload r)) (snapshot_rows (empty_schema\<lparr>st_entities := E\<rparr>))))"

text \<open>A tracked output an input consumes, and the covenant an output of a transaction continues: that of the
  first input which consumes an output with a covenant, and a new one otherwise.\<close>

definition tracked_output :: "schema_tables \<Rightarrow> ingested_input \<Rightarrow> utxo_match option" where
  "tracked_output T i =
     map_option utxo_match_of (tbl_find utxo_pk (ii_previous_tx i, u32_as_i32 (ii_previous_index i)) (st_utxos T))"

definition consumed_covenant :: "schema_tables \<Rightarrow> ingested_input \<Rightarrow> string option" where
  "consumed_covenant T i = Option.bind (tracked_output T i) um_covenant_id"

definition covenant_of :: "node_env \<Rightarrow> schema_tables \<Rightarrow> detected_pattern \<Rightarrow> ingested_input list \<Rightarrow> string" where
  "covenant_of env T hit is =
     (case find (\<lambda>i. ii_spending_tx i = dp_tx_hash hit \<and> consumed_covenant T i \<noteq> None) is of
        None \<Rightarrow> genesis_covenant_id (env_hash env) (env_hex_encode env) (dp_tx_hash hit) (dp_output_index hit)
      | Some i \<Rightarrow> the (consumed_covenant T i))"

fun hit_writes ::
  "node_env \<Rightarrow> string \<Rightarrow> bootstrap_block \<Rightarrow> schema_tables \<Rightarrow> detected_pattern list \<Rightarrow> schema_write list" where
  "hit_writes env sg b T [] = []"
| "hit_writes env sg b T (hit # hits) =
     (let w = WUtxo (utxo_record_of sg b hit (Some (covenant_of env T hit (bb_inputs b))))
      in w # hit_writes env sg b (apply_write T w) hits)"

text \<open>The entity versions the mapping returns for the hits. The POI of the block covers these.\<close>

definition block_records :: "loaded_mapping \<Rightarrow> schema_tables \<Rightarrow> bootstrap_block \<Rightarrow> entity_version list" where
  "block_records m T b =
     dispatch_committed_hits m (i64_as_u64 (bb_daa b)) (bb_hash b) (bb_hits b) (snapshot_of (st_entities T))"

text \<open>The inputs that consume tracked outputs by spending transaction, and what one such input writes.\<close>

definition consumed_by_tx :: "schema_tables \<Rightarrow> ingested_input list \<Rightarrow> consumed_map" where
  "consumed_by_tx T is = foldl (\<lambda>m i. case tracked_output T i of None \<Rightarrow> m | Some x \<Rightarrow> push_consumed i x m) [] is"

definition spend_operation :: "node_env \<Rightarrow> schema_tables \<Rightarrow> string \<Rightarrow> (ingested_input \<times> utxo_match) list \<Rightarrow> string option" where
  "spend_operation env T tx consumed =
     (if list_all (\<lambda>(i, m). um_kind m = ''KCC20Asset'') consumed
      then case kcc20_spend_operation (env_hex_decode env) (map (\<lambda>(i, m). um_state m) consumed)
             (map um_state (filter (\<lambda>c. um_kind c = ''KCC20Asset'')
               (map utxo_match_of (sort_key cu_output_index (filter (\<lambda>r. cu_tx_hash r = tx) (st_utxos T)))))) of
             Inl e \<Rightarrow> None | Inr k \<Rightarrow> Some (kcc20_operation_str k)
      else None)"

definition spend_successor :: "schema_tables \<Rightarrow> string \<Rightarrow> utxo_match \<Rightarrow> string option" where
  "spend_successor T tx spent =
     (case um_covenant_id spent of
        None \<Rightarrow> None
      | Some c \<Rightarrow> if \<exists>r \<in> set (st_utxos T). cu_tx_hash r = tx \<and> cu_covenant_id r = Some c then Some c else None)"

definition spend_records ::
  "string \<Rightarrow> loaded_mapping \<Rightarrow> bootstrap_block \<Rightarrow> entity_snapshot \<Rightarrow> string option \<Rightarrow> string option \<Rightarrow> utxo_match
     \<Rightarrow> entity_version list" where
  "spend_records sg m b snapshot operation successor spent =
     (case (operation, um_covenant_id spent) of
        (Some op_name, Some c) \<Rightarrow>
          (case resolve_handler (lm_descriptor m) (um_kind spent) EVENT_COVENANT_SPENT of
             None \<Rightarrow> []
           | Some handler \<Rightarrow>
               (case dispatch_spend_hit m
                  \<lparr>sp_covenant_id = c, sp_operation = op_name, sp_value = int_to_string (um_value spent),
                   sp_successor = successor\<rparr>
                  (um_state spent) (i64_as_u64 (bb_daa b)) (bb_hash b) handler sg snapshot of
                  Inl e \<Rightarrow> [] | Inr (records, out) \<Rightarrow> records))
      | _ \<Rightarrow> [])"

definition spend_writes :: "node_env \<Rightarrow> string \<Rightarrow> loaded_mapping \<Rightarrow> bootstrap_block \<Rightarrow> schema_tables \<Rightarrow> schema_write list" where
  "spend_writes env sg m b T =
     concat (map (\<lambda>(tx, consumed).
       concat (map (\<lambda>(i, spent).
         WSpend (spend_record_of sg b i spent (spend_successor T tx spent)) #
         map WEntity (spend_records sg m b (snapshot_of (st_entities T)) (spend_operation env T tx consumed)
           (spend_successor T tx spent) spent)) consumed))
       (consumed_by_tx T (bb_inputs b)))"

text \<open>A block: the outputs it locks, the versions its hits produce, then its spends on the tables these leave.\<close>

definition block_writes :: "node_env \<Rightarrow> loaded_mapping \<Rightarrow> schema_tables \<Rightarrow> bootstrap_block \<Rightarrow> schema_write list" where
  "block_writes env m T b =
     (let ws = hit_writes env (lm_subgraph m) b T (bb_hits b) @ map WEntity (block_records m T b)
      in ws @ spend_writes env (lm_subgraph m) m b (apply_writes T ws))"

definition index_block :: "node_env \<Rightarrow> loaded_mapping \<Rightarrow> schema_tables \<Rightarrow> bootstrap_block \<Rightarrow> schema_tables" where
  "index_block env m T b = apply_writes T (block_writes env m T b)"

definition index_tables :: "node_env \<Rightarrow> loaded_mapping \<Rightarrow> schema_tables \<Rightarrow> bootstrap_block list \<Rightarrow> schema_tables" where
  "index_tables env m T bs = foldl (index_block env m) T bs"

text \<open>What the POI of each block covers.\<close>

fun index_inputs :: "node_env \<Rightarrow> loaded_mapping \<Rightarrow> schema_tables \<Rightarrow> bootstrap_block list \<Rightarrow> u8 list list" where
  "index_inputs env m T [] = []"
| "index_inputs env m T (b # bs) =
     canonical_bytes_for_entities (env_to_vec env) (block_records m T b) # index_inputs env m (index_block env m T b) bs"

lemma length_index_inputs [simp]: "length (index_inputs env m T bs) = length bs"
  by (induction bs arbitrary: T) simp_all

lemma index_append:
  "index_tables env m T (as @ bs) = index_tables env m (index_tables env m T as) bs"
  "index_inputs env m T (as @ bs) = index_inputs env m T as @ index_inputs env m (index_tables env m T as) bs"
  by (induction "as" arbitrary: T) (simp_all add: index_tables_def)

lemma apply_writes_append: "apply_writes T (ws @ vs) = apply_writes (apply_writes T ws) vs"
  by (simp add: apply_writes_def)

lemma apply_writes_simps [simp]:
  "apply_writes T [] = T" "apply_writes T (w # ws) = apply_writes (apply_write T w) ws"
  by (simp_all add: apply_writes_def)

section \<open>Steps of the node that only write to the schema\<close>

text \<open>From tables with \<open>P\<close>, the step succeeds with the value given, applies the writes, and leaves the other
  tables of the database as they are.\<close>

definition only_schemas :: "store_db \<Rightarrow> store_db \<Rightarrow> bool" where
  "only_schemas db db' \<longleftrightarrow> db'\<lparr>db_schemas := db_schemas db\<rparr> = db"

definition does ::
  "string \<Rightarrow> (schema_tables \<Rightarrow> bool) \<Rightarrow> 'a \<Rightarrow> schema_write list \<Rightarrow> (store_db, 'a) act \<Rightarrow> bool" where
  "does sg P x ws m \<longleftrightarrow> (\<forall>db T. map_of (db_schemas db) sg = Some T \<longrightarrow> P T \<longrightarrow>
     (\<exists>db'. m db = (Inr x, db') \<and> map_of (db_schemas db') sg = Some (apply_writes T ws) \<and> only_schemas db db'))"

lemma only_schemas_refl: "only_schemas db db"
  by (simp add: only_schemas_def)

lemma only_schemas_trans: "only_schemas db db1 \<Longrightarrow> only_schemas db1 db2 \<Longrightarrow> only_schemas db db2"
  by (cases db; cases db1; cases db2) (simp add: only_schemas_def)

lemma only_schemas_tables:
  "only_schemas db db' \<Longrightarrow> db_poi db' = db_poi db \<and> db_committed db' = db_committed db \<and> db_heads db' = db_heads db \<and>
    db_rows db' = db_rows db"
  by (cases db; cases db') (simp add: only_schemas_def)

lemma does_ret: "does sg P x [] (ret x)"
  by (auto simp: does_def ret_def only_schemas_refl)

lemma does_query: "(\<And>db T. map_of (db_schemas db) sg = Some T \<Longrightarrow> P T \<Longrightarrow> f db = Inr x) \<Longrightarrow> does sg P x [] (query f)"
  by (auto simp: does_def query_def only_schemas_refl)

lemma does_execute:
  assumes "\<And>db. f db = execute_schema db sg (\<lambda>T. apply_write T w)"
  shows "does sg P () [w] (execute f)"
  unfolding does_def execute_def assms execute_schema_def by (auto simp: only_schemas_def)

lemma does_bind:
  assumes "does sg P x ws m" "\<And>T. P T \<Longrightarrow> Q (apply_writes T ws)" "does sg Q y vs (f x)"
  shows "does sg P y (ws @ vs) (bind m f)"
  unfolding does_def
proof (intro allI impI)
  fix db :: store_db and T assume T: "map_of (db_schemas db) sg = Some T" "P T"
  then obtain db1 where db1: "m db = (Inr x, db1)" "map_of (db_schemas db1) sg = Some (apply_writes T ws)" "only_schemas db db1"
    using assms(1) by (auto simp: does_def)
  then obtain db2 where "f x db1 = (Inr y, db2)" "map_of (db_schemas db2) sg = Some (apply_writes (apply_writes T ws) vs)"
      "only_schemas db1 db2"
    using assms(2) [OF T(2)] assms(3) unfolding does_def by blast
  then show "\<exists>db'. bind m f db = (Inr y, db') \<and> map_of (db_schemas db') sg = Some (apply_writes T (ws @ vs)) \<and> only_schemas db db'"
    using db1 only_schemas_trans by (fastforce simp: bind_def apply_writes_append)
qed

lemma does_andthen:
  "does sg P x ws m \<Longrightarrow> (\<And>T. P T \<Longrightarrow> Q (apply_writes T ws)) \<Longrightarrow> does sg Q y vs n \<Longrightarrow> does sg P y (ws @ vs) (andthen m n)"
  unfolding andthen_def by (rule does_bind)

lemma does_for_each:
  assumes "\<And>x. x \<in> set xs \<Longrightarrow> does sg P () (ws x) (f x)" "\<And>x T. x \<in> set xs \<Longrightarrow> P T \<Longrightarrow> P (apply_writes T (ws x))"
  shows "does sg P () (concat (map ws xs)) (for_each xs f)"
  using assms
proof (induction xs)
  case (Cons x xs)
  have "does sg P () (ws x) (f x)" "does sg P () (concat (map ws xs)) (for_each xs f)"
    using Cons by simp_all
  from does_bind [OF this(1) _ this(2)] Cons.prems(2) [of x] show ?case by simp
qed (simp add: does_ret)

lemma does_first: "does sg P x [] m \<Longrightarrow> does sg P y ws (f x) \<Longrightarrow> does sg P y ws (bind m f)"
  using does_bind [where Q = P and ws = "[]" and vs = ws and f = f and m = m and x = x] by simp

section \<open>The steps of a block\<close>

lemma does_upsert_records:
  assumes "\<forall>r \<in> set rs. ev_subgraph r = sg"
  shows "does sg P () (map WEntity rs) (upsert_records rs)"
proof -
  have "does sg (\<lambda>_. True) () (concat (map (\<lambda>r. [WEntity r]) rs)) (upsert_records rs)"
    unfolding upsert_records_def using assms
    by (intro does_for_each does_execute) (auto simp: upsert_entity_version_def)
  then show ?thesis by (auto simp: does_def)
qed

lemma snapshot_of_tables: "map_of (rev (map (\<lambda>r. ((sr_type r, sr_id r), sr_payload r)) (snapshot_rows T))) = snapshot_of (st_entities T)"
  by (simp add: snapshot_of_def snapshot_rows_def)

lemma loaded_snapshot:
  "map_of (db_schemas db) sg = Some T \<Longrightarrow> load_entity_snapshot sg db = (Inr (snapshot_of (st_entities T)), db)"
  by (simp add: load_entity_snapshot_def bind_def query_def ret_def snapshot_entities_def query_schema_def snapshot_of_tables)

lemma looked_up:
  "map_of (db_schemas db) sg = Some T \<Longrightarrow>
    lookup_covenant_utxo db sg (ii_previous_tx i) (u32_as_i32 (ii_previous_index i)) = Inr (tracked_output T i)"
  by (simp add: lookup_covenant_utxo_def query_schema_def tracked_output_def)

lemma grouped_inputs:
  "map_of (db_schemas db) sg = Some T \<Longrightarrow> group_consumed sg is m db =
    (Inr (foldl (\<lambda>m i. case tracked_output T i of None \<Rightarrow> m | Some x \<Rightarrow> push_consumed i x m) m is), db)"
  by (induction "is" arbitrary: m) (simp_all add: ret_def bind_def query_def looked_up)

lemma classified:
  assumes "map_of (db_schemas db) sg = Some T"
  shows "\<exists>c. classify_lineage env sg hit is db = (Inr c, db) \<and> lc_covenant_id c = covenant_of env T hit is"
proof (induction "is")
  case (Cons i "is")
  show ?case
  proof (cases "ii_spending_tx i = dp_tx_hash hit")
    case True
    then show ?thesis
      using Cons by (cases "consumed_covenant T i")
        (auto simp: bind_def query_def looked_up [OF assms] consumed_covenant_def covenant_of_def ret_def)
  next
    case False
    then show ?thesis using Cons by (simp add: covenant_of_def)
  qed
qed (simp add: ret_def covenant_of_def)

lemma dispatched_spend_records:
  "dispatch_spend_hit m spend prior daa bh h sg snap = Inr (rs, out) \<Longrightarrow> r \<in> set rs \<Longrightarrow>
    ev_subgraph r = sg \<and> ev_block_daa r = u64_as_i64 daa"
  by (auto simp: dispatch_spend_hit_def entity_versions_def split: sum.splits)

lemma spend_records_subgraph: "r \<in> set (spend_records sg m b snap operation successor spent) \<Longrightarrow>
    ev_subgraph r = sg \<and> ev_block_daa r = u64_as_i64 (i64_as_u64 (bb_daa b))"
  by (auto simp: spend_records_def dest: dispatched_spend_records [OF sym] split: option.splits sum.splits)

lemma does_dispatch_spend:
  "does sg P () (map WEntity (spend_records sg m b snap operation successor spent)) (dispatch_spend sg m b snap operation successor spent)"
proof -
  have "dispatch_spend sg m b snap operation successor spent = upsert_records (spend_records sg m b snap operation successor spent)"
    by (auto simp: dispatch_spend_def spend_records_def upsert_records_def split: option.split sum.split)
  then show ?thesis using does_upsert_records spend_records_subgraph by metis
qed

text \<open>Recording spends reads the outputs, which no spend changes.\<close>

lemma spends_keep_utxos: "utxos_of ws = [] \<Longrightarrow> st_utxos (apply_writes T ws) = st_utxos T"
  by (simp add: apply_writes_tables utxo_tbl.put_def)

lemma utxos_of_simps [simp]:
  "utxos_of [] = []" "utxos_of (WSpend r # ws) = utxos_of ws" "utxos_of (WEntity e # ws) = utxos_of ws"
  "utxos_of (WUtxo u # ws) = u # utxos_of ws" "utxos_of (map WEntity rs) = []"
  by (simp_all add: utxos_of_def comp_def)

lemma utxos_of_concat: "utxos_of (concat wss) = concat (map utxos_of wss)"
  by (induction wss) (simp_all add: utxos_of_def)

lemma does_consumed:
  fixes T0 tx consumed env snap m b sg
  defines "ws \<equiv> concat (map (\<lambda>(i, spent).
      WSpend (spend_record_of sg b i spent (spend_successor T0 tx spent)) #
      map WEntity (spend_records sg m b snap (spend_operation env T0 tx consumed) (spend_successor T0 tx spent) spent)) consumed)"
  shows "does sg (\<lambda>T. st_utxos T = st_utxos T0) () ws (persist_consumed env sg m b snap (tx, consumed))"
    "utxos_of ws = []"
proof -
  let ?P = "\<lambda>T. st_utxos T = st_utxos T0"
  let ?op = "spend_operation env T0 tx consumed"
  let ?one = "\<lambda>(i, spent). WSpend (spend_record_of sg b i spent (spend_successor T0 tx spent)) #
      map WEntity (spend_records sg m b snap ?op (spend_successor T0 tx spent) spent)"
  have none: "utxos_of (?one x) = []" for x by (cases x) simp
  show "utxos_of ws = []" by (simp add: ws_def utxos_of_concat none)
  have op: "does sg ?P ?op [] (spend_operation_of env sg tx consumed)"
  proof (cases "list_all (\<lambda>(i, m). um_kind m = ''KCC20Asset'') consumed")
    case True
    show ?thesis
      unfolding spend_operation_of_def if_P [OF True]
      by (rule does_first [OF does_query [where x = "map utxo_match_of (sort_key cu_output_index (filter (\<lambda>r. cu_tx_hash r = tx) (st_utxos T0)))"]])
        (simp_all add: covenant_utxos_created_by_tx_def query_schema_def spend_operation_def True does_ret)
  qed (simp add: spend_operation_of_def spend_operation_def does_ret)
  have succ: "does sg ?P (spend_successor T0 tx spent) [] (successor_of sg tx spent)" for spent
  proof (cases "um_covenant_id spent")
    case (Some c)
    show ?thesis
      unfolding successor_of_def Some option.case
      by (rule does_first [OF does_query [where x = "\<exists>r \<in> set (st_utxos T0). cu_tx_hash r = tx \<and> cu_covenant_id r = Some c"]])
        (simp_all add: covenant_lineage_continues_def query_schema_def list_ex_iff spend_successor_def Some does_ret)
  qed (simp add: successor_of_def spend_successor_def does_ret)
  have one: "does sg ?P () (?one (i, spent)) (bind (successor_of sg tx spent) (\<lambda>successor.
      andthen (execute (\<lambda>db. record_covenant_spend db (spend_record_of sg b i spent successor)))
        (dispatch_spend sg m b snap ?op successor spent)))" for i spent
  proof -
    let ?s = "spend_record_of sg b i spent (spend_successor T0 tx spent)"
    have "does sg ?P () [WSpend ?s] (execute (\<lambda>db. record_covenant_spend db ?s))"
      by (rule does_execute) (simp add: record_covenant_spend_def spend_record_of_def)
    from does_andthen [OF this _ does_dispatch_spend [of sg "\<lambda>_. True" m b snap ?op "spend_successor T0 tx spent" spent]]
    have "does sg ?P () (?one (i, spent)) (andthen (execute (\<lambda>db. record_covenant_spend db ?s))
        (dispatch_spend sg m b snap ?op (spend_successor T0 tx spent) spent))" by simp
    then show ?thesis by (intro does_first [OF succ])
  qed
  have "does sg ?P () ws (for_each consumed (\<lambda>(i, spent). bind (successor_of sg tx spent) (\<lambda>successor.
      andthen (execute (\<lambda>db. record_covenant_spend db (spend_record_of sg b i spent successor)))
        (dispatch_spend sg m b snap ?op successor spent))))"
    unfolding ws_def
  proof (rule does_for_each)
    fix x and T :: schema_tables assume "st_utxos T = st_utxos T0"
    then show "st_utxos (apply_writes T (?one x)) = st_utxos T0" using spends_keep_utxos [OF none] by simp
  qed (use one in auto)
  then show "does sg ?P () ws (persist_consumed env sg m b snap (tx, consumed))"
    unfolding persist_consumed_def prod.case by (intro does_first [OF op])
qed

lemma does_spends:
  "does sg (\<lambda>T. T = T0) () (spend_writes env sg m b T0) (persist_spends env sg (Some m) b)"
proof (cases "bb_inputs b = []")
  case True
  then show ?thesis by (simp add: persist_spends_def spend_writes_def consumed_by_tx_def does_ret)
next
  case False
  let ?snap = "snapshot_of (st_entities T0)"
  have "does sg (\<lambda>T. st_utxos T = st_utxos T0) () (spend_writes env sg m b T0)
      (for_each (consumed_by_tx T0 (bb_inputs b)) (persist_consumed env sg m b ?snap))"
    unfolding spend_writes_def
  proof (rule does_for_each)
    show "does sg (\<lambda>T. st_utxos T = st_utxos T0) ()
        (case x of (tx, consumed) \<Rightarrow> concat (map (\<lambda>(i, spent).
          WSpend (spend_record_of sg b i spent (spend_successor T0 tx spent)) #
          map WEntity (spend_records sg m b ?snap (spend_operation env T0 tx consumed) (spend_successor T0 tx spent) spent)) consumed))
        (persist_consumed env sg m b ?snap x)" for x
      using does_consumed(1) by (cases x) simp
    fix x and T :: schema_tables assume "st_utxos T = st_utxos T0"
    then show "st_utxos (apply_writes T (case x of (tx, consumed) \<Rightarrow> concat (map (\<lambda>(i, spent).
          WSpend (spend_record_of sg b i spent (spend_successor T0 tx spent)) #
          map WEntity (spend_records sg m b ?snap (spend_operation env T0 tx consumed) (spend_successor T0 tx spent) spent)) consumed))) =
        st_utxos T0"
      using spends_keep_utxos [OF does_consumed(2)] by (cases x) simp
  qed
  then show ?thesis
    using False unfolding does_def persist_spends_def consumed_by_tx_def
    by (auto simp: bind_def grouped_inputs loaded_snapshot)
qed

text \<open>A hit: everything before the lineage step succeeds, and that step leaves the schemas alone.\<close>

abbreviation locked_output :: "node_env \<Rightarrow> string \<Rightarrow> bootstrap_block \<Rightarrow> schema_tables \<Rightarrow> detected_pattern \<Rightarrow> schema_write" where
  "locked_output env sg b T hit \<equiv> WUtxo (utxo_record_of sg b hit (Some (covenant_of env T hit (bb_inputs b))))"

lemma hit_step:
  assumes "map_of (db_schemas (ns_db s)) sg = Some T"
  shows "\<exists>c s1. persist_hit env sg True hub b hit s = on_db (persist_lineage env sg hit c (bb_daa b)) s1 \<and>
    ns_ingestion s1 = ns_ingestion s \<and> map_of (db_schemas (ns_db s1)) sg = Some (apply_write T (locked_output env sg b T hit)) \<and>
    db_poi (ns_db s1) = db_poi (ns_db s) \<and> db_committed (ns_db s1) = db_committed (ns_db s) \<and>
    db_heads (ns_db s1) = db_heads (ns_db s) \<and> db_rows (ns_db s1) = db_rows (ns_db s)"
proof -
  obtain c where c: "classify_lineage env sg hit (bb_inputs b) (ns_db s) = (Inr c, ns_db s)"
      "lc_covenant_id c = covenant_of env T hit (bb_inputs b)"
    using classified [OF assms] by blast
  let ?id = "Some (covenant_of env T hit (bb_inputs b))"
  let ?s1 = "s\<lparr>ns_db := insert_detected_pattern (ns_db s) (detected_record_of sg b hit ?id)\<rparr>"
  have "\<exists>s2. publish_hit_to_stream hub b hit q = (Inr (), s2) \<and> ns_db s2 = ns_db q \<and> ns_ingestion s2 = ns_ingestion q" for q
    by (cases hub) (simp_all add: publish_hit_to_stream_def Let_def ret_def update_def)
  from this [of ?s1] obtain s2 where
    s2: "publish_hit_to_stream hub b hit ?s1 = (Inr (), s2)" "ns_db s2 = ns_db ?s1" "ns_ingestion s2 = ns_ingestion s"
    by auto
  let ?db = "(ns_db s2)\<lparr>db_schemas := bt_insert sg (apply_write T (locked_output env sg b T hit)) (db_schemas (ns_db s2))\<rparr>"
  have "map_of (db_schemas (ns_db s2)) sg = Some T" using assms s2(2) by (simp add: insert_detected_pattern_def)
  then have track: "track_covenant_utxo (ns_db s2) (utxo_record_of sg b hit ?id) = Inr ?db"
    by (simp add: track_covenant_utxo_def utxo_record_of_def execute_schema_def)
  have "persist_hit env sg True hub b hit s = on_db (persist_lineage env sg hit c (bb_daa b)) (s2\<lparr>ns_db := ?db\<rparr>)"
    using c s2(1) track by (simp add: persist_hit_def bind_def andthen_def on_db_def ret_def update_def execute_def Let_def)
  moreover have "db_poi ?db = db_poi (ns_db s) \<and> db_committed ?db = db_committed (ns_db s) \<and> db_heads ?db = db_heads (ns_db s) \<and>
      db_rows ?db = db_rows (ns_db s)"
    by (simp add: s2(2) insert_detected_pattern_def)
  ultimately show ?thesis using s2(3) by (intro exI [of _ c] exI [of _ "s2\<lparr>ns_db := ?db\<rparr>"]) simp
qed

lemma lineage_frame:
  assumes "persist_lineage env sg hit c daa db = (r, db')"
  shows "db_schemas db' = db_schemas db \<and> db_poi db' = db_poi db \<and> db_committed db' = db_committed db"
proof -
  have "preserves (\<lambda>q. db_schemas q = db_schemas db \<and> db_poi q = db_poi db \<and> db_committed q = db_committed db)
      (persist_lineage env sg hit c daa)"
    unfolding persist_lineage_def Let_def next_lineage_step_def
    by (auto intro!: preserves_rules preserves_execute
        simp: upsert_covenant_lineage_head_def insert_covenant_lineage_row_def split: if_splits)
  then show ?thesis using assms by (simp add: preserves_def) (metis snd_conv)
qed

lemma hits_written:
  assumes "for_each hits (persist_hit env sg True hub b) s = (Inr (), s')" "map_of (db_schemas (ns_db s)) sg = Some T"
  shows "map_of (db_schemas (ns_db s')) sg = Some (apply_writes T (hit_writes env sg b T hits)) \<and>
    db_poi (ns_db s') = db_poi (ns_db s) \<and> db_committed (ns_db s') = db_committed (ns_db s) \<and> ns_ingestion s' = ns_ingestion s"
  using assms
proof (induction hits arbitrary: s T)
  case Nil
  then show ?case by (simp add: ret_def)
next
  case (Cons hit hits)
  let ?T = "apply_write T (locked_output env sg b T hit)"
  obtain s1 where s1: "persist_hit env sg True hub b hit s = (Inr (), s1)"
      "for_each hits (persist_hit env sg True hub b) s1 = (Inr (), s')"
    using Cons.prems(1) by (auto simp: bind_Inr)
  obtain c s2 where s2: "on_db (persist_lineage env sg hit c (bb_daa b)) s2 = (Inr (), s1)" "ns_ingestion s2 = ns_ingestion s"
      "map_of (db_schemas (ns_db s2)) sg = Some ?T" "db_poi (ns_db s2) = db_poi (ns_db s)" "db_committed (ns_db s2) = db_committed (ns_db s)"
    using hit_step [OF Cons.prems(2), of env hub b hit] s1(1) by metis
  then obtain db1 where "persist_lineage env sg hit c (bb_daa b) (ns_db s2) = (Inr (), db1)" "s1 = s2\<lparr>ns_db := db1\<rparr>"
    by (auto simp: on_db_Inr)
  with lineage_frame [OF this(1)] s2(2-5)
  have "map_of (db_schemas (ns_db s1)) sg = Some ?T" "db_poi (ns_db s1) = db_poi (ns_db s)"
      "db_committed (ns_db s1) = db_committed (ns_db s)" "ns_ingestion s1 = ns_ingestion s"
    by simp_all
  with Cons.IH [OF s1(2) this(1)] show ?case by (simp add: Let_def)
qed

text \<open>The dispatch of the hits, and the spends, on the tables they meet.\<close>

lemma dispatched_hits:
  assumes "map_of (db_schemas (ns_db s)) sg = Some T" "lm_subgraph m = sg"
    and "block_records m T' b = rs" "st_entities T = st_entities T'"
  shows "\<exists>s'. on_db (bind (load_entity_snapshot sg) (\<lambda>snapshot.
      let records = dispatch_committed_hits m (i64_as_u64 (bb_daa b)) (bb_hash b) (bb_hits b) snapshot
      in andthen (upsert_records records) (ret records))) s = (Inr rs, s') \<and> ns_ingestion s' = ns_ingestion s \<and>
    map_of (db_schemas (ns_db s')) sg = Some (apply_writes T (map WEntity rs)) \<and> only_schemas (ns_db s) (ns_db s')"
proof -
  have "does sg (\<lambda>_. True) () (map WEntity rs) (upsert_records rs)"
    using dispatch_records assms(2,3) by (intro does_upsert_records) (auto simp: block_records_def)
  then obtain db' where "upsert_records rs (ns_db s) = (Inr (), db')" "map_of (db_schemas db') sg = Some (apply_writes T (map WEntity rs))"
      "only_schemas (ns_db s) db'"
    using assms(1) unfolding does_def by blast
  then show ?thesis
    using loaded_snapshot [OF assms(1)] assms(3,4)
    by (intro exI [of _ "s\<lparr>ns_db := db'\<rparr>"]) (simp add: on_db_def bind_def andthen_def ret_def Let_def block_records_def)
qed

lemma spends_written:
  assumes "map_of (db_schemas (ns_db s)) sg = Some T"
  shows "\<exists>s'. on_db (persist_spends env sg (Some m) b) s = (Inr (), s') \<and> ns_ingestion s' = ns_ingestion s \<and>
    map_of (db_schemas (ns_db s')) sg = Some (apply_writes T (spend_writes env sg m b T)) \<and> only_schemas (ns_db s) (ns_db s')"
proof -
  obtain db' where "persist_spends env sg (Some m) b (ns_db s) = (Inr (), db')"
      "map_of (db_schemas db') sg = Some (apply_writes T (spend_writes env sg m b T))" "only_schemas (ns_db s) db'"
    using does_spends [of sg T env m b] assms unfolding does_def by blast
  then show ?thesis by (intro exI [of _ "s\<lparr>ns_db := db'\<rparr>"]) (simp add: on_db_def)
qed

lemma hit_writes_entities: "entities_of (hit_writes env sg b T hits) = []" "spends_of (hit_writes env sg b T hits) = []"
  by (induction hits arbitrary: T) (simp_all add: Let_def entities_of_def spends_of_def)

lemma hits_keep_entities: "st_entities (apply_writes T (hit_writes env sg b T hits)) = st_entities T"
  by (simp add: apply_writes_tables hit_writes_entities entity_tbl.put_def)

text \<open>What a block leaves, once the steps of its hits have succeeded.\<close>

lemma block_after_hits:
  fixes m env b T s sg
  defines "i \<equiv> canonical_bytes_for_entities (env_to_vec env) (block_records m T b)"
    and "s0 \<equiv> s\<lparr>ns_db := record_committed_block (insert_rpc_block_audit (ns_db s)
        \<lparr>ra_block_hash = bb_hash b, ra_daa = bb_daa b, ra_served_by = bb_served_by b\<rparr>) (row_of sg b)\<rparr>"
  assumes sg: "lm_subgraph m = sg" and T: "map_of (db_schemas (ns_db s)) sg = Some T"
    and hits: "for_each (bb_hits b) (persist_hit env sg True hub b) s0 = (Inr (), s1)"
  shows "\<exists>s'. persist_block env sg (Some m) hub b s = (Inr (), s') \<and>
    db_poi (ns_db s') = db_poi (insert_poi_checkpoint (ns_db s) (poi_of sg b (env_hash env (ing_prior_poi (ns_ingestion s) @ i)))) \<and>
    db_committed (ns_db s') = db_committed (record_committed_block (ns_db s) (row_of sg b)) \<and>
    ns_ingestion s' = reseed_prior_poi (env_hash env (ing_prior_poi (ns_ingestion s) @ i)) (ns_ingestion s) \<and>
    map_of (db_schemas (ns_db s')) sg = Some (index_block env m T b) \<and>
    db_heads (ns_db s') = db_heads (ns_db s1) \<and> db_rows (ns_db s') = db_rows (ns_db s1)"
proof -
  let ?hw = "hit_writes env sg b T (bb_hits b)" and ?rs = "block_records m T b"
  have s0: "map_of (db_schemas (ns_db s0)) sg = Some T" "db_poi (ns_db s0) = db_poi (ns_db s)"
      "db_committed (ns_db s0) = db_committed (record_committed_block (ns_db s) (row_of sg b))" "ns_ingestion s0 = ns_ingestion s"
    using T by (simp_all add: s0_def record_committed_block_def insert_rpc_block_audit_def)
  note written = hits_written [OF hits s0(1)]
  let ?T1 = "apply_writes T ?hw"
  obtain s2 where s2: "persist_hits env sg (Some m) hub b s0 = (Inr ?rs, s2)" "ns_ingestion s2 = ns_ingestion s1"
      "map_of (db_schemas (ns_db s2)) sg = Some (apply_writes ?T1 (map WEntity ?rs))" "only_schemas (ns_db s1) (ns_db s2)"
  proof (cases "bb_hits b = []")
    case True
    then have "s1 = s0" "?rs = []" using hits by (simp_all add: ret_def block_records_def)
    then show ?thesis using that [of s0] True written by (simp add: persist_hits_def ret_def only_schemas_refl)
  next
    case False
    from dispatched_hits [of s1 sg ?T1 m T b ?rs] written hits_keep_entities [of T env sg b "bb_hits b"]
    show ?thesis
      using that False hits by (auto simp: sg persist_hits_def andthen_def bind_def)
  qed
  obtain s3 where s3: "on_db (persist_spends env sg (Some m) b) s2 = (Inr (), s3)" "ns_ingestion s3 = ns_ingestion s2"
      "map_of (db_schemas (ns_db s3)) sg = Some (index_block env m T b)" "only_schemas (ns_db s2) (ns_db s3)"
    using spends_written [OF s2(3), of env m b]
    by (auto simp: index_block_def block_writes_def Let_def apply_writes_append sg)
  note tables = only_schemas_tables [OF only_schemas_trans [OF s2(4) s3(4)]]
  let ?poi = "env_hash env (ing_prior_poi (ns_ingestion s) @ i)"
  have "canonical_bytes_for_entities ser rs \<noteq> []" for ser rs
    by (simp add: canonical_bytes_for_entities_def canonical_block_bytes_def u32_to_le_bytes_def)
  then have poi: "persist_poi env sg True b ?rs s3 = (Inr (), s3\<lparr>ns_ingestion := reseed_prior_poi ?poi (ns_ingestion s3),
      ns_db := insert_poi_checkpoint (ns_db s3) (poi_of sg b ?poi)\<rparr>)"
    using written s0(4) s2(2) s3(2)
    by (simp add: persist_poi_def compute_poi_def committed_poi_input_def i_def poi_of_def)
  have "persist_block env sg (Some m) hub b s = persist_poi env sg True b ?rs s3"
    using s2(1) s3(1) by (simp add: persist_block_def andthen_def bind_def s0_def row_of_def)
  then show ?thesis
    using poi written s0 s2(2) s3(2,3) tables by (simp add: insert_poi_checkpoint_def)
qed

lemma mapped_block:
  assumes "persist_block env (lm_subgraph m) (Some m) hub b s = (Inr (), s')" "map_of (db_schemas (ns_db s)) (lm_subgraph m) = Some T"
  defines "i \<equiv> canonical_bytes_for_entities (env_to_vec env) (block_records m T b)"
  shows "db_poi (ns_db s') = db_poi (insert_poi_checkpoint (ns_db s)
      (poi_of (lm_subgraph m) b (env_hash env (ing_prior_poi (ns_ingestion s) @ i))))"
    "db_committed (ns_db s') = db_committed (record_committed_block (ns_db s) (row_of (lm_subgraph m) b))"
    "ns_ingestion s' = reseed_prior_poi (env_hash env (ing_prior_poi (ns_ingestion s) @ i)) (ns_ingestion s)"
    "map_of (db_schemas (ns_db s')) (lm_subgraph m) = Some (index_block env m T b)"
proof -
  let ?s0 = "s\<lparr>ns_db := record_committed_block (insert_rpc_block_audit (ns_db s)
        \<lparr>ra_block_hash = bb_hash b, ra_daa = bb_daa b, ra_served_by = bb_served_by b\<rparr>) (row_of (lm_subgraph m) b)\<rparr>"
  have "\<exists>s1. for_each (bb_hits b) (persist_hit env (lm_subgraph m) True hub b) ?s0 = (Inr (), s1)"
  proof (cases "bb_hits b")
    case Nil
    then show ?thesis by (simp add: ret_def)
  next
    case Cons
    then show ?thesis using assms(1) by (auto simp: persist_block_def persist_hits_def andthen_Inr bind_Inr row_of_def)
  qed
  then obtain s1 where "for_each (bb_hits b) (persist_hit env (lm_subgraph m) True hub b) ?s0 = (Inr (), s1)" ..
  from block_after_hits [OF refl assms(2) this] assms(1)
  show "db_poi (ns_db s') = db_poi (insert_poi_checkpoint (ns_db s)
      (poi_of (lm_subgraph m) b (env_hash env (ing_prior_poi (ns_ingestion s) @ i))))"
    "db_committed (ns_db s') = db_committed (record_committed_block (ns_db s) (row_of (lm_subgraph m) b))"
    "ns_ingestion s' = reseed_prior_poi (env_hash env (ing_prior_poi (ns_ingestion s) @ i)) (ns_ingestion s)"
    "map_of (db_schemas (ns_db s')) (lm_subgraph m) = Some (index_block env m T b)"
    by (auto simp: i_def)
qed

end
