(* ===== verification/Mapped_Index.thy ===== *)
theory Mapped_Index
  imports Schema_Index
begin

text \<open>
  Subgraphs with a mapping: the node as a refinement of the reference indexer through commits and
  reorganisations, on the whole schema of the subgraph: its entity versions, covenant outputs and spends.
\<close>

section \<open>Scores and transactions of the rows\<close>

fun write_txs :: "schema_write \<Rightarrow> string set" where
  "write_txs (WEntity r) = {}"
| "write_txs (WUtxo r) = {cu_tx_hash r}"
| "write_txs (WSpend r) = {cs_spending_tx r}"

definition table_txs :: "schema_tables \<Rightarrow> string set" where
  "table_txs T = cu_tx_hash ` set (st_utxos T) \<union> cs_spending_tx ` set (st_spends T)"

definition table_scores :: "schema_tables \<Rightarrow> i64 set" where
  "table_scores T = ev_block_daa ` set (st_entities T) \<union> cu_daa ` set (st_utxos T) \<union> cs_daa ` set (st_spends T)"

definition block_txs :: "bootstrap_block \<Rightarrow> string set" where
  "block_txs b = dp_tx_hash ` set (bb_hits b) \<union> ii_spending_tx ` set (bb_inputs b)"

text \<open>Blocks above the rows of the tables: with higher scores, and no transaction twice.\<close>

definition above_rows :: "schema_tables \<Rightarrow> bootstrap_block list \<Rightarrow> bool" where
  "above_rows T bs \<longleftrightarrow> list_all (\<lambda>b. u64_as_i64 (i64_as_u64 (bb_daa b)) = bb_daa b \<and>
       (\<forall>d \<in> table_scores T. d < bb_daa b) \<and> block_txs b \<inter> table_txs T = {}) bs \<and>
     sorted_wrt (\<lambda>a b. block_txs a \<inter> block_txs b = {}) bs"

definition placed_above ::
  "schema_tables \<Rightarrow> poi_row list \<Rightarrow> committed_record list \<Rightarrow> bootstrap_block list \<Rightarrow> bool" where
  "placed_above T ps cs bs \<longleftrightarrow> placed ps cs bs \<and> above_rows T bs"

lemma placed_above_append: "placed_above T ps cs (as @ bs) \<Longrightarrow> placed_above T ps cs as"
  by (auto simp: placed_above_def above_rows_def sorted_wrt_append placed_append)

lemma write_rows:
  "table_txs (apply_write T w) \<subseteq> table_txs T \<union> write_txs w"
  "table_scores (apply_write T w) \<subseteq> insert (write_daa w) (table_scores T)"
proof -
  show "table_txs (apply_write T w) \<subseteq> table_txs T \<union> write_txs w"
    by (cases w) (auto simp: table_txs_def upsert_entity_row_def track_utxo_row_def record_spend_row_def
        tbl_upsert_def utxo_pk_def spend_pk_def)
  show "table_scores (apply_write T w) \<subseteq> insert (write_daa w) (table_scores T)"
    by (cases w) (auto simp: table_scores_def upsert_entity_row_def track_utxo_row_def record_spend_row_def
        tbl_upsert_def entity_pk_def)
qed

lemma writes_rows:
  "table_txs (apply_writes T ws) \<subseteq> table_txs T \<union> \<Union>(write_txs ` set ws) \<and>
    table_scores (apply_writes T ws) \<subseteq> table_scores T \<union> write_daa ` set ws"
proof (induction ws arbitrary: T)
  case (Cons w ws)
  show ?case using Cons.IH [of "apply_write T w"] write_rows [of T w] by auto
qed simp

definition consumed_in :: "ingested_input set \<Rightarrow> consumed_map \<Rightarrow> bool" where
  "consumed_in A m \<longleftrightarrow> (\<forall>e \<in> set m. \<forall>x \<in> set (snd e). fst x \<in> A)"

lemma consumed_in_insert: "consumed_in A m \<Longrightarrow> \<forall>x \<in> set xs. fst x \<in> A \<Longrightarrow> consumed_in A (bt_insert k xs m)"
  by (induction k xs m rule: bt_insert.induct) (auto simp: consumed_in_def)

lemma consumed_in_mono: "consumed_in A m \<Longrightarrow> A \<subseteq> B \<Longrightarrow> consumed_in B m"
  by (auto simp: consumed_in_def)

lemma consumed_in_push:
  assumes "consumed_in A m" "i \<in> A"
  shows "consumed_in A (push_consumed i x m)"
proof -
  have "\<forall>x \<in> set (case map_of m k of None \<Rightarrow> [] | Some xs \<Rightarrow> xs). fst x \<in> A" for k
  proof (cases "map_of m k")
    case (Some xs)
    then have "(k, xs) \<in> set m" by (rule map_of_SomeD)
    then show ?thesis using assms(1) Some by (fastforce simp: consumed_in_def)
  qed simp
  with assms show ?thesis
    unfolding push_consumed_def by (intro consumed_in_insert) auto
qed

lemma consumed_inputs:
  assumes "(tx, xs) \<in> set (consumed_by_tx T is)" "(i, spent) \<in> set xs"
  shows "i \<in> set is"
proof -
  have "consumed_in A (foldl (\<lambda>m i. case tracked_output T i of None \<Rightarrow> m | Some x \<Rightarrow> push_consumed i x m) m is)"
    if "consumed_in A m" "set is \<subseteq> A" for A m
    using that by (induction "is" arbitrary: m) (auto intro: consumed_in_push split: option.split)
  from this [of "set is" "[]"] have "consumed_in (set is) (consumed_by_tx T is)"
    by (simp add: consumed_by_tx_def consumed_in_def)
  then show ?thesis using assms by (force simp: consumed_in_def)
qed

lemma hit_writes_of_block:
  "w \<in> set (hit_writes env sg b T hits) \<Longrightarrow> write_daa w = bb_daa b \<and> write_txs w \<subseteq> dp_tx_hash ` set hits"
  by (induction hits arbitrary: T) (auto simp: Let_def utxo_record_of_def)

lemma spend_writes_of_block:
  assumes "w \<in> set (spend_writes env sg m b T)"
  shows "write_daa w \<in> {bb_daa b, u64_as_i64 (i64_as_u64 (bb_daa b))} \<and> write_txs w \<subseteq> ii_spending_tx ` set (bb_inputs b)"
  using assms unfolding spend_writes_def
  by (auto simp: spend_record_of_def dest: consumed_inputs spend_records_subgraph)

lemma block_writes_of_block:
  assumes "above_rows T0 bs" "b \<in> set bs" "w \<in> set (block_writes env m T b)"
  shows "write_daa w = bb_daa b \<and> write_txs w \<subseteq> block_txs b"
proof -
  have score: "u64_as_i64 (i64_as_u64 (bb_daa b)) = bb_daa b"
    using assms(1,2) by (auto simp: above_rows_def list_all_iff)
  from assms(3) consider "w \<in> set (hit_writes env (lm_subgraph m) b T (bb_hits b))"
    | "w \<in> WEntity ` set (block_records m T b)" | T' where "w \<in> set (spend_writes env (lm_subgraph m) m b T')"
    unfolding block_writes_def Let_def set_append by auto
  then show ?thesis
  proof cases
    case 1
    then show ?thesis using hit_writes_of_block by (fastforce simp: block_txs_def)
  next
    case 2
    then show ?thesis using score by (auto simp: block_records_def dest: dispatch_records)
  next
    case 3
    then show ?thesis using spend_writes_of_block score by (fastforce simp: block_txs_def)
  qed
qed

text \<open>A run of blocks as one list of writes.\<close>

lemma index_as_writes:
  assumes "above_rows T0 bs" "set u \<subseteq> set bs"
  shows "\<exists>ws. index_tables env m T u = apply_writes T ws \<and>
    (\<forall>w \<in> set ws. \<exists>b \<in> set u. write_daa w = bb_daa b \<and> write_txs w \<subseteq> block_txs b)"
  using assms(2)
proof (induction u arbitrary: T)
  case (Cons b u)
  let ?ws = "block_writes env m T b"
  from Cons.IH [of "index_block env m T b"] Cons.prems obtain vs where
    "index_tables env m (index_block env m T b) u = apply_writes (index_block env m T b) vs"
    "\<forall>w \<in> set vs. \<exists>b \<in> set u. write_daa w = bb_daa b \<and> write_txs w \<subseteq> block_txs b"
    by auto
  moreover have "\<forall>w \<in> set ?ws. write_daa w = bb_daa b \<and> write_txs w \<subseteq> block_txs b"
    using block_writes_of_block [OF assms(1)] Cons.prems by auto
  ultimately show ?case
    by (intro exI [of _ "?ws @ vs"]) (auto simp: index_tables_def index_block_def apply_writes_append)
qed (simp add: index_tables_def)

lemma index_rows:
  assumes "above_rows T bs"
  shows "table_txs (index_tables env m T bs) \<subseteq> table_txs T \<union> \<Union>(block_txs ` set bs)"
    "table_scores (index_tables env m T bs) \<subseteq> table_scores T \<union> bb_daa ` set bs"
proof -
  obtain ws where ws: "index_tables env m T bs = apply_writes T ws"
      "\<forall>w \<in> set ws. \<exists>b \<in> set bs. write_daa w = bb_daa b \<and> write_txs w \<subseteq> block_txs b"
    using index_as_writes [OF assms subset_refl] by blast
  have "\<Union>(write_txs ` set ws) \<subseteq> \<Union>(block_txs ` set bs)" using ws(2) by blast
  with writes_rows [of T ws] show "table_txs (index_tables env m T bs) \<subseteq> table_txs T \<union> \<Union>(block_txs ` set bs)"
    unfolding ws(1) by blast
  have "write_daa ` set ws \<subseteq> bb_daa ` set bs" using ws(2) by blast
  with writes_rows [of T ws] show "table_scores (index_tables env m T bs) \<subseteq> table_scores T \<union> bb_daa ` set bs"
    unfolding ws(1) by blast
qed

lemma unwind_below:
  assumes "\<forall>d \<in> table_scores T. d < c"
  shows "unwind_schema c T = T"
proof -
  have "\<forall>r \<in> set (st_entities T). ev_block_daa r < c" "\<forall>r \<in> set (st_utxos T). cu_daa r < c" "\<forall>r \<in> set (st_spends T). cs_daa r < c"
    using assms by (auto simp: table_scores_def)
  then show ?thesis
    by (simp add: unwind_schema_def unwind_entity_rows_def unwind_utxo_rows_def unwind_spend_rows_def tbl_delete_def
        filter_True not_le)
qed

lemma writes_of:
  "WUtxo r \<in> set ws \<longleftrightarrow> r \<in> set (utxos_of ws)" "WSpend q \<in> set ws \<longleftrightarrow> q \<in> set (spends_of ws)"
  by (induction ws) (auto simp: utxos_of_def spends_of_def split: schema_write.splits)

text \<open>Unwinding at the lowest score of the last blocks leaves the tables of the blocks before.\<close>

lemma unwound_index:
  assumes "placed_above T ps cs (bs @ u)" "u \<noteq> []"
  shows "unwind_schema (Min (set (map bb_daa u))) (index_tables env m T (bs @ u)) = index_tables env m T bs"
proof -
  let ?c = "Min (set (map bb_daa u))" and ?T = "index_tables env m T bs"
  have above: "above_rows T (bs @ u)" "above_rows T bs"
    using assms(1) placed_above_append [OF assms(1)] by (simp_all add: placed_above_def)
  obtain ws where ws: "index_tables env m ?T u = apply_writes ?T ws"
      "\<forall>w \<in> set ws. \<exists>b \<in> set u. write_daa w = bb_daa b \<and> write_txs w \<subseteq> block_txs b"
    using index_as_writes [OF above(1), of u env m ?T] by auto
  have high: "?c \<le> write_daa w" if "w \<in> set ws" for w
    using ws(2) that by fastforce
  have "d < ?c" if "d \<in> table_scores T \<union> bb_daa ` set bs" for d
    using that assms by (auto simp: placed_above_def placed_def above_rows_def sorted_wrt_append list_all_iff)
  then have low: "\<forall>d \<in> table_scores ?T. d < ?c" using index_rows(2) [OF above(2)] by blast
  have new: "block_txs b \<inter> table_txs T = {}" "\<forall>a \<in> set bs. block_txs a \<inter> block_txs b = {}" if "b \<in> set u" for b
    using that above(1) by (auto simp: above_rows_def sorted_wrt_append list_all_iff)
  have fresh: "write_txs w \<inter> table_txs ?T = {}" if "w \<in> set ws" for w
  proof -
    obtain b where b: "b \<in> set u" "write_txs w \<subseteq> block_txs b" using ws(2) \<open>w \<in> set ws\<close> by blast
    with new [OF b(1)] index_rows(1) [OF above(2), of env m] show ?thesis by blast
  qed
  have "utxo_tbl.one_sided ?c (set (utxos_of ws) \<union> set (st_utxos ?T))"
  proof (rule utxo_tbl.one_sided_split)
    show "\<forall>q \<in> set (utxos_of ws). ?c \<le> cu_daa q" using high [of "WUtxo _"] by (simp add: writes_of)
    show "\<forall>r \<in> set (st_utxos ?T). cu_daa r < ?c" using low by (auto simp: table_scores_def)
    show "\<forall>q \<in> set (utxos_of ws). \<forall>r \<in> set (st_utxos ?T). utxo_pk q \<noteq> utxo_pk r"
      using fresh [of "WUtxo _"] by (auto simp: writes_of table_txs_def utxo_pk_def)
  qed
  moreover have "spend_tbl.one_sided ?c (set (spends_of ws) \<union> set (st_spends ?T))"
  proof (rule spend_tbl.one_sided_split)
    show "\<forall>q \<in> set (spends_of ws). ?c \<le> cs_daa q" using high [of "WSpend _"] by (simp add: writes_of)
    show "\<forall>r \<in> set (st_spends ?T). cs_daa r < ?c" using low by (auto simp: table_scores_def)
    show "\<forall>q \<in> set (spends_of ws). \<forall>r \<in> set (st_spends ?T). spend_pk q \<noteq> spend_pk r"
      using fresh [of "WSpend _"] by (auto simp: writes_of table_txs_def spend_pk_def)
  qed
  moreover have "filter (\<lambda>w. write_daa w < ?c) ws = []"
    using high by (force simp: filter_empty_conv not_less)
  ultimately show ?thesis
    using unwind_writes [of ?c ws ?T] unwind_below [OF low] by (simp add: index_append ws(1))
qed

section \<open>The node refines the indexer\<close>

definition indexed_as ::
  "node_env \<Rightarrow> loaded_mapping \<Rightarrow> string \<Rightarrow> poi_row list \<Rightarrow> committed_record list \<Rightarrow> schema_tables
     \<Rightarrow> bootstrap_block list \<Rightarrow> node_state \<Rightarrow> bool" where
  "indexed_as env m sg ps cs T bs s \<longleftrightarrow>
     recorded_as env sg ps cs bs (index_inputs env m T bs) s \<and> map_of (db_schemas (ns_db s)) sg = Some (index_tables env m T bs)"

lemma index_above:
  assumes "indexed_as env m sg ps cs T bs s" "placed_above T ps cs (bs @ [b])" "lm_subgraph m = sg"
    and "persist_block env sg (Some m) hub b s = (Inr (), s')"
  shows "indexed_as env m sg ps cs T (bs @ [b]) s' \<and> (\<exists>p. ns_ingestion s' = reseed_prior_poi p (ns_ingestion s))"
proof -
  have rec: "recorded_as env sg ps cs bs (index_inputs env m T bs) s" "map_of (db_schemas (ns_db s)) sg = Some (index_tables env m T bs)"
    using assms(1) by (simp_all add: indexed_as_def)
  note block = mapped_block [of env m, unfolded assms(3), OF assms(4) rec(2)]
  have "placed ps cs (bs @ [b])" using assms(2) by (simp add: placed_above_def)
  from recorded_snoc [OF rec(1) this block(1-3)] block(3,4) show ?thesis
    by (auto simp: indexed_as_def index_append index_tables_def)
qed

lemma index_all_above:
  "indexed_as env m sg ps cs T bs s \<Longrightarrow> placed_above T ps cs (bs @ ws) \<Longrightarrow> lm_subgraph m = sg \<Longrightarrow>
    for_each ws (persist_block env sg (Some m) hub) s = (Inr (), s') \<Longrightarrow>
    indexed_as env m sg ps cs T (bs @ ws) s' \<and> (\<exists>p. ns_ingestion s' = reseed_prior_poi p (ns_ingestion s))"
proof (induction ws arbitrary: bs s)
  case Nil
  have "ns_ingestion s = reseed_prior_poi (ing_prior_poi (ns_ingestion s)) (ns_ingestion s)"
    by (simp add: reseed_prior_poi_def)
  then show ?case using Nil by (auto simp: ret_def)
next
  case (Cons b ws)
  obtain s1 where s1: "persist_block env sg (Some m) hub b s = (Inr (), s1)"
      "for_each ws (persist_block env sg (Some m) hub) s1 = (Inr (), s')"
    using Cons.prems(4) by (auto simp: bind_Inr)
  have "placed_above T ps cs (bs @ [b])" using placed_above_append [of T ps cs "bs @ [b]" ws] Cons.prems(2) by simp
  from index_above [OF Cons.prems(1) this Cons.prems(3) s1(1)]
  have s2: "indexed_as env m sg ps cs T (bs @ [b]) s1" "\<exists>p. ns_ingestion s1 = reseed_prior_poi p (ns_ingestion s)"
    by blast+
  from Cons.IH [OF s2(1) _ Cons.prems(3) s1(2)] Cons.prems(2) s2(2) show ?case
    by (auto simp: reseed_prior_poi_def)
qed

text \<open>An unwind from the end cannot fail. It leaves the tables of the blocks that stay, and of the lineage
  what the statement of the store leaves.\<close>

lemma index_unwound:
  assumes "indexed_as env m sg ps cs T (bs @ u) s" "placed_above T ps cs (bs @ u)"
    and "\<forall>r \<in> set ps. length (pr_hash r) = 32" "hash32 env"
  shows "\<exists>s'. persist_unwinds sg True u s = (Inr (), s') \<and> indexed_as env m sg ps cs T bs s' \<and>
    (\<exists>p. ns_ingestion s' = reseed_prior_poi p (ns_ingestion s)) \<and>
    (let db = if u = [] then ns_db s else snd (unwind_covenant_lineage (ns_db s) sg (Min (set (map bb_daa u))))
     in db_heads (ns_db s') = db_heads db \<and> db_rows (ns_db s') = db_rows db)"
proof (cases "u = []")
  case True
  have "ns_ingestion s = reseed_prior_poi (ing_prior_poi (ns_ingestion s)) (ns_ingestion s)"
    by (simp add: reseed_prior_poi_def)
  then show ?thesis using True assms(1) by (auto simp: persist_unwinds_def ret_def)
next
  case False
  let ?db1 = "snd (unwind_committed_blocks_for_subgraph (ns_db s) sg (map bb_hash u)
    ''virtualChainChanged removed_chain_block_hashes'')"
  let ?c = "Min (set (map bb_daa u))"
  have rec: "recorded_as env sg ps cs (bs @ u) (index_inputs env m T bs @ index_inputs env m (index_tables env m T bs) u) s"
    using assms(1) by (simp add: indexed_as_def index_append)
  note unwound = unwound_from_end [OF rec _ length_index_inputs assms(3,4)]
  have placed: "placed ps cs (bs @ u)" using assms(2) by (simp add: placed_above_def)
  have same: "db_schemas ?db1 = db_schemas (ns_db s)" "db_heads ?db1 = db_heads (ns_db s)" "db_rows ?db1 = db_rows (ns_db s)"
    by (simp_all add: unwind_committed_blocks_for_subgraph_def Let_def)
  have t: "map_of (db_schemas ?db1) sg = Some (index_tables env m T (bs @ u))"
    using assms(1) unfolding same by (simp add: indexed_as_def)
  let ?db2 = "snd (unwind_covenant_lineage (?db1\<lparr>db_schemas := bt_insert sg (unwind_schema ?c (index_tables env m T (bs @ u)))
      (db_schemas ?db1)\<rparr>) sg ?c)"
  have tables: "unwind_mapping_tables sg ?c ?db1 = (Inr (), ?db2)" by (rule unwind_mapping_tables_eq [OF t])
  have db2: "poi_rows sg ?db2 = poi_rows sg ?db1" "block_rows sg ?db2 = block_rows sg ?db1"
    by (simp_all add: unwind_covenant_lineage_def Let_def poi_rows_def block_rows_def)
  have lineage: "db_heads ?db2 = db_heads (snd (unwind_covenant_lineage (ns_db s) sg ?c))"
      "db_rows ?db2 = db_rows (snd (unwind_covenant_lineage (ns_db s) sg ?c))"
    using same by (simp_all add: unwind_covenant_lineage_def Let_def)
  have schema: "map_of (db_schemas ?db2) sg = Some (index_tables env m T bs)"
    by (simp add: unwind_covenant_lineage_def Let_def unwound_index [OF assms(2) False] del: set_map)
  obtain cp where cp: "latest_poi_for_subgraph ?db2 sg = Inr cp"
      "(case cp of None \<Rightarrow> genesis_poi | Some r \<Rightarrow> pr_hash r) = final_poi (env_hash env) (latest_hash ps) (index_inputs env m T bs)"
    using unwound(3) [OF placed db2(1)] by blast
  let ?s' = "s\<lparr>ns_db := ?db2, ns_ingestion := reseed_prior_poi
      (case cp of None \<Rightarrow> genesis_poi | Some r \<Rightarrow> pr_hash r) (ns_ingestion s)\<rparr>"
  have s': "persist_unwinds sg True u s = (Inr (), ?s')"
    using False tables cp(1)
    by (simp add: persist_unwinds_def andthen_def bind_def on_db_def update_def query_def ret_def del: set_map)
  have "recorded_as env sg ps cs bs (index_inputs env m T bs) ?s'"
    using unwound(1,2) [OF placed] db2 cp(2) by (simp add: recorded_as_def reseed_prior_poi_def)
  then show ?thesis
    using schema lineage s' False by (intro exI [of _ ?s']) (auto simp: indexed_as_def Let_def simp del: set_map)
qed

lemma notification_indexed:
  assumes n: "apply_notification (conv_of env) (ns_ingestion s) n = Returns (st, t)" and ok: "ing_ok (ns_ingestion s)"
    and bs: "map snd (ing_committed (ns_ingestion s)) = kept @ tr_unwinds t"
    and idx: "indexed_as env m sg ps cs T (kept @ tr_unwinds t) s"
    and placed: "placed_above T ps cs (kept @ tr_unwinds t)" "placed_above T ps cs (kept @ tr_writes t)"
    and hashes: "\<forall>r \<in> set ps. length (pr_hash r) = 32" "hash32 env"
    and m: "lm_subgraph m = sg"
    and run: "apply_and_persist_notification env sg (Some m) hub n s = (Inr out, s')"
  shows "indexed_as env m sg ps cs T (kept @ tr_writes t) s' \<and> (\<exists>p. ns_ingestion s' = reseed_prior_poi p st) \<and>
    ing_ok st \<and> map snd (ing_committed st) = kept @ tr_writes t"
proof -
  note step = apply_notification_ledger [OF n ok]
  have "ing_committed (ns_ingestion s) = by_score (kept @ tr_unwinds t)"
    using by_score_keyed [of "ing_committed (ns_ingestion s)"] ok bs by (simp add: ing_ok_def)
  then have "ing_committed st = by_score (kept @ tr_writes t)"
    using step [THEN conjunct2] placed unfolding placed_above_def placed_def by (metis ledger_step_tail)
  then have committed: "map snd (ing_committed st) = kept @ tr_writes t" by simp
  obtain s1 where s1: "persist_unwinds sg True (tr_unwinds t) (s\<lparr>ns_ingestion := st\<rparr>) = (Inr (), s1)"
      "for_each (tr_writes t) (persist_block env sg (Some m) hub) s1 = (Inr (), s')"
    using run n by (auto simp: apply_and_persist_notification_def ingest_def bind_Inr andthen_Inr ret_def)
  have "indexed_as env m sg ps cs T (kept @ tr_unwinds t) (s\<lparr>ns_ingestion := st\<rparr>)"
    using idx apply_notification_frame [OF n] by (simp add: indexed_as_def recorded_as_def)
  from index_unwound [OF this placed(1) hashes] s1(1)
  have u: "indexed_as env m sg ps cs T kept s1" "\<exists>p. ns_ingestion s1 = reseed_prior_poi p st" by auto
  from index_all_above [OF u(1) placed(2) m s1(2)] u(2) step committed show ?thesis
    by (auto simp: reseed_prior_poi_def)
qed

section \<open>Properties\<close>


text \<open>A mapping with a handler for locked ownables, a block with such an output and a block that spends it.\<close>

definition vault_mapping :: loaded_mapping where
  "vault_mapping = idle_mapping\<lparr>lm_descriptor := \<lparr>bd_name = ''main'', bd_wasm = ''main.wasm'',
       bd_data_sources = [\<lparr>ds_name = ''vaults'', ds_kind = ''covenant'', ds_patterns = [''OpenSilverOwnable''], ds_collection = None,
         ds_addresses = [], ds_handlers = [\<lparr>dh_event = ''CovenantLocked'', dh_handler = ''onLocked''\<rparr>]\<rparr>]\<rparr>,
     lm_runtime := (\<lambda>e _. Inr \<lparr>do_logs = [], do_entity_ops = [\<lparr>eo_entity = ''Vault'', eo_id = me_block_hash e, eo_data = JNull\<rparr>],
       do_fuel = 1\<rparr>)\<rparr>"

definition vault_node :: node where
  "vault_node = \<lparr>nd_db = empty_db\<lparr>db_schemas := [(''main'', empty_schema)]\<rparr>,
     nd_runtimes = [\<lparr>rt_subgraph = ''main'', rt_ingestion = with_finality_depth None, rt_mapping = Some vault_mapping\<rparr>],
     nd_published = []\<rparr>"

definition vault_block :: "json \<Rightarrow> u8 list \<Rightarrow> u8 list \<Rightarrow> bootstrap_block" where
  "vault_block p bytes script = \<lparr>bb_hash = ''a'', bb_daa = 5, bb_blue = 5, bb_served_by = ''rpc'', bb_finalized = True,
     bb_bytes = bytes, bb_outputs = [\<lparr>io_tx_hash = ''t'', io_output_index = 0, io_script = script, io_value = 1\<rparr>], bb_inputs = [],
     bb_hits = [\<lparr>dp_kind = OpenSilverOwnable, dp_covenant_id = None, dp_tx_hash = ''t'', dp_output_index = 0, dp_payload = p\<rparr>]\<rparr>"

lemma ownable_block:
  "\<exists>script p bytes. block_from_rpc base16_decode base16_encode ser (script_block script) = Returns (vault_block p bytes script)"
proof -
  obtain reg where reg: "build_registry base16_decode = Returns reg" "disjoint_registry reg"
      "map entry_kind reg = map fst registry_signatures"
    using registry_disjoint by blast
  then obtain e where e: "e \<in> set reg" "entry_kind e = OpenSilverOwnable"
    by (cases reg) (auto simp: registry_signatures_def)
  let ?script = "pm_instance (entry_matcher e) (\<lambda>_. []) []"
  have "pm_ok (entry_matcher e)" using reg(2) e by (auto simp: disjoint_registry_def)
  then obtain out where "detect_entries base16_encode ?script ''t'' 0 reg = Returns [\<lparr>dp_kind = OpenSilverOwnable,
      dp_covenant_id = None, dp_tx_hash = ''t'', dp_output_index = 0, dp_payload = payload_to_json base16_encode out\<rparr>]"
    using detect_disjoint [OF reg(2) e(1) pm_instance_matches, where hexe = base16_encode and tx = "''t''" and ix = 0] e(2)
    by metis
  then show ?thesis
    by (auto simp: block_from_rpc_def script_block_def header_block_def detect_in_output_def reg(1) vault_block_def
        u64_as_i64_def intro!: exI [of _ ?script])
qed

definition spending_block :: ingested_block where
  "spending_block = (header_block ''b'' 7 True)\<lparr>ib_inputs := [\<lparr>ii_spending_tx = ''u'', ii_previous_tx = ''t'', ii_previous_index = 0\<rparr>]\<rparr>"

definition spent_block :: bootstrap_block where
  "spent_block = (case conv_of sample_env spending_block of Returns b \<Rightarrow> b)"

lemma spending_conv: "conv_of sample_env spending_block = Returns spent_block"
  by (simp add: spent_block_def block_from_rpc_def spending_block_def header_block_def)

text \<open>Handling an added block that is already converted.\<close>

definition persist_added :: "node_env \<Rightarrow> string \<Rightarrow> loaded_mapping option \<Rightarrow> bool \<Rightarrow> bootstrap_block \<Rightarrow> (node_state, notification_outcome) act" where
  "persist_added env sg mapping hub b = (\<lambda>s. case apply_block (ns_ingestion s) b of (st, t) \<Rightarrow>
     andthen (persist_unwinds sg (mapping \<noteq> None) (tr_unwinds t))
       (andthen (for_each (tr_writes t) (persist_block env sg mapping hub))
         (ret \<lparr>no_recovery = tr_recovery t, no_committed = length (tr_writes t)\<rparr>)) (s\<lparr>ns_ingestion := st\<rparr>))"

lemma persist_added:
  "conv_of env rb = Returns b \<Longrightarrow> apply_and_persist_notification env sg mapping hub (BlockAdded rb) = persist_added env sg mapping hub b"
  by (rule ext) (simp add: apply_and_persist_notification_def ingest_def bind_def persist_added_def split: prod.split)

lemma vault_run:
  "case persist_added sample_env ''main'' (Some vault_mapping) True (vault_block p bytes script)
      \<lparr>ns_db = nd_db vault_node, ns_ingestion = with_finality_depth None, ns_published = []\<rparr> of
    (r1, s1) \<Rightarrow> (case r1 of Inl _ \<Rightarrow> False | Inr _ \<Rightarrow>
      (case persist_added sample_env ''main'' (Some vault_mapping) True spent_block s1 of
        (r2, s2) \<Rightarrow> (case r2 of Inl _ \<Rightarrow> False | Inr _ \<Rightarrow> True)))"
  by code_simp

lemma vault_transitions:
  "case apply_block (with_finality_depth None) (vault_block p bytes script) of (st1, t1) \<Rightarrow>
    (case apply_block st1 spent_block of (st2, t2) \<Rightarrow>
      tail_log (placed_above empty_schema [] []) [] [t1, t2] \<and>
      map snd (ing_committed st2) = [vault_block p bytes script, spent_block])"
  by code_simp

lemma vault_writes:
  "case apply_block (with_finality_depth None) (vault_block p bytes script) of (st1, t1) \<Rightarrow>
    (case apply_block st1 spent_block of (st2, t2) \<Rightarrow>
      tr_unwinds t1 = [] \<and> tr_unwinds t2 = [] \<and> tr_writes t1 = [vault_block p bytes script] \<and> tr_writes t2 = [spent_block])"
  by code_simp

lemma vault_index:
  "let T = index_tables sample_env vault_mapping empty_schema [vault_block p bytes script, spent_block] in
    map ev_id (st_entities T) = [''a''] \<and> map cu_kind (st_utxos T) = [''OpenSilverOwnable''] \<and>
    map cs_spending_tx (st_spends T) = [''u'']"
  by code_simp


end
