(* ===== verification/Mapped_Run.thy ===== *)
theory Mapped_Run
  imports Mapped_Index
begin

text \<open>
  A node with one mapped subgraph runs without an error: with its schema in place and its lineage tables well
  formed, no statement a notification runs can fail, and the lineage stays well formed. The mapping may fail; its
  failures are not errors of the node.
\<close>

section \<open>The lineage through a block\<close>

lemma lineage_ok_cong: "db_heads db' = db_heads db \<Longrightarrow> db_rows db' = db_rows db \<Longrightarrow> lineage_ok sg db' = lineage_ok sg db"
  by (simp add: lineage_ok_def lineage_linked_def)

text \<open>The scores lineage rows can have: those of the rows at the start, and one per hit of a committed block.\<close>

definition hit_scores :: "bootstrap_block list \<Rightarrow> i64 list" where
  "hit_scores bs = concat (map (\<lambda>b. replicate (length (bb_hits b)) (bb_daa b)) bs)"

definition lineage_within :: "string \<Rightarrow> i64 list \<Rightarrow> store_db \<Rightarrow> bool" where
  "lineage_within sg X db \<longleftrightarrow> lineage_ok sg db \<and> mset (map lr_daa (db_rows db)) \<subseteq># mset X"

lemma lineage_within_cong:
  "db_heads db' = db_heads db \<Longrightarrow> db_rows db' = db_rows db \<Longrightarrow> lineage_within sg X db' = lineage_within sg X db"
  using lineage_ok_cong [of db' db sg] by (simp add: lineage_within_def)

lemma lineage_step_succeeds:
  assumes within: "lineage_within sg X db" and sg: "subgraph_id_new sg = Inr sg"
    and X: "\<forall>x \<in> set X. x \<le> daa" "length X < 2147483647" and small: "unat (dp_output_index hit) < 2 ^ 31"
  shows "\<exists>db'. persist_lineage env sg hit c daa db = (Inr (), db') \<and> lineage_within sg (X @ [daa]) db'"
proof -
  have ok: "lineage_ok sg db" and sub: "mset (map lr_daa (db_rows db)) \<subseteq># mset X"
    using within by (simp_all add: lineage_within_def)
  let ?rs = "rows_of (db_rows db) (lc_covenant_id c)"
  have "length ?rs \<le> length (db_rows db)" by (simp add: rows_of_def)
  also have "\<dots> \<le> length X" using size_mset_mono [OF sub] by simp
  finally have short: "length ?rs < 2147483647" using X(2) by simp
  have "lr_daa r \<in> set X" if "r \<in> set (db_rows db)" for r
    using mset_subset_eqD [OF sub, of "lr_daa r"] that by simp
  then have mono: "\<forall>r \<in> set ?rs. lr_daa r \<le> daa" using X(1) by (auto simp: rows_of_def)
  note step = persist_lineage_eq [OF ok sg short, of env hit daa]
  obtain db' where db': "persist_lineage env sg hit c daa db = (Inr (), db')" using step by blast
  have "mset (map lr_daa (db_rows db')) \<subseteq># mset (map lr_daa (db_rows db)) + {#daa#}"
    using db' step by (auto simp: Let_def next_row_def split: if_splits)
  also have "\<dots> \<subseteq># mset (X @ [daa])" using sub by simp
  finally have "mset (map lr_daa (db_rows db')) \<subseteq># mset (X @ [daa])" .
  moreover have "lineage_ok sg db'"
    using persist_lineage_ok [OF ok sg short mono small, of env] db' by simp
  ultimately show ?thesis using db' by (simp add: lineage_within_def)
qed

lemma hits_succeed:
  assumes "map_of (db_schemas (ns_db s)) sg = Some T" "lineage_within sg X (ns_db s)" "subgraph_id_new sg = Inr sg"
    and "\<forall>x \<in> set X. x \<le> bb_daa b" "length X + length hits < 2147483647" "\<forall>h \<in> set hits. unat (dp_output_index h) < 2 ^ 31"
  shows "\<exists>s'. for_each hits (persist_hit env sg True hub b) s = (Inr (), s') \<and>
    lineage_within sg (X @ replicate (length hits) (bb_daa b)) (ns_db s')"
  using assms(1,2,4-6)
proof (induction hits arbitrary: s T X)
  case Nil
  then show ?case by (simp add: ret_def)
next
  case (Cons hit hits)
  obtain c s1 where s1: "persist_hit env sg True hub b hit s = on_db (persist_lineage env sg hit c (bb_daa b)) s1"
      "map_of (db_schemas (ns_db s1)) sg = Some (apply_write T (locked_output env sg b T hit))"
      "db_heads (ns_db s1) = db_heads (ns_db s)" "db_rows (ns_db s1) = db_rows (ns_db s)"
    using hit_step [OF Cons.prems(1), of env hub b hit] by blast
  have "lineage_within sg X (ns_db s1)" using Cons.prems(2) lineage_within_cong [OF s1(3,4)] by simp
  from lineage_step_succeeds [OF this assms(3) Cons.prems(3), of hit env c] Cons.prems(4,5) obtain db' where
    db': "persist_lineage env sg hit c (bb_daa b) (ns_db s1) = (Inr (), db')" "lineage_within sg (X @ [bb_daa b]) db'"
    by auto
  let ?s2 = "s1\<lparr>ns_db := db'\<rparr>"
  have hit: "persist_hit env sg True hub b hit s = (Inr (), ?s2)" using s1(1) db'(1) by (simp add: on_db_def)
  have "map_of (db_schemas (ns_db ?s2)) sg = Some (apply_write T (locked_output env sg b T hit))"
    using lineage_frame [OF db'(1)] s1(2) by simp
  from Cons.IH [OF this, of "X @ [bb_daa b]"] db'(2) Cons.prems(3-5) obtain s' where
    "for_each hits (persist_hit env sg True hub b) ?s2 = (Inr (), s')"
    "lineage_within sg ((X @ [bb_daa b]) @ replicate (length hits) (bb_daa b)) (ns_db s')"
    by auto
  then show ?case using hit by (auto simp: bind_def)
qed

section \<open>Commits and unwinds\<close>

text \<open>Blocks for whose hits the lineage has room: above the rows at the start, fewer hits than sequence numbers,
  and no output index beyond an \<open>i32\<close>.\<close>

definition lineage_room :: "lineage_row list \<Rightarrow> bootstrap_block list \<Rightarrow> bool" where
  "lineage_room L bs \<longleftrightarrow> length L + length (hit_scores bs) < 2147483647 \<and>
     list_all (\<lambda>b. list_all (\<lambda>r. lr_daa r < bb_daa b) L \<and> list_all (\<lambda>h. unat (dp_output_index h) < 2 ^ 31) (bb_hits b)) bs"

definition room_above ::
  "schema_tables \<Rightarrow> poi_row list \<Rightarrow> committed_record list \<Rightarrow> lineage_row list \<Rightarrow> bootstrap_block list \<Rightarrow> bool" where
  "room_above T ps cs L bs \<longleftrightarrow> placed_above T ps cs bs \<and> lineage_room L bs"

abbreviation lineage_scores :: "lineage_row list \<Rightarrow> bootstrap_block list \<Rightarrow> i64 list" where
  "lineage_scores L bs \<equiv> map lr_daa L @ hit_scores bs"

lemma hit_scores_append: "hit_scores (as @ bs) = hit_scores as @ hit_scores bs"
  by (simp add: hit_scores_def)

lemma set_hit_scores: "set (hit_scores bs) \<subseteq> bb_daa ` set bs"
  by (auto simp: hit_scores_def)

lemma lineage_room_append: "lineage_room L (as @ bs) \<Longrightarrow> lineage_room L as"
  by (auto simp: lineage_room_def hit_scores_append)

lemma room_above_append: "room_above T ps cs L (as @ bs) \<Longrightarrow> room_above T ps cs L as"
  using placed_above_append lineage_room_append by (auto simp: room_above_def)

lemma block_succeeds:
  assumes "indexed_as env m sg ps cs T bs s" "room_above T ps cs L (bs @ [b])" "lm_subgraph m = sg" "subgraph_id_new sg = Inr sg"
    and "lineage_within sg (lineage_scores L bs) (ns_db s)"
  shows "\<exists>s'. persist_block env sg (Some m) hub b s = (Inr (), s') \<and> lineage_within sg (lineage_scores L (bs @ [b])) (ns_db s')"
proof -
  let ?s0 = "s\<lparr>ns_db := record_committed_block (insert_rpc_block_audit (ns_db s)
        \<lparr>ra_block_hash = bb_hash b, ra_daa = bb_daa b, ra_served_by = bb_served_by b\<rparr>) (row_of sg b)\<rparr>"
  have T: "map_of (db_schemas (ns_db s)) sg = Some (index_tables env m T bs)" using assms(1) by (simp add: indexed_as_def)
  have room: "lineage_room L (bs @ [b])" and placed: "placed ps cs (bs @ [b])"
    using assms(2) by (simp_all add: room_above_def placed_above_def)
  have "map_of (db_schemas (ns_db ?s0)) sg = Some (index_tables env m T bs)"
    using T by (simp add: record_committed_block_def insert_rpc_block_audit_def)
  moreover have "lineage_within sg (lineage_scores L bs) (ns_db ?s0)"
    using assms(5) lineage_within_cong [of "ns_db ?s0" "ns_db s" sg]
    by (simp add: record_committed_block_def insert_rpc_block_audit_def)
  moreover have "\<forall>x \<in> set (lineage_scores L bs). x \<le> bb_daa b"
    using room placed set_hit_scores [of bs] by (fastforce simp: lineage_room_def placed_def sorted_wrt_append list_all_iff)
  moreover have "length (lineage_scores L bs) + length (bb_hits b) < 2147483647" "\<forall>h \<in> set (bb_hits b). unat (dp_output_index h) < 2 ^ 31"
    using room by (auto simp: lineage_room_def hit_scores_append list_all_iff) (simp add: hit_scores_def)
  ultimately obtain s1 where s1: "for_each (bb_hits b) (persist_hit env sg True hub b) ?s0 = (Inr (), s1)"
      "lineage_within sg (lineage_scores L bs @ replicate (length (bb_hits b)) (bb_daa b)) (ns_db s1)"
    using hits_succeed [OF _ _ assms(4)] by metis
  from block_after_hits [OF assms(3) T s1(1)] obtain s' where
    "persist_block env sg (Some m) hub b s = (Inr (), s')" "db_heads (ns_db s') = db_heads (ns_db s1)"
    "db_rows (ns_db s') = db_rows (ns_db s1)"
    by blast
  then show ?thesis
    using s1(2) lineage_within_cong [of "ns_db s'" "ns_db s1"] by (auto simp: hit_scores_append) (simp add: hit_scores_def)
qed

lemma blocks_succeed:
  assumes "indexed_as env m sg ps cs T bs s" "room_above T ps cs L (bs @ ws)" "lm_subgraph m = sg" "subgraph_id_new sg = Inr sg"
    and "lineage_within sg (lineage_scores L bs) (ns_db s)"
  shows "\<exists>s'. for_each ws (persist_block env sg (Some m) hub) s = (Inr (), s') \<and>
    lineage_within sg (lineage_scores L (bs @ ws)) (ns_db s')"
  using assms(1,2,5)
proof (induction ws arbitrary: bs s)
  case Nil
  then show ?case by (simp add: ret_def)
next
  case (Cons b ws)
  have room: "room_above T ps cs L (bs @ [b])" using room_above_append [of T ps cs L "bs @ [b]" ws] Cons.prems(2) by simp
  from block_succeeds [OF Cons.prems(1) this assms(3,4) Cons.prems(3)] obtain s1 where
    s1: "persist_block env sg (Some m) hub b s = (Inr (), s1)" "lineage_within sg (lineage_scores L (bs @ [b])) (ns_db s1)"
    by blast
  have "indexed_as env m sg ps cs T (bs @ [b]) s1"
    using index_above [OF Cons.prems(1) _ assms(3) s1(1)] room by (simp add: room_above_def)
  from Cons.IH [OF this _ s1(2)] Cons.prems(2) s1(1) show ?case by (auto simp: bind_def)
qed

lemma lineage_unwound:
  assumes "lineage_within sg (lineage_scores L (bs @ u)) db" "room_above T ps cs L (bs @ u)" "u \<noteq> []"
  shows "lineage_within sg (lineage_scores L bs) (snd (unwind_covenant_lineage db sg (Min (set (map bb_daa u)))))"
proof -
  let ?c = "Min (set (map bb_daa u))"
  have ok: "lineage_ok sg db" and sub: "mset (map lr_daa (db_rows db)) \<subseteq># mset (lineage_scores L (bs @ u))"
    using assms(1) by (simp_all add: lineage_within_def)
  have "\<forall>r \<in> set (db_rows db). lr_subgraph r = sg" using lineage_ok_subgraph(2) [OF ok] by blast
  then have rows: "db_rows (snd (unwind_covenant_lineage db sg ?c)) = filter (\<lambda>r. \<not> ?c \<le> lr_daa r) (db_rows db)"
    by (auto simp: unwind_covenant_lineage_def Let_def tbl_delete_def intro!: filter_cong simp del: set_map)
  have "d < ?c" if "d \<in> set (map lr_daa L) \<union> bb_daa ` set bs" for d
    using that assms(2,3) by (auto simp: room_above_def lineage_room_def placed_above_def placed_def sorted_wrt_append list_all_iff)
  then have "\<forall>d \<in> set (lineage_scores L bs). \<not> ?c \<le> d" using set_hit_scores [of bs] by (fastforce simp: not_le)
  moreover have "\<forall>d \<in> set (hit_scores u). ?c \<le> d" using set_hit_scores [of u] by fastforce
  ultimately have keep: "filter (\<lambda>d. \<not> ?c \<le> d) (lineage_scores L (bs @ u)) = lineage_scores L bs"
    by (simp add: hit_scores_append filter_empty_conv filter_True del: set_map)
  have "mset (map lr_daa (filter (\<lambda>r. \<not> ?c \<le> lr_daa r) (db_rows db))) = filter_mset (\<lambda>d. \<not> ?c \<le> d) (mset (map lr_daa (db_rows db)))"
    by (simp only: mset_filter [symmetric] filter_map comp_def)
  also have "\<dots> \<subseteq># filter_mset (\<lambda>d. \<not> ?c \<le> d) (mset (lineage_scores L (bs @ u)))"
    using sub by (rule multiset_filter_mono)
  also have "\<dots> = mset (lineage_scores L bs)" unfolding mset_filter [symmetric] keep ..
  finally show ?thesis
    using unwind_lineage_ok [OF ok] by (simp add: lineage_within_def rows del: set_map)
qed

section \<open>A whole run\<close>

lemma mapped_notification_succeeds:
  assumes n: "apply_notification (conv_of env) (ns_ingestion s) n = Returns (st, t)" and ok: "ing_ok (ns_ingestion s)"
    and bs: "map snd (ing_committed (ns_ingestion s)) = kept @ tr_unwinds t"
    and idx: "indexed_as env m sg ps cs T (kept @ tr_unwinds t) s"
    and room: "room_above T ps cs L (kept @ tr_unwinds t)" "room_above T ps cs L (kept @ tr_writes t)"
    and hashes: "\<forall>r \<in> set ps. length (pr_hash r) = 32" "hash32 env"
    and m: "lm_subgraph m = sg" "subgraph_id_new sg = Inr sg"
    and lineage: "lineage_within sg (lineage_scores L (kept @ tr_unwinds t)) (ns_db s)"
  shows "\<exists>s' p. apply_and_persist_notification env sg (Some m) hub n s =
      (Inr \<lparr>no_recovery = tr_recovery t, no_committed = length (tr_writes t)\<rparr>, s') \<and>
    indexed_as env m sg ps cs T (kept @ tr_writes t) s' \<and> ns_ingestion s' = reseed_prior_poi p st \<and>
    ing_ok st \<and> map snd (ing_committed st) = kept @ tr_writes t \<and>
    lineage_within sg (lineage_scores L (kept @ tr_writes t)) (ns_db s')"
proof -
  let ?s = "s\<lparr>ns_ingestion := st\<rparr>"
  have placed: "placed_above T ps cs (kept @ tr_unwinds t)" "placed_above T ps cs (kept @ tr_writes t)"
    using room by (simp_all add: room_above_def)
  have "indexed_as env m sg ps cs T (kept @ tr_unwinds t) ?s"
    using idx apply_notification_frame [OF n] by (simp add: indexed_as_def recorded_as_def)
  from index_unwound [OF this placed(1) hashes] obtain s1 where
    s1: "persist_unwinds sg True (tr_unwinds t) ?s = (Inr (), s1)" "indexed_as env m sg ps cs T kept s1"
    and tables: "let db = if tr_unwinds t = [] then ns_db ?s
        else snd (unwind_covenant_lineage (ns_db ?s) sg (Min (set (map bb_daa (tr_unwinds t)))))
      in db_heads (ns_db s1) = db_heads db \<and> db_rows (ns_db s1) = db_rows db"
    by blast
  have "lineage_within sg (lineage_scores L kept) (ns_db s1)"
  proof (cases "tr_unwinds t = []")
    case True
    then show ?thesis using lineage tables lineage_within_cong [of "ns_db s1" "ns_db s"] by (simp add: Let_def)
  next
    case False
    from lineage_unwound [OF lineage room(1) False] show ?thesis
      using tables False lineage_within_cong [of "ns_db s1" "snd (unwind_covenant_lineage (ns_db s) sg (Min (set (map bb_daa (tr_unwinds t)))))"]
      by (simp add: Let_def del: set_map)
  qed
  from blocks_succeed [OF s1(2) room(2) m this] obtain s2 where
    s2: "for_each (tr_writes t) (persist_block env sg (Some m) hub) s1 = (Inr (), s2)"
      "lineage_within sg (lineage_scores L (kept @ tr_writes t)) (ns_db s2)"
    by blast
  have run: "apply_and_persist_notification env sg (Some m) hub n s =
      (Inr \<lparr>no_recovery = tr_recovery t, no_committed = length (tr_writes t)\<rparr>, s2)"
    using s1(1) s2(1) by (simp add: apply_and_persist_notification_def ingest_def n andthen_def bind_def ret_def)
  from notification_indexed [OF n ok bs idx placed hashes m(1) run] run s2(2) show ?thesis by blast
qed

lemma mapped_run_recorded:
  assumes "run_notifications (conv_of env) st ns = Returns (st', ts)" "ing_ok st" "ns_ingestion s = reseed_prior_poi p st"
    and "indexed_as env m sg ps cs T bs s" "map snd (ing_committed st) = bs" "room_above T ps cs L bs"
    and "tail_log (room_above T ps cs L) bs ts" "lineage_within sg (lineage_scores L bs) (ns_db s)"
    and hashes: "\<forall>r \<in> set ps. length (pr_hash r) = 32" "hash32 env"
    and m: "lm_subgraph m = sg" "subgraph_id_new sg = Inr sg" and rt: "rt_subgraph rt = sg" "rt_mapping rt = Some m"
  shows "\<exists>s' p'. fan_out_all env hub ns (single_node rt s) = (Inr (), single_node rt s') \<and>
    indexed_as env m sg ps cs T (map snd (ing_committed st')) s' \<and>
    lineage_within sg (lineage_scores L (map snd (ing_committed st'))) (ns_db s') \<and> ns_ingestion s' = reseed_prior_poi p' st'"
  using assms(1-8)
proof (induction ns arbitrary: st ts s p bs)
  case Nil
  then show ?case by auto
next
  case (Cons n ns)
  obtain st1 t ts1 where n: "apply_notification (conv_of env) st n = Returns (st1, t)"
      "run_notifications (conv_of env) st1 ns = Returns (st', ts1)" "ts = t # ts1"
    using Cons.prems(1) by (auto simp: run_bind_Returns_iff run_map_Returns_iff)
  define kept where "kept = take (length bs - length (tr_unwinds t)) bs"
  have tail: "bs = kept @ tr_unwinds t" "room_above T ps cs L (kept @ tr_writes t)" "tail_log (room_above T ps cs L) (kept @ tr_writes t) ts1"
    using Cons.prems(7) unfolding n(3) tail_log.simps Let_def kept_def by blast+
  have n': "apply_notification (conv_of env) (ns_ingestion s) n = Returns (reseed_prior_poi p st1, t)"
    by (simp add: Cons.prems(3) apply_notification_reseed n(1))
  have ok: "ing_ok (ns_ingestion s)" "map snd (ing_committed (ns_ingestion s)) = kept @ tr_unwinds t"
    using Cons.prems(2,5) tail(1) by (simp_all add: Cons.prems(3) reseed_prior_poi_def ing_ok_def)
  from mapped_notification_succeeds [OF n' ok _ _ tail(2) hashes m] Cons.prems(4,6,8) tail(1) obtain s1 q where
    s1: "apply_and_persist_notification env sg (Some m) hub n s =
        (Inr \<lparr>no_recovery = tr_recovery t, no_committed = length (tr_writes t)\<rparr>, s1)"
      "indexed_as env m sg ps cs T (kept @ tr_writes t) s1" "ns_ingestion s1 = reseed_prior_poi q (reseed_prior_poi p st1)"
      "ing_ok (reseed_prior_poi p st1)" "map snd (ing_committed (reseed_prior_poi p st1)) = kept @ tr_writes t"
      "lineage_within sg (lineage_scores L (kept @ tr_writes t)) (ns_db s1)"
    by blast
  have st1: "ns_ingestion s1 = reseed_prior_poi q st1" "ing_ok st1" "map snd (ing_committed st1) = kept @ tr_writes t"
    using s1(3-5) by (simp_all add: reseed_prior_poi_def ing_ok_def)
  have "fan_out_notification env hub n (single_node rt s) =
      (Inr \<lparr>no_recovery = tr_recovery t, no_committed = length (tr_writes t)\<rparr>, single_node rt s1)"
    using s1(1) by (intro fan_out_single) (simp add: rt)
  with Cons.IH [OF n(2) st1(2,1) s1(2) st1(3) tail(2,3) s1(6)] show ?case by simp
qed

section \<open>Properties\<close>



end
