(* ===== verification/Soak_Monitor.thy ===== *)
theory Soak_Monitor
  imports Node_Config
begin

text \<open>
  The soak monitor of \<open>src/crates/kasgraph-rpc/examples/continuous_wrpc_smoke.rs\<close>: the loop over the events of the
  subscription driver and its notifications, with the counters it keeps, the event log it writes and the
  summary it ends with. The clock, the files and \<open>serde_json\<close>'s printing are parameters; what it prints on the
  console is left out.
\<close>

section \<open>Configuration and state\<close>

record soak_config =
  sc_url :: string
  sc_max_notifications :: nat
  sc_duration_seconds :: u64
  sc_channel_capacity :: nat
  sc_summary_path :: "string option"
  sc_event_path :: "string option"

definition soak_config_from_env :: "environment \<Rightarrow> soak_config" where
  "soak_config_from_env env =
     \<lparr>sc_url = env_or env ''KASGRAPH_WRPC_URL'' ''wss://eric.kaspa.stream/kaspa/mainnet/wrpc/json'',
      sc_max_notifications = unat (env_parsed rust_parse_u64 env ''KASGRAPH_WRPC_MAX_MESSAGES'' 0),
      sc_duration_seconds = env_parsed rust_parse_u64 env ''KASGRAPH_WRPC_DURATION_SECONDS'' 60,
      sc_channel_capacity = unat (env_parsed rust_parse_u64 env ''KASGRAPH_WRPC_CHANNEL_CAPACITY'' 64),
      sc_summary_path = env ''KASGRAPH_WRPC_SUMMARY_JSON'',
      sc_event_path = env ''KASGRAPH_WRPC_EVENT_NDJSON''\<rparr>"

record soak_state =
  sk_block_added :: nat
  sk_virtual_chain_changed :: nat
  sk_recovery_required :: nat
  sk_reconnects :: u64
  sk_connections :: u64
  sk_highest_daa_seen :: "u64 option"
  sk_stop_reason :: "string option"
  sk_observed_gap_ranges :: "(u64 \<times> u64) list"
  sk_hits_total :: nat
  sk_hits_per_kind :: "(string \<times> nat) list"
  sk_log :: "string list"

definition initial_soak :: soak_state where
  "initial_soak = \<lparr>sk_block_added = 0, sk_virtual_chain_changed = 0, sk_recovery_required = 0, sk_reconnects = 0,
     sk_connections = 0, sk_highest_daa_seen = None, sk_stop_reason = None, sk_observed_gap_ranges = [],
     sk_hits_total = 0, sk_hits_per_kind = [], sk_log = []\<rparr>"

definition soak_total :: "soak_state \<Rightarrow> nat" where
  "soak_total s = sk_block_added s + sk_virtual_chain_changed s + sk_recovery_required s"

datatype soak_error = Soak_panicked | Write_failed string | Capabilities_failed rpc_error

text \<open>The surroundings: whether an event log is kept, the failures of opening it, of its n-th line, of its flush
  and of writing the summary, the time stamp of the n-th line, and \<open>serde_json::to_string\<close>.\<close>

record soak_env =
  se_writer :: bool
  se_open_error :: "string option"
  se_write_error :: "nat \<Rightarrow> string option"
  se_flush_error :: "string option"
  se_summary_error :: "string option"
  se_ts_ms :: "nat \<Rightarrow> u64"
  se_print :: "json \<Rightarrow> string"
  se_hex_decode :: hex_decoder
  se_hex_encode :: "u8 list \<Rightarrow> string"

section \<open>The event log\<close>

definition jobject :: "(string \<times> json) list \<Rightarrow> json" where
  "jobject kvs = JObject (foldl (\<lambda>m e. bt_insert (fst e) (snd e) m) [] kvs)"

definition jnat :: "nat \<Rightarrow> json" where
  "jnat n = JNumber (PosInt (of_nat n))"

definition ju64 :: "u64 \<Rightarrow> json" where
  "ju64 n = JNumber (PosInt n)"

definition jopt :: "u64 option \<Rightarrow> json" where
  "jopt v = (case v of None \<Rightarrow> JNull | Some n \<Rightarrow> ju64 n)"

definition write_event_line :: "soak_env \<Rightarrow> json \<Rightarrow> soak_state \<Rightarrow> soak_error + soak_state" where
  "write_event_line env payload s =
     (if \<not> se_writer env then Inr s
      else let n = length (sk_log s);
               stamped = (case payload of
                   JObject obj \<Rightarrow> JObject (bt_insert ''ts_ms'' (ju64 (se_ts_ms env n)) obj)
                 | v \<Rightarrow> v)
           in case se_write_error env n of
                Some e \<Rightarrow> Inl (Write_failed e)
              | None \<Rightarrow> Inr (s\<lparr>sk_log := sk_log s @ [se_print env stamped]\<rparr>))"

section \<open>Detector hits\<close>

definition detect_in_block :: "soak_env \<Rightarrow> ingested_block \<Rightarrow> detected_pattern list run" where
  "detect_in_block env b = detect_outputs (se_hex_decode env) (se_hex_encode env) (ib_outputs b)"

definition count_hit :: "(string \<times> nat) list \<Rightarrow> detected_pattern \<Rightarrow> (string \<times> nat) list" where
  "count_hit m h = (let kind = kind_name (dp_kind h) in bt_insert kind ((case map_of m kind of None \<Rightarrow> 0 | Some n \<Rightarrow> n) + 1) m)"

definition hit_line :: "ingested_block \<Rightarrow> detected_pattern \<Rightarrow> json" where
  "hit_line b h = jobject
     [(''kind'', JString ''detector_hit''), (''block_hash'', JString (ib_hash b)), (''block_daa_score'', ju64 (ib_daa b)),
      (''tx_hash'', JString (dp_tx_hash h)), (''output_index'', ju64 (ucast (dp_output_index h))),
      (''detector_kind'', JString (kind_name (dp_kind h))),
      (''covenant_id'', case dp_covenant_id h of None \<Rightarrow> JNull | Some c \<Rightarrow> JString c), (''payload'', dp_payload h)]"

fun each_soak :: "('x \<Rightarrow> soak_state \<Rightarrow> soak_error + soak_state) \<Rightarrow> 'x list \<Rightarrow> soak_state \<Rightarrow> soak_error + soak_state" where
  "each_soak f [] s = Inr s"
| "each_soak f (x # xs) s = attempt (f x s) (each_soak f xs)"

definition record_detector_hits :: "soak_env \<Rightarrow> ingested_block \<Rightarrow> soak_state \<Rightarrow> soak_error + soak_state" where
  "record_detector_hits env b s =
     (case detect_in_block env b of
        Panics \<Rightarrow> Inl Soak_panicked
      | Returns hits \<Rightarrow>
          if hits = [] then Inr s
          else each_soak (\<lambda>h. write_event_line env (hit_line b h)) hits
                 (s\<lparr>sk_hits_total := sk_hits_total s + length hits,
                    sk_hits_per_kind := foldl count_hit (sk_hits_per_kind s) hits\<rparr>))"

section \<open>The events of the driver\<close>

fun on_driver_event :: "soak_env \<Rightarrow> subscription_driver_event \<Rightarrow> soak_state \<Rightarrow> soak_error + soak_state" where
  "on_driver_event env (Connected ep reconnect_count) s =
     write_event_line env (jobject [(''kind'', JString ''driver''), (''event'', JString ''Connected''),
         (''reconnect_count'', ju64 reconnect_count)])
       (s\<lparr>sk_connections := sk_connections s + 1, sk_reconnects := max (sk_reconnects s) reconnect_count\<rparr>)"
| "on_driver_event env (ReconnectScheduled ep reconnect_count delay_ms reason last_emitted) s =
     write_event_line env (jobject [(''kind'', JString ''driver''), (''event'', JString ''ReconnectScheduled''),
         (''reconnect_count'', ju64 reconnect_count), (''delay_ms'', ju64 delay_ms),
         (''last_emitted_daa'', jopt last_emitted), (''reason'', JString reason)])
       (s\<lparr>sk_reconnects := max (sk_reconnects s) reconnect_count\<rparr>)"
| "on_driver_event env (GapDetected ep reconnect_count lo hi) s =
     write_event_line env (jobject [(''kind'', JString ''driver''), (''event'', JString ''GapDetected''),
         (''reconnect_count'', ju64 reconnect_count), (''from_daa_score'', ju64 lo), (''to_daa_score'', ju64 hi)])
       (s\<lparr>sk_reconnects := max (sk_reconnects s) reconnect_count,
          sk_observed_gap_ranges := sk_observed_gap_ranges s @ [(lo, hi)]\<rparr>)"
| "on_driver_event env (Stopped ep reconnect_count reason last_emitted) s =
     write_event_line env (jobject [(''kind'', JString ''driver''), (''event'', JString ''Stopped''),
         (''reconnect_count'', ju64 reconnect_count), (''last_emitted_daa'', jopt last_emitted), (''reason'', JString reason)])
       (s\<lparr>sk_reconnects := max (sk_reconnects s) reconnect_count, sk_stop_reason := Some reason\<rparr>)"

section \<open>The notifications\<close>

definition highest_seen :: "u64 option \<Rightarrow> u64 \<Rightarrow> u64 option" where
  "highest_seen seen daa = Some (case seen of None \<Rightarrow> daa | Some prev \<Rightarrow> max prev daa)"

definition block_fields :: "ingested_block \<Rightarrow> (string \<times> json) list" where
  "block_fields b = [(''hash'', JString (ib_hash b)), (''daa_score'', ju64 (ib_daa b)), (''blue_score'', ju64 (ib_blue b)),
     (''is_finalized'', JBool (ib_finalized b)), (''served_by'', JString (ib_served_by b))]"

fun on_notification :: "soak_env \<Rightarrow> chain_notification \<Rightarrow> soak_state \<Rightarrow> soak_error + soak_state" where
  "on_notification env (BlockAdded b) s =
     attempt (record_detector_hits env b (s\<lparr>sk_block_added := sk_block_added s + 1,
         sk_highest_daa_seen := highest_seen (sk_highest_daa_seen s) (ib_daa b)\<rparr>))
       (write_event_line env (jobject ([(''kind'', JString ''notification''), (''type'', JString ''BlockAdded''),
          (''index'', jnat (soak_total s))] @ block_fields b)))"
| "on_notification env (VirtualChainChanged removed added) s =
     attempt (each_soak (record_detector_hits env) added (s\<lparr>sk_virtual_chain_changed := sk_virtual_chain_changed s + 1,
         sk_highest_daa_seen := (case max_of (map ib_daa added) of
             None \<Rightarrow> sk_highest_daa_seen s | Some daa \<Rightarrow> highest_seen (sk_highest_daa_seen s) daa)\<rparr>))
       (write_event_line env (jobject [(''kind'', JString ''notification''), (''type'', JString ''VirtualChainChanged''),
          (''index'', jnat (soak_total s)), (''removed_count'', jnat (length removed)), (''added_count'', jnat (length added)),
          (''removed_hashes'', JArray (map JString removed)), (''added_blocks'', JArray (map (jobject \<circ> block_fields) added))]))"
| "on_notification env (RecoveryRequired lo hi reason) s =
     write_event_line env (jobject [(''kind'', JString ''notification''), (''type'', JString ''RecoveryRequired''),
         (''index'', jnat (soak_total s)), (''from_daa_score'', ju64 lo), (''to_daa_score'', ju64 hi), (''reason'', JString reason)])
       (s\<lparr>sk_recovery_required := sk_recovery_required s + 1\<rparr>)"

section \<open>The loop\<close>

text \<open>What the select yields, with the time read before it.\<close>

datatype soak_select =
    Slept
  | Driver_event "subscription_driver_event option"
  | Notified "chain_notification option"

datatype soak_end = Max_notifications | Deadline | Events_closed | Notifications_closed | Still_running

fun soak_loop ::
  "soak_config \<Rightarrow> soak_env \<Rightarrow> nat \<Rightarrow> (nat \<times> soak_select) list \<Rightarrow> soak_state \<Rightarrow> soak_error + soak_end \<times> soak_state" where
  "soak_loop cfg env deadline [] s =
     Inr (if sc_max_notifications cfg \<noteq> 0 \<and> sc_max_notifications cfg \<le> soak_total s then Max_notifications else Still_running, s)"
| "soak_loop cfg env deadline ((now, selected) # es) s =
     (if sc_max_notifications cfg \<noteq> 0 \<and> sc_max_notifications cfg \<le> soak_total s then Inr (Max_notifications, s)
      else if deadline \<le> now then Inr (Deadline, s)
      else (case selected of
              Slept \<Rightarrow> Inr (Deadline, s)
            | Driver_event None \<Rightarrow> Inr (Events_closed, s)
            | Driver_event (Some e) \<Rightarrow> attempt (on_driver_event env e s) (soak_loop cfg env deadline es)
            | Notified None \<Rightarrow> Inr (Notifications_closed, s)
            | Notified (Some n) \<Rightarrow> attempt (on_notification env n s) (soak_loop cfg env deadline es)))"

section \<open>The summary\<close>

definition soak_summary :: "soak_config \<Rightarrow> live_rpc_capabilities \<Rightarrow> u64 \<Rightarrow> soak_state \<Rightarrow> json" where
  "soak_summary cfg caps elapsed s =
     (let server = lc_server_info caps; node = lc_node_info caps in jobject
     [(''url'', JString (sc_url cfg)), (''durationSeconds'', ju64 elapsed),
      (''requestedDurationSeconds'', ju64 (sc_duration_seconds cfg)), (''maxNotifications'', jnat (sc_max_notifications cfg)),
      (''blockAdded'', jnat (sk_block_added s)), (''virtualChainChanged'', jnat (sk_virtual_chain_changed s)),
      (''recoveryRequired'', jnat (sk_recovery_required s)), (''totalNotifications'', jnat (soak_total s)),
      (''highestDaaSeen'', jopt (sk_highest_daa_seen s)), (''reconnects'', ju64 (sk_reconnects s)),
      (''connections'', ju64 (sk_connections s)),
      (''stopReason'', JString (unwrap_or (sk_stop_reason s) ''receiver closed by smoke runner'')),
      (''gapRanges'', JArray (map (\<lambda>(lo, hi). jobject [(''from'', ju64 lo), (''to'', ju64 hi)]) (sk_observed_gap_ranges s))),
      (''detectorHitsTotal'', jnat (sk_hits_total s)),
      (''detectorHitsPerKind'', jobject (map (\<lambda>(kind, n). (kind, jnat n)) (sk_hits_per_kind s))),
      (''capabilities'', jobject
        [(''endpoint'', JString (lc_endpoint caps)), (''networkId'', JString (si_network_id server)),
         (''serverVersion'', JString (si_server_version server)), (''rpcApiVersion'', ju64 (si_rpc_api_version server)),
         (''rpcApiRevision'', ju64 (si_rpc_api_revision server)), (''isSynced'', JBool (si_is_synced server \<and> ni_is_synced node)),
         (''hasMessageId'', JBool (ni_has_message_id node)), (''hasNotifyCommand'', JBool (ni_has_notify_command node))])])"

definition soak_client :: "soak_config \<Rightarrow> rpc_client" where
  "soak_client cfg = new_client \<lparr>cc_primary = \<lparr>ep_label = ''live-wrpc'', ep_url = sc_url cfg, ep_timeout = 20000\<rparr>,
     cc_backups = [], cc_health_probe_interval = 30000\<rparr>"

text \<open>A step of the run that may fail on a file that is only used when its path is set.\<close>

definition file_step :: "string option \<Rightarrow> string option \<Rightarrow> soak_error + unit" where
  "file_step path error = (case (path, error) of (Some _, Some e) \<Rightarrow> Inl (Write_failed e) | _ \<Rightarrow> Inr ())"

text \<open>The run: \<open>started\<close> is the time of the start in milliseconds. The channel constructor of tokio is documented
  to panic at a capacity of 0. The result is the summary written, if a path for it is set, and the final state.\<close>

definition soak_main ::
  "network \<Rightarrow> wire \<Rightarrow> soak_config \<Rightarrow> soak_env \<Rightarrow> nat \<Rightarrow> u64 \<Rightarrow> (nat \<times> soak_select) list
     \<Rightarrow> soak_error + json option \<times> soak_state" where
  "soak_main net w cfg io started elapsed es =
     (let env = io\<lparr>se_writer := sc_event_path cfg \<noteq> None\<rparr> in
      attempt (file_step (sc_event_path cfg) (se_open_error env)) (\<lambda>_.
      case fst (probe_live_capabilities net w (soak_client cfg)) of
        Inl e \<Rightarrow> Inl (Capabilities_failed e)
      | Inr caps \<Rightarrow>
          if sc_channel_capacity cfg = 0 then Inl Soak_panicked
          else attempt (soak_loop cfg env (started + 1000 * unat (sc_duration_seconds cfg)) es initial_soak) (\<lambda>(_, s).
            attempt (file_step (sc_event_path cfg) (se_flush_error env)) (\<lambda>_.
            attempt (file_step (sc_summary_path cfg) (se_summary_error env)) (\<lambda>_.
              Inr (map_option (\<lambda>_. soak_summary cfg caps elapsed s) (sc_summary_path cfg), s))))))"

section \<open>The counters as tallies\<close>

fun notified_in :: "(nat \<times> soak_select) list \<Rightarrow> chain_notification list" where
  "notified_in [] = []"
| "notified_in ((now, Notified (Some n)) # es) = n # notified_in es"
| "notified_in (_ # es) = notified_in es"

fun events_in :: "(nat \<times> soak_select) list \<Rightarrow> subscription_driver_event list" where
  "events_in [] = []"
| "events_in ((now, Driver_event (Some e)) # es) = e # events_in es"
| "events_in (_ # es) = events_in es"

fun new_blocks :: "chain_notification \<Rightarrow> ingested_block list" where
  "new_blocks (BlockAdded b) = [b]"
| "new_blocks (VirtualChainChanged removed added) = added"
| "new_blocks (RecoveryRequired lo hi reason) = []"

fun block_added :: "chain_notification \<Rightarrow> bool" where
  "block_added (BlockAdded b) = True"
| "block_added _ = False"

fun chain_changed :: "chain_notification \<Rightarrow> bool" where
  "chain_changed (VirtualChainChanged removed added) = True"
| "chain_changed _ = False"

fun recovery :: "chain_notification \<Rightarrow> bool" where
  "recovery (RecoveryRequired lo hi reason) = True"
| "recovery _ = False"

fun connected :: "subscription_driver_event \<Rightarrow> bool" where
  "connected (Connected ep n) = True"
| "connected _ = False"

fun reconnects_of :: "subscription_driver_event \<Rightarrow> u64" where
  "reconnects_of (Connected ep n) = n"
| "reconnects_of (ReconnectScheduled ep n delay reason last_emitted) = n"
| "reconnects_of (GapDetected ep n lo hi) = n"
| "reconnects_of (Stopped ep n reason last_emitted) = n"

fun gaps_of :: "subscription_driver_event \<Rightarrow> (u64 \<times> u64) list" where
  "gaps_of (GapDetected ep n lo hi) = [(lo, hi)]"
| "gaps_of _ = []"

definition kind_tally :: "(string \<times> nat) list \<Rightarrow> detected_pattern list \<Rightarrow> bool" where
  "kind_tally m hits \<longleftrightarrow> bt_ok m \<and> sum_list (map snd m) = length hits \<and>
     (\<forall>k. (case map_of m k of None \<Rightarrow> 0 | Some n \<Rightarrow> n) = length (filter (\<lambda>h. kind_name (dp_kind h) = k) hits))"

definition tallied ::
  "soak_env \<Rightarrow> chain_notification list \<Rightarrow> subscription_driver_event list \<Rightarrow> detected_pattern list list \<Rightarrow> soak_state \<Rightarrow> bool" where
  "tallied env ns ds hits s \<longleftrightarrow>
     sk_block_added s = length (filter block_added ns) \<and>
     sk_virtual_chain_changed s = length (filter chain_changed ns) \<and>
     sk_recovery_required s = length (filter recovery ns) \<and>
     sk_highest_daa_seen s = max_of (map ib_daa (concat (map new_blocks ns))) \<and>
     sk_reconnects s = Max (insert 0 (reconnects_of ` set ds)) \<and>
     sk_connections s = of_nat (length (filter connected ds)) \<and>
     sk_observed_gap_ranges s = concat (map gaps_of ds) \<and>
     list_all2 (\<lambda>b hs. detect_in_block env b = Returns hs) (concat (map new_blocks ns)) hits \<and>
     sk_hits_total s = length (concat hits) \<and> kind_tally (sk_hits_per_kind s) (concat hits)"

lemma line_frame: "write_event_line env payload s = Inr s' \<Longrightarrow> \<exists>l. s' = s\<lparr>sk_log := l\<rparr>"
  by (auto simp: write_event_line_def Let_def split: if_splits option.splits intro: exI [of _ "sk_log s"])

lemma tallied_log [simp]: "tallied env ns ds hits (s\<lparr>sk_log := l\<rparr>) \<longleftrightarrow> tallied env ns ds hits s"
  by (simp add: tallied_def)

lemma attempt_Inr_iff: "attempt r f = Inr y \<longleftrightarrow> (\<exists>x. r = Inr x \<and> f x = Inr y)"
  by (cases r) auto

lemma lines_frame: "each_soak (\<lambda>h. write_event_line env (line h)) hs s = Inr s' \<Longrightarrow> \<exists>l. s' = s\<lparr>sk_log := l\<rparr>"
proof (induction hs arbitrary: s)
  case Nil
  then show ?case by (auto intro: exI [of _ "sk_log s"])
next
  case (Cons h hs)
  then obtain s1 where "write_event_line env (line h) s = Inr s1" "each_soak (\<lambda>h. write_event_line env (line h)) hs s1 = Inr s'"
    by (auto simp: attempt_Inr_iff)
  with Cons.IH line_frame show ?case by fastforce
qed

lemma kind_tally_count:
  assumes "kind_tally m hs"
  shows "kind_tally (count_hit m h) (hs @ [h])"
proof -
  let ?k = "kind_name (dp_kind h)"
  define n where "n = (case map_of m ?k of None \<Rightarrow> 0 | Some n \<Rightarrow> n)"
  have "bt_ok m" "sum_list (map snd m) = length hs" using assms by (simp_all add: kind_tally_def)
  then have "sum_list (map snd (bt_insert ?k (n + 1) m)) = length (hs @ [h])"
    using bt.total_ins [of m id ?k "n + 1"] by (simp add: bt.total_def bt.at_def n_def split: option.splits)
  moreover have "count_hit m h = bt_insert ?k (n + 1) m" by (simp add: count_hit_def n_def Let_def)
  moreover have "n = length (filter (\<lambda>h. kind_name (dp_kind h) = ?k) hs)"
    using assms unfolding kind_tally_def n_def by blast
  ultimately show ?thesis using assms by (simp add: kind_tally_def bt.get_ins bt.ok_ins)
qed

lemma kind_tally_counts: "kind_tally m hs \<Longrightarrow> kind_tally (foldl count_hit m xs) (hs @ xs)"
proof (induction xs arbitrary: m hs)
  case (Cons x xs)
  from Cons.IH [OF kind_tally_count [OF Cons.prems, of x]] show ?case by simp
qed simp

text \<open>The blocks of a notification: their hits join the tally.\<close>

definition hits_joined :: "detected_pattern list \<Rightarrow> soak_state \<Rightarrow> soak_state \<Rightarrow> bool" where
  "hits_joined hs s s' \<longleftrightarrow> (\<exists>l. s' = s\<lparr>sk_hits_total := sk_hits_total s + length hs,
     sk_hits_per_kind := foldl count_hit (sk_hits_per_kind s) hs, sk_log := l\<rparr>)"

lemma recorded_hits:
  "record_detector_hits env b s = Inr s' \<Longrightarrow> \<exists>hs. detect_in_block env b = Returns hs \<and> hits_joined hs s s'"
  by (auto simp: record_detector_hits_def hits_joined_def split: run.splits if_splits dest!: lines_frame
      intro: exI [of _ "sk_log s"])

lemma recorded_blocks:
  "each_soak (record_detector_hits env) bs s = Inr s' \<Longrightarrow>
    \<exists>hss. list_all2 (\<lambda>b hs. detect_in_block env b = Returns hs) bs hss \<and> hits_joined (concat hss) s s'"
proof (induction bs arbitrary: s)
  case Nil
  then show ?case by (auto simp: hits_joined_def intro: exI [of _ "sk_log s"])
next
  case (Cons b bs)
  then obtain s1 where s1: "record_detector_hits env b s = Inr s1" "each_soak (record_detector_hits env) bs s1 = Inr s'"
    by (auto simp: attempt_Inr_iff)
  obtain hs where hs: "detect_in_block env b = Returns hs" "hits_joined hs s s1" using recorded_hits [OF s1(1)] by blast
  obtain hss where hss: "list_all2 (\<lambda>b hs. detect_in_block env b = Returns hs) bs hss" "hits_joined (concat hss) s1 s'"
    using Cons.IH [OF s1(2)] by blast
  have "hits_joined (concat (hs # hss)) s s'"
    using hs(2) hss(2) by (auto simp: hits_joined_def add.assoc)
  with hs(1) hss(1) show ?case by (intro exI [of _ "hs # hss"]) simp
qed

lemma max_of_append:
  "max_of (xs @ ys) = (case max_of ys of None \<Rightarrow> max_of xs | Some d \<Rightarrow> highest_seen (max_of xs) d)"
  by (auto simp: max_of_def highest_seen_def Max.union)

section \<open>Every step keeps the tallies\<close>

lemma reconnects_snoc: "Max (insert 0 (f ` set (ds @ [e]))) = max (Max (insert 0 (f ` set ds))) (f e :: u64)"
proof -
  have "insert 0 (f ` set (ds @ [e])) = insert (f e) (insert 0 (f ` set ds))" by auto
  then show ?thesis by (simp only:) (simp add: max.commute)
qed

lemma driver_tallied:
  assumes "tallied env ns ds hits s" "on_driver_event env e s = Inr s'"
  shows "tallied env ns (ds @ [e]) hits s'"
proof -
  have "sk_reconnects s = Max (insert 0 (reconnects_of ` set ds))" using assms(1) by (simp add: tallied_def)
  then have "max (sk_reconnects s) (reconnects_of e) = Max (insert 0 (reconnects_of ` set (ds @ [e])))"
    by (simp only: reconnects_snoc)
  then show ?thesis
    using assms by (cases e) (auto simp: tallied_def simp del: set_append dest!: line_frame)
qed

lemma notification_tallied:
  assumes "tallied env ns ds hits s" "on_notification env n s = Inr s'"
  shows "\<exists>hss. tallied env (ns @ [n]) ds (hits @ hss) s'"
proof (cases n)
  case (BlockAdded b)
  then obtain s1 where s1: "record_detector_hits env b (s\<lparr>sk_block_added := sk_block_added s + 1,
      sk_highest_daa_seen := highest_seen (sk_highest_daa_seen s) (ib_daa b)\<rparr>) = Inr s1" "\<exists>l. s' = s1\<lparr>sk_log := l\<rparr>"
    using assms(2) by (simp add: BlockAdded attempt_Inr_iff) (metis line_frame)
  obtain hs where hs: "detect_in_block env b = Returns hs" "hits_joined hs (s\<lparr>sk_block_added := sk_block_added s + 1,
      sk_highest_daa_seen := highest_seen (sk_highest_daa_seen s) (ib_daa b)\<rparr>) s1"
    using recorded_hits [OF s1(1)] by blast
  have "tallied env (ns @ [n]) ds (hits @ [hs]) s1"
    using assms(1) hs kind_tally_counts [of "sk_hits_per_kind s" "concat hits" hs]
    by (auto simp: tallied_def BlockAdded hits_joined_def max_of_append list_all2_appendI) (simp add: max_of_def)
  then show ?thesis using s1(2) by auto
next
  case (VirtualChainChanged removed added)
  let ?s = "s\<lparr>sk_virtual_chain_changed := sk_virtual_chain_changed s + 1, sk_highest_daa_seen := (case max_of (map ib_daa added) of
      None \<Rightarrow> sk_highest_daa_seen s | Some daa \<Rightarrow> highest_seen (sk_highest_daa_seen s) daa)\<rparr>"
  obtain s1 where s1: "each_soak (record_detector_hits env) added ?s = Inr s1" "\<exists>l. s' = s1\<lparr>sk_log := l\<rparr>"
    using assms(2) by (simp add: VirtualChainChanged attempt_Inr_iff) (metis line_frame)
  obtain hss where hss: "list_all2 (\<lambda>b hs. detect_in_block env b = Returns hs) added hss" "hits_joined (concat hss) ?s s1"
    using recorded_blocks [OF s1(1)] by blast
  have "tallied env (ns @ [n]) ds (hits @ hss) s1"
    using assms(1) hss kind_tally_counts [of "sk_hits_per_kind s" "concat hits" "concat hss"]
    by (auto simp: tallied_def VirtualChainChanged hits_joined_def max_of_append list_all2_appendI split: option.split)
  then show ?thesis using s1(2) by auto
next
  case (RecoveryRequired lo hi reason)
  then have "tallied env (ns @ [n]) ds (hits @ []) s'"
    using assms by (auto simp: tallied_def dest!: line_frame)
  then show ?thesis by blast
qed

lemma total_tallied: "tallied env ns ds hits s \<Longrightarrow> soak_total s = length ns"
proof -
  have "length (filter block_added ns) + length (filter chain_changed ns) + length (filter recovery ns) = length ns"
  proof (induction ns)
    case (Cons n ns)
    then show ?case by (cases n) auto
  qed simp
  then show "tallied env ns ds hits s \<Longrightarrow> soak_total s = length ns" by (simp add: tallied_def soak_total_def)
qed

lemma initial_tallied: "tallied env [] [] [] initial_soak"
  by (simp add: tallied_def initial_soak_def max_of_def kind_tally_def)

lemma consumed_append:
  "notified_in (xs @ ys) = notified_in xs @ notified_in ys" "events_in (xs @ ys) = events_in xs @ events_in ys"
proof -
  show "notified_in (xs @ ys) = notified_in xs @ notified_in ys" by (induction xs rule: notified_in.induct) simp_all
  show "events_in (xs @ ys) = events_in xs @ events_in ys" by (induction xs rule: events_in.induct) simp_all
qed

definition within :: "soak_config \<Rightarrow> nat \<Rightarrow> bool" where
  "within cfg k \<longleftrightarrow> sc_max_notifications cfg = 0 \<or> k \<le> sc_max_notifications cfg"

lemma loop_tallied:
  assumes "soak_loop cfg env deadline es s = Inr (fin, s')" "tallied env ns ds hits s" "within cfg (length ns)"
  shows "\<exists>pre post hss. es = pre @ post \<and> length pre = length (notified_in pre) + length (events_in pre) \<and>
    tallied env (ns @ notified_in pre) (ds @ events_in pre) (hits @ hss) s' \<and> within cfg (length (ns @ notified_in pre)) \<and>
    (fin = Max_notifications \<longrightarrow> length (ns @ notified_in pre) = sc_max_notifications cfg)"
  using assms
proof (induction es arbitrary: s ns ds hits)
  case Nil
  then show ?case using total_tallied [OF Nil.prems(2)] by (auto simp: within_def intro!: exI [of _ "[]"] split: if_splits)
next
  case (Cons x es)
  obtain now selected where x: "x = (now, selected)" by force
  note total = total_tallied [OF Cons.prems(2)]
  have stop: ?case if "s' = s" "fin = Max_notifications \<Longrightarrow> length ns = sc_max_notifications cfg"
    using that Cons.prems(2,3) by (intro exI [of _ "[]"] exI [of _ "x # es"]) simp
  have go: ?case
    if "soak_loop cfg env deadline es s1 = Inr (fin, s')" "tallied env (ns @ notified_in [x]) (ds @ events_in [x]) (hits @ hss) s1"
      "within cfg (length (ns @ notified_in [x]))" "length (notified_in [x]) + length (events_in [x]) = 1" for s1 hss
  proof -
    from Cons.IH [OF that(1-3)] obtain pre post hss' where
      "es = pre @ post" "length pre = length (notified_in pre) + length (events_in pre)"
      "tallied env ((ns @ notified_in [x]) @ notified_in pre) ((ds @ events_in [x]) @ events_in pre) ((hits @ hss) @ hss') s'"
      "within cfg (length ((ns @ notified_in [x]) @ notified_in pre))"
      "fin = Max_notifications \<longrightarrow> length ((ns @ notified_in [x]) @ notified_in pre) = sc_max_notifications cfg"
      by blast
    then show ?thesis
      using that(4) consumed_append [of "[x]" pre]
      by (intro exI [of _ "x # pre"] exI [of _ post] exI [of _ "hss @ hss'"]) auto
  qed
  consider (stops) "s' = s" "fin = Max_notifications \<Longrightarrow> length ns = sc_max_notifications cfg"
    | (driver) e s1 where "selected = Driver_event (Some e)" "on_driver_event env e s = Inr s1" "soak_loop cfg env deadline es s1 = Inr (fin, s')"
    | (notified) n s1 where "selected = Notified (Some n)" "on_notification env n s = Inr s1" "soak_loop cfg env deadline es s1 = Inr (fin, s')"
        "\<not> (sc_max_notifications cfg \<noteq> 0 \<and> sc_max_notifications cfg \<le> length ns)"
    using Cons.prems total
    by (auto simp: x within_def attempt_Inr_iff split: if_splits soak_select.splits option.splits)
  then show ?case
  proof cases
    case stops
    then show ?thesis by (rule stop)
  next
    case driver
    have "tallied env ns (ds @ [e]) hits s1" by (rule driver_tallied [OF Cons.prems(2) driver(2)])
    then show ?thesis using go [of s1 "[]"] driver Cons.prems(3) by (simp add: x)
  next
    case notified
    obtain hss where "tallied env (ns @ [n]) ds (hits @ hss) s1" using notification_tallied [OF Cons.prems(2) notified(2)] by blast
    moreover have "within cfg (length (ns @ notified_in [x]))" using notified(1,4) by (auto simp: x within_def)
    ultimately show ?thesis using go [of s1 hss] notified by (simp add: x)
  qed
qed

text \<open>C40: the monitor's report is exact. When its loop ends, it has consumed a prefix of what its select yielded,
  nothing after it, and every counter of the report is that of this prefix: the notifications of each kind, the
  highest score of any block announced, the connections, the largest reconnect count, the ranges of the gaps in
  order, and the hits, in total and by kind, which are those that the node's own conversion finds in the
  same blocks. The limit on notifications is never exceeded, and it is reached when the loop says so.\<close>

theorem soak_report_exact:
  assumes "soak_loop cfg env deadline es initial_soak = Inr (fin, s)"
  shows "\<exists>pre post hits. es = pre @ post \<and> length pre = length (notified_in pre) + length (events_in pre) \<and>
    tallied env (notified_in pre) (events_in pre) hits s \<and>
    list_all2 (\<lambda>b hs. \<exists>x. block_from_rpc (se_hex_decode env) (se_hex_encode env) ser b = Returns x \<and> bb_hits x = hs)
      (concat (map new_blocks (notified_in pre))) hits \<and>
    (sc_max_notifications cfg \<noteq> 0 \<longrightarrow> length (notified_in pre) \<le> sc_max_notifications cfg) \<and>
    (fin = Max_notifications \<longrightarrow> length (notified_in pre) = sc_max_notifications cfg)"
proof -
  have "within cfg (length ([] :: chain_notification list))" by (simp add: within_def)
  from loop_tallied [OF assms initial_tallied this] obtain pre post hits where
    pre: "es = pre @ post" "length pre = length (notified_in pre) + length (events_in pre)"
      "tallied env (notified_in pre) (events_in pre) hits s" "within cfg (length (notified_in pre))"
      "fin = Max_notifications \<longrightarrow> length (notified_in pre) = sc_max_notifications cfg"
    by auto
  have "list_all2 (\<lambda>b hs. \<exists>x. block_from_rpc (se_hex_decode env) (se_hex_encode env) ser b = Returns x \<and> bb_hits x = hs)
      (concat (map new_blocks (notified_in pre))) hits"
    using pre(3) unfolding tallied_def
    by (auto elim!: list_all2_mono simp: block_from_rpc_def detect_in_block_def)
  moreover have "sc_max_notifications cfg \<noteq> 0 \<longrightarrow> length (notified_in pre) \<le> sc_max_notifications cfg"
    using pre(4) by (auto simp: within_def)
  ultimately show ?thesis using pre(1-3,5) by blast
qed

definition soak_sample :: "(nat \<times> soak_select) list" where
  "soak_sample = [(0, Driver_event (Some (Connected ''ws'' 0))), (1, Notified (Some (BlockAdded (header_block ''a'' 5 False)))),
     (2, Driver_event (Some (GapDetected ''ws'' 1 6 8))), (3, Notified (Some (RecoveryRequired 6 8 ''gap''))),
     (4, Notified (Some (BlockAdded (header_block ''b'' 9 False))))]"

definition soak_sample_config :: soak_config where
  "soak_sample_config = (soak_config_from_env (\<lambda>_. None))\<lparr>sc_max_notifications := 2\<rparr>"

definition soak_sample_env :: soak_env where
  "soak_sample_env = \<lparr>se_writer = True, se_open_error = None, se_write_error = (\<lambda>_. None), se_flush_error = None,
     se_summary_error = None, se_ts_ms = of_nat, se_print = (\<lambda>_. ''line''), se_hex_decode = base16_decode,
     se_hex_encode = base16_encode\<rparr>"

lemma soak_sample_run:
  "case soak_loop soak_sample_config soak_sample_env 100 soak_sample initial_soak of
    Inl e \<Rightarrow> False | Inr (fin, s) \<Rightarrow> fin = Max_notifications \<and> sk_observed_gap_ranges s = [(6, 8)]"
  by code_simp

lemma soak_report_exact_witness:
  "\<exists>pre post. soak_sample = pre @ post \<and> length (notified_in pre) = 2"
proof -
  obtain s where s: "soak_loop soak_sample_config soak_sample_env 100 soak_sample initial_soak = Inr (Max_notifications, s)"
    using soak_sample_run by (auto split: sum.splits)
  have "sc_max_notifications soak_sample_config = 2" by (simp add: soak_sample_config_def)
  with soak_report_exact [OF s, where ser = "\<lambda>_. []"] show ?thesis by auto
qed

end
