(* ===== verification/Smoke_Tools.thy ===== *)
theory Smoke_Tools
  imports Node_Config
begin

text \<open>
  The two small programs beside the node: the dump of the registry (\<open>bin/dump-registry.rs\<close>), whose schema describes
  exactly what a hit carries, and the smoke run against a live endpoint (\<open>examples/live_wrpc_smoke.rs\<close>).
  \<open>serde_json\<close>'s printing is a parameter; what is printed on the console is the result.
\<close>

section \<open>The registry dump\<close>

definition dump_registry :: "hex_decoder \<Rightarrow> string \<Rightarrow> (registry_schema_doc \<Rightarrow> string option) \<Rightarrow> string run" where
  "dump_registry hexd version to_pretty =
     run_bind (build_registry hexd) (\<lambda>reg.
       case to_pretty (registry_schema version reg) of None \<Rightarrow> Panics | Some json \<Rightarrow> Returns json)"

lemma window_inside:
  assumes "pm_ok m" "pm_matches m s" "w \<in> set (pm_windows m)"
  shows "w_offset w + w_len w \<le> length s"
proof (cases m)
  case (Exact f)
  then show ?thesis
    using assms by (auto simp: pm_ok_def fp_validate_def validate_windows_ok fp_matches_iff windows_ok_def)
next
  case (Anchored a)
  then have "w_offset w + w_len w \<le> length (af_head a)" "length (af_head a) \<le> length s"
    using assms by (auto simp: pm_ok_def af_validate_def validate_windows_ok windows_ok_def af_matches_iff)
  then show ?thesis by simp
qed

lemma fields_find: "map_of (map (\<lambda>w. (w_field w, w_len w)) ws) k = map_option w_len (find (\<lambda>w. w_field w = k) ws)"
  by (induction ws) auto

lemma described_field:
  assumes "pm_ok m" "pm_matches m s"
  shows "map_option length (field_value (pm_windows m) s k) = map_of (map (\<lambda>w. (w_field w, w_len w)) (pm_windows m)) k"
proof (cases "find (\<lambda>w. w_field w = k) (pm_windows m)")
  case (Some w)
  then have "w \<in> set (pm_windows m)" by (auto simp: find_Some_iff)
  from window_inside [OF assms this] Some show ?thesis by (simp add: field_value_def fields_find)
qed (simp add: field_value_def fields_find)

text \<open>The dump never panics, and it is true of every hit: the hit's kind is listed once, and its payload has
  exactly the fields listed for the kind, each a hexadecimal string of twice the bytes listed.\<close>

theorem dump_describes_hits:
  assumes "\<And>s. hexd s = base16_decode s" "\<And>bs. length (hexe bs) = 2 * length bs"
    and "\<And>doc. to_pretty doc = Some (show_doc doc)"
  shows "\<exists>doc. dump_registry hexd version to_pretty = Returns (show_doc doc) \<and> distinct (map sch_kind (rs_detectors doc)) \<and>
    (\<forall>hits. detect_in_output hexd hexe script tx ix = Returns hits \<longrightarrow> (\<forall>h \<in> set hits. \<exists>d \<in> set (rs_detectors doc).
      sch_kind d = dp_kind h \<and>
      (\<forall>k. map_option length (get_str (dp_payload h) k) = map_option (\<lambda>n. 2 * n) (map_of (sch_fields d) k))))"
proof -
  have h: "hexd = base16_decode" using assms(1) by auto
  obtain reg where reg: "build_registry base16_decode = Returns reg" "disjoint_registry reg"
      "map entry_kind reg = map fst registry_signatures"
    using registry_disjoint by blast
  let ?doc = "registry_schema version reg"
  have "\<exists>d \<in> set (rs_detectors ?doc). sch_kind d = dp_kind h \<and>
      (\<forall>k. map_option length (get_str (dp_payload h) k) = map_option (\<lambda>n. 2 * n) (map_of (sch_fields d) k))"
    if hits: "detect_entries hexe script tx ix reg = Returns hits" "h \<in> set hits" for hits h
  proof -
    obtain e where e: "e \<in> set reg" "pm_matches (entry_matcher e) script"
      using detect_none [of reg script hexe tx ix] hits by fastforce
    let ?m = "entry_matcher e"
    have ok: "pm_ok ?m" using reg(2) e(1) by (auto simp: disjoint_registry_def)
    obtain out where out: "bt_ok out" "map_of out = field_value (pm_windows ?m) script"
        "h = \<lparr>dp_kind = entry_kind e, dp_covenant_id = None, dp_tx_hash = tx, dp_output_index = ix,
          dp_payload = payload_to_json hexe out\<rparr>"
      using detect_disjoint [OF reg(2) e, of hexe tx ix] hits by auto
    have "map_option length (get_str (dp_payload h) k) = map_option (\<lambda>n. 2 * n) (map_option length (map_of out k))" for k
      using assms(2) by (simp add: out(3) payload_get [OF bt_ok_distinct [OF out(1)]] option.map_comp comp_def)
    then show ?thesis
      using e(1) described_field [OF ok e(2)] by (auto simp: registry_schema_def out(2,3))
  qed
  moreover have "distinct (map sch_kind (rs_detectors ?doc))"
    using arg_cong [OF reg(3), of distinct] by (simp add: registry_schema_def comp_def registry_signatures_def)
  ultimately show ?thesis
    using assms(3) by (intro exI [of _ ?doc]) (simp add: h dump_registry_def detect_in_output_def reg(1))
qed

section \<open>The smoke run\<close>

record smoke_config =
  sm_url :: string
  sm_max_messages :: nat
  sm_idle_timeout_ms :: nat

definition smoke_config_from_env :: "environment \<Rightarrow> smoke_config" where
  "smoke_config_from_env env =
     \<lparr>sm_url = env_or env ''KASGRAPH_WRPC_URL'' ''wss://eric.kaspa.stream/kaspa/mainnet/wrpc/json'',
      sm_max_messages = unat (env_parsed rust_parse_u64 env ''KASGRAPH_WRPC_MAX_MESSAGES'' 4),
      sm_idle_timeout_ms = unat (env_parsed rust_parse_u64 env ''KASGRAPH_WRPC_IDLE_TIMEOUT_MS'' 15000)\<rparr>"

definition smoke_client :: "string \<Rightarrow> rpc_client" where
  "smoke_client url = new_client \<lparr>cc_primary = \<lparr>ep_label = ''live-wrpc'', ep_url = url, ep_timeout = 20000\<rparr>,
     cc_backups = [], cc_health_probe_interval = 30000\<rparr>"

definition capabilities_line :: "live_rpc_capabilities \<Rightarrow> string" where
  "capabilities_line caps = (let server = lc_server_info caps; node = lc_node_info caps in
     ''capabilities endpoint='' @ lc_endpoint caps @ '' network='' @ si_network_id server @
     '' serverVersion='' @ si_server_version server @ '' rpcApiVersion='' @ u64_to_string (si_rpc_api_version server) @
     '' synced='' @ bool_to_string (si_is_synced server \<and> ni_is_synced node) @
     '' hasMessageId='' @ bool_to_string (ni_has_message_id node) @
     '' hasNotifyCommand='' @ bool_to_string (ni_has_notify_command node))"

definition captured_line :: "smoke_config \<Rightarrow> nat \<Rightarrow> string" where
  "captured_line cfg n = ''captured '' @ nat_to_string n @ '' notifications from '' @ sm_url cfg @
     '' (max_messages='' @ nat_to_string (sm_max_messages cfg) @ '', idle_timeout_ms='' @ nat_to_string (sm_idle_timeout_ms cfg) @ '')''"

definition block_text :: "ingested_block \<Rightarrow> string" where
  "block_text b = ''hash='' @ ib_hash b @ '' daa='' @ u64_to_string (ib_daa b) @ '' blue='' @ u64_to_string (ib_blue b) @
     '' finalized='' @ bool_to_string (ib_finalized b) @ '' served_by='' @ ib_served_by b"

fun notification_lines :: "nat \<Rightarrow> chain_notification \<Rightarrow> string list" where
  "notification_lines i (BlockAdded b) = [''['' @ nat_to_string i @ ''] BlockAdded '' @ block_text b]"
| "notification_lines i (VirtualChainChanged removed added) =
     (''['' @ nat_to_string i @ ''] VirtualChainChanged removed='' @ nat_to_string (length removed) @
       '' added='' @ nat_to_string (length added)) #
     map (\<lambda>b. ''    + '' @ block_text b) (take 3 added)"
| "notification_lines i (RecoveryRequired lo hi reason) =
     [''['' @ nat_to_string i @ ''] RecoveryRequired from='' @ u64_to_string lo @ '' to='' @ u64_to_string hi @
       '' reason='' @ reason]"

text \<open>The run: the lines printed, also those printed before an error ends it.\<close>

definition smoke_main ::
  "network \<Rightarrow> wire \<Rightarrow> environment \<Rightarrow> ws_connection \<Rightarrow> (rpc_error + unit) \<times> string list" where
  "smoke_main net w env conn =
     (let cfg = smoke_config_from_env env in
      case probe_live_capabilities net w (smoke_client (sm_url cfg)) of
        (Inl e, c) \<Rightarrow> (Inl e, [])
      | (Inr caps, c) \<Rightarrow>
          (case fst (read_notifications_ws net w (sm_url cfg) ''live-wrpc'' (sm_max_messages cfg) (sm_idle_timeout_ms cfg) conn c) of
             Inl e \<Rightarrow> (Inl e, [capabilities_line caps])
           | Inr ns \<Rightarrow> (Inr (), capabilities_line caps # captured_line cfg (length ns) #
               concat (map (\<lambda>(i, n). notification_lines i n) (enumerate 0 ns)))))"

lemma length_notification_lines: "length (notification_lines i n) \<le> 4"
  by (cases n) simp_all

text \<open>The output is bounded by the configuration, whatever the endpoint sends.\<close>

theorem smoke_bounded:
  "length (snd (smoke_main net w env conn)) \<le> 2 + 4 * sm_max_messages (smoke_config_from_env env)"
proof -
  let ?cfg = "smoke_config_from_env env"
  have bound: "length (concat (map (\<lambda>(i, n). notification_lines i n) (enumerate j ns))) \<le> 4 * length ns" for j ns
    using length_notification_lines by (induction ns arbitrary: j) (simp_all add: add_le_mono)
  have "length ns \<le> sm_max_messages ?cfg"
    if "fst (read_notifications_ws net w url sb (sm_max_messages ?cfg) idle conn c) = Inr ns" for url sb idle c ns
    using that by (auto simp: read_notifications_ws_def attempt_Inr split: option.splits prod.splits sum.splits)
  then have "length (concat (map (\<lambda>(i, n). notification_lines i n) (enumerate 0 ns))) \<le> 4 * sm_max_messages ?cfg"
    if "fst (read_notifications_ws net w url sb (sm_max_messages ?cfg) idle conn c) = Inr ns" for url sb idle c ns
    using that order.trans [OF bound mult_le_mono2] by blast
  then show ?thesis by (simp add: smoke_main_def Let_def split: prod.split sum.split)
qed

end
