(* ===== verification/Wasm_Runtime.thy ===== *)
theory Wasm_Runtime
  imports Mapping_Host Utf8
begin

unbundle bit_operations_syntax

text \<open>
  The mapping runtime of \<open>src/crates/kasgraph-mapping/src/lib.rs\<close>: its host functions, the exchange through
  the guest's memory and the classification of a failed call. The engine and the guest are parameters: a
  guest is a machine of any state type that runs to its next call of a host function, its return or a trap.
\<close>

section \<open>The guest\<close>

text \<open>An error of the engine; only running out of fuel is told apart, others have a text.\<close>

datatype wasm_error = OutOfFuel | Wasm_error string

datatype host_import =
    Import_log i32 i32 i32
  | Import_store_set i32 i32
  | Import_store_get i32 i32 i32 i32

datatype guest_action = Returned i32 | Trapped wasm_error | Calls host_import

text \<open>A compiled module: what it exports, and how an instance starts, runs, is called and resumed after a
  host function. The memory is read and replaced by the host. \<open>gm_text\<close> is the text of an
  error, \<open>gm_access_error\<close> that of a write outside the memory.\<close>

record 'g guest_module =
  gm_exports :: "string set"
  gm_memory_error :: bool
  gm_alloc_error :: "string option"
  gm_handlers :: "string set"
  gm_instantiate :: "u64 \<Rightarrow> 'g"
  gm_run :: "'g \<Rightarrow> guest_action \<times> 'g"
  gm_call :: "string \<Rightarrow> i32 list \<Rightarrow> 'g \<Rightarrow> 'g"
  gm_resume :: "i64 \<Rightarrow> 'g \<Rightarrow> 'g"
  gm_memory :: "'g \<Rightarrow> u8 list"
  gm_set_memory :: "u8 list \<Rightarrow> 'g \<Rightarrow> 'g"
  gm_fuel :: "'g \<Rightarrow> u64"
  gm_text :: "wasm_error \<Rightarrow> string"
  gm_access_error :: string

text \<open>Compilation and \<open>serde_json\<close>: reading an entity write, and printing a value.\<close>

record 'g engine =
  en_compile :: "u8 list \<Rightarrow> string + 'g guest_module"
  en_decode_op :: "u8 list \<Rightarrow> string + entity_op"
  en_to_vec :: "json \<Rightarrow> u8 list"

record 'g mapping_runtime =
  mr_module :: "'g guest_module"
  mr_fuel_limit :: u64

record host_state =
  hs_logs :: "mapping_log list"
  hs_entity_ops :: "entity_op list"
  hs_entities :: "string \<times> string \<Rightarrow> u8 list option"
  hs_decode_error :: "string option"

definition DEFAULT_FUEL :: u64 where "DEFAULT_FUEL = 50000000"

definition empty_host :: host_state where
  "empty_host = \<lparr>hs_logs = [], hs_entity_ops = [], hs_entities = Map.empty, hs_decode_error = None\<rparr>"

definition from_wasm :: "'g engine \<Rightarrow> u8 list \<Rightarrow> mapping_error + 'g mapping_runtime" where
  "from_wasm en wasm =
     (case en_compile en wasm of
        Inl e \<Rightarrow> Inl (Engine (''failed to compile module: '' @ e))
      | Inr gm \<Rightarrow>
          if ''memory'' \<notin> gm_exports gm then Inl (AbiMismatch ''guest module does not export `memory`'')
          else if ''kasgraph_alloc'' \<notin> gm_exports gm
          then Inl (AbiMismatch ''guest module does not export `kasgraph_alloc(i32) -> i32`'')
          else Inr \<lparr>mr_module = gm, mr_fuel_limit = DEFAULT_FUEL\<rparr>)"

definition with_fuel :: "u64 \<Rightarrow> 'g mapping_runtime \<Rightarrow> 'g mapping_runtime" where
  "with_fuel fuel rt = rt\<lparr>mr_fuel_limit := fuel\<rparr>"

section \<open>Guest memory\<close>

text \<open>\<open>usize\<close> has 64 bits; \<open>data.get(start..end)\<close> is the slice when it ends inside the memory.\<close>

definition read_guest_bytes :: "u8 list \<Rightarrow> i32 \<Rightarrow> i32 \<Rightarrow> string + u8 list" where
  "read_guest_bytes mem ptr len =
     (if ptr < 0 then Inl ''negative pointer''
      else if len < 0 then Inl ''negative length''
      else (let start = nat ptr; end = start + nat len in
        if 2 ^ 64 \<le> end then Inl ''pointer + length overflows''
        else if end \<le> length mem then Inr (take (nat len) (drop start mem))
        else Inl (''guest pointer '' @ nat_to_string start @ ''..'' @ nat_to_string end @ '' is out of bounds'')))"

definition read_guest_string :: "u8 list \<Rightarrow> i32 \<Rightarrow> i32 \<Rightarrow> string + string" where
  "read_guest_string mem ptr len = map_sum id from_utf8_lossy (read_guest_bytes mem ptr len)"

text \<open>\<open>Memory::write\<close> at \<open>ptr as usize\<close>, which makes a negative pointer a huge one.\<close>

definition write_guest :: "u8 list \<Rightarrow> i32 \<Rightarrow> u8 list \<Rightarrow> u8 list option" where
  "write_guest mem ptr bytes =
     (let start = (if ptr < 0 then nat (2 ^ 64 + ptr) else nat ptr) in
      if start + length bytes \<le> length mem
      then Some (take start mem @ bytes @ drop (start + length bytes) mem) else None)"

text \<open>\<open>(i64::from(ptr) << 32) | (i64::from(len) & 0xffff_ffff)\<close>.\<close>

definition pack_buffer :: "i32 \<Rightarrow> i32 \<Rightarrow> i64" where
  "pack_buffer ptr len = push_bit 32 ptr OR (len AND 4294967295)"

definition i32_try_from_len :: "nat \<Rightarrow> i32 option" where
  "i32_try_from_len n = (if n < 2 ^ 31 then Some (int n) else None)"

section \<open>Host functions\<close>

text \<open>What a host function does: fail, return a value, or have the guest allocate a buffer for some bytes.\<close>

datatype host_answer = Failed string | Resume i64 | Allocate "u8 list"

fun host_call ::
  "(u8 list \<Rightarrow> string + entity_op) \<Rightarrow> u8 list \<Rightarrow> host_import \<Rightarrow> host_state \<Rightarrow> host_answer \<times> host_state" where
  "host_call dec mem (Import_log level ptr len) h =
     (case read_guest_string mem ptr len of
        Inl e \<Rightarrow> (Failed e, h)
      | Inr message \<Rightarrow> (Resume 0, h\<lparr>hs_logs := hs_logs h @ [\<lparr>ml_level = level, ml_message = message\<rparr>]\<rparr>))"
| "host_call dec mem (Import_store_set ptr len) h =
     (case read_guest_bytes mem ptr len of
        Inl e \<Rightarrow> (Failed e, h)
      | Inr bytes \<Rightarrow>
          (case dec bytes of
             Inr op \<Rightarrow> (Resume 0, h\<lparr>hs_entity_ops := hs_entity_ops h @ [op]\<rparr>)
           | Inl e \<Rightarrow>
               (let msg = ''store_set received malformed entity-op JSON: '' @ e
                in (Failed msg, h\<lparr>hs_decode_error := Some msg\<rparr>))))"
| "host_call dec mem (Import_store_get entity_ptr entity_len id_ptr id_len) h =
     (case read_guest_string mem entity_ptr entity_len of
        Inl e \<Rightarrow> (Failed e, h)
      | Inr entity \<Rightarrow>
          (case read_guest_string mem id_ptr id_len of
             Inl e \<Rightarrow> (Failed e, h)
           | Inr i \<Rightarrow>
               (case hs_entities h (entity, i) of
                  None \<Rightarrow> (Resume 0, h)
                | Some bytes \<Rightarrow>
                    (case i32_try_from_len (length bytes) of
                       None \<Rightarrow> (Failed ''store_get value exceeds i32 length'', h)
                     | Some len \<Rightarrow> (Allocate bytes, h)))))"

text \<open>Running the guest to its return. A \<open>store_get\<close> that hits calls the guest's allocator, which may call
  host functions itself; the bytes waiting for their buffers are a stack.\<close>

partial_function (option) run_guest ::
  "(u8 list \<Rightarrow> string + entity_op) \<Rightarrow> 'g guest_module \<Rightarrow> u8 list list \<Rightarrow> 'g \<Rightarrow> host_state
     \<Rightarrow> ((wasm_error + i32) \<times> 'g \<times> host_state) option" where
  "run_guest dec gm pending g h =
     (case gm_run gm g of
        (Trapped e, g) \<Rightarrow> Some (Inl e, g, h)
      | (Returned v, g) \<Rightarrow>
          (case pending of
             [] \<Rightarrow> Some (Inr v, g, h)
           | bytes # pending \<Rightarrow>
               (case write_guest (gm_memory gm g) v bytes of
                  None \<Rightarrow> Some (Inl (Wasm_error (''store_get write out of bounds: '' @ gm_access_error gm)), g, h)
                | Some mem \<Rightarrow>
                    run_guest dec gm pending (gm_resume gm (pack_buffer v (int (length bytes))) (gm_set_memory gm mem g)) h))
      | (Calls c, g) \<Rightarrow>
          (case host_call dec (gm_memory gm g) c h of
             (Failed msg, h) \<Rightarrow> Some (Inl (Wasm_error msg), g, h)
           | (Resume v, h) \<Rightarrow> run_guest dec gm pending (gm_resume gm v g) h
           | (Allocate bytes, h) \<Rightarrow>
               run_guest dec gm (bytes # pending) (gm_call gm ''kasgraph_alloc'' [int (length bytes)] g) h))"

declare run_guest.simps [code]

section \<open>Dispatch\<close>

definition classify_trap :: "'g guest_module \<Rightarrow> string \<Rightarrow> wasm_error \<Rightarrow> mapping_error" where
  "classify_trap gm handler e =
     (if e = OutOfFuel then FuelExhausted handler else HandlerTrap handler (gm_text gm e))"

definition event_json :: "mapping_event \<Rightarrow> json" where
  "event_json ev = JObject
     [(''block'', JObject [(''daaScore'', JNumber (PosInt (me_daa ev))), (''hash'', JString (me_block_hash ev))]),
      (''payload'', me_payload ev)]"

definition finish_dispatch ::
  "'g mapping_runtime \<Rightarrow> string \<Rightarrow> (wasm_error + i32) \<times> 'g \<times> host_state \<Rightarrow> mapping_error + dispatch_outcome" where
  "finish_dispatch rt handler res =
     (case res of (r, g, h) \<Rightarrow>
        (case r of
           Inl e \<Rightarrow> Inl (case hs_decode_error h of Some d \<Rightarrow> DecodePayload d | None \<Rightarrow> classify_trap (mr_module rt) handler e)
         | Inr _ \<Rightarrow>
             Inr \<lparr>do_logs = hs_logs h, do_entity_ops = hs_entity_ops h,
               do_fuel = u64_saturating_sub (mr_fuel_limit rt) (gm_fuel (mr_module rt) g)\<rparr>))"

text \<open>The event's bytes are put into a buffer of the guest, then the handler is called on it.\<close>

definition call_handler ::
  "'g engine \<Rightarrow> 'g mapping_runtime \<Rightarrow> string \<Rightarrow> u8 list \<Rightarrow> i32 \<Rightarrow> 'g \<Rightarrow> host_state
     \<Rightarrow> (mapping_error + dispatch_outcome) option" where
  "call_handler en rt handler input len g h =
     (let gm = mr_module rt in
      case run_guest (en_decode_op en) gm [] (gm_call gm ''kasgraph_alloc'' [len] g) h of
        None \<Rightarrow> None
      | Some (Inl e, g, h) \<Rightarrow> Some (Inl (classify_trap gm handler e))
      | Some (Inr ptr, g, h) \<Rightarrow>
          (case write_guest (gm_memory gm g) ptr input of
             None \<Rightarrow> Some (Inl (AbiMismatch
               (''`kasgraph_alloc` returned an out-of-bounds pointer: '' @ gm_access_error gm)))
           | Some mem \<Rightarrow>
               map_option (finish_dispatch rt handler)
                 (run_guest (en_decode_op en) gm [] (gm_call gm handler [ptr, len] (gm_set_memory gm mem g)) h)))"

text \<open>A start function of the module runs when it is instantiated.\<close>

definition dispatch_inner ::
  "'g engine \<Rightarrow> 'g mapping_runtime \<Rightarrow> mapping_event \<Rightarrow> host_state \<Rightarrow> (mapping_error + dispatch_outcome) option" where
  "dispatch_inner en rt ev h =
     (let gm = mr_module rt; handler = me_handler ev in
      case run_guest (en_decode_op en) gm [] (gm_instantiate gm (mr_fuel_limit rt)) h of
        None \<Rightarrow> None
      | Some (Inl e, g, h) \<Rightarrow> Some (Inl (Engine (''instantiation failed: '' @ gm_text gm e)))
      | Some (Inr _, g, h) \<Rightarrow>
          if gm_memory_error gm then Some (Inl (AbiMismatch ''guest missing `memory` export''))
          else (case gm_alloc_error gm of
              Some e \<Rightarrow> Some (Inl (AbiMismatch (''`kasgraph_alloc` has the wrong signature: '' @ e)))
            | None \<Rightarrow>
          if handler \<notin> gm_handlers gm then Some (Inl (AbiMismatch (''guest has no handler export `'' @ handler @ ''`'')))
          else (let input = en_to_vec en (event_json ev) in
            case i32_try_from_len (length input) of
              None \<Rightarrow> Some (Inl (Engine ''event JSON exceeds i32 length''))
            | Some len \<Rightarrow> call_handler en rt handler input len g h)))"

definition dispatch_event ::
  "'g engine \<Rightarrow> 'g mapping_runtime \<Rightarrow> mapping_event \<Rightarrow> (mapping_error + dispatch_outcome) option" where
  "dispatch_event en rt ev = dispatch_inner en rt ev empty_host"

definition dispatch_with_entities ::
  "'g engine \<Rightarrow> 'g mapping_runtime \<Rightarrow> mapping_event \<Rightarrow> entity_snapshot \<Rightarrow> (mapping_error + dispatch_outcome) option" where
  "dispatch_with_entities en rt ev entities =
     dispatch_inner en rt ev (empty_host\<lparr>hs_entities := (\<lambda>k. map_option (en_to_vec en) (entities k))\<rparr>)"

end
