(* ===== verification/Wasm_Facts.thy ===== *)
theory Wasm_Facts
  imports Wasm_Runtime
begin

text \<open>
  What the mapping runtime guarantees: a dispatch to a guest whose fuel is counted returns, a guest reads through
  \<open>store_get\<close> exactly the committed entity, and it leaves exactly the logs and writes of its calls.
\<close>

section \<open>A dispatch returns\<close>

text \<open>A bound \<open>mu\<close> on what an instance may still do: every run to a call of a host function uses some of it, a run
  to a return adds none, and neither does anything the host does.\<close>

definition metered :: "'g guest_module \<Rightarrow> ('g \<Rightarrow> nat) \<Rightarrow> bool" where
  "metered gm mu \<longleftrightarrow>
     (\<forall>g c g'. gm_run gm g = (Calls c, g') \<longrightarrow> mu g' < mu g) \<and> (\<forall>g v g'. gm_run gm g = (Returned v, g') \<longrightarrow> mu g' \<le> mu g) \<and>
     (\<forall>v g. mu (gm_resume gm v g) \<le> mu g) \<and> (\<forall>f args g. mu (gm_call gm f args g) \<le> mu g) \<and>
     (\<forall>mem g. mu (gm_set_memory gm mem g) \<le> mu g)"

text \<open>The engine's fuel is such a bound: an instance starts with the fuel it is given, a call of a host function costs
  some, and none is ever added.\<close>

definition fuel_metered :: "'g guest_module \<Rightarrow> bool" where
  "fuel_metered gm \<longleftrightarrow> (\<forall>fuel. gm_fuel gm (gm_instantiate gm fuel) = fuel) \<and>
     (\<forall>g c g'. gm_run gm g = (Calls c, g') \<longrightarrow> gm_fuel gm g' < gm_fuel gm g) \<and>
     (\<forall>g v g'. gm_run gm g = (Returned v, g') \<longrightarrow> gm_fuel gm g' \<le> gm_fuel gm g) \<and>
     (\<forall>v g. gm_fuel gm (gm_resume gm v g) \<le> gm_fuel gm g) \<and>
     (\<forall>f args g. gm_fuel gm (gm_call gm f args g) \<le> gm_fuel gm g) \<and>
     (\<forall>mem g. gm_fuel gm (gm_set_memory gm mem g) \<le> gm_fuel gm g)"

abbreviation fuel_left :: "'g guest_module \<Rightarrow> 'g \<Rightarrow> nat" where
  "fuel_left gm g \<equiv> unat (gm_fuel gm g)"

lemma fuel_metered: "fuel_metered gm \<Longrightarrow> metered gm (fuel_left gm)"
  by (auto simp: fuel_metered_def metered_def word_le_nat_alt word_less_nat_alt)

definition host_output :: "host_state \<Rightarrow> nat" where
  "host_output h = length (hs_logs h) + length (hs_entity_ops h)"

lemma host_call_output: "host_call dec mem c h = (ans, h') \<Longrightarrow> host_output h' \<le> Suc (host_output h)"
  by (cases c) (auto simp: host_output_def Let_def split: sum.splits option.splits)

text \<open>A run uses at least one unit of the bound for each log and write it adds.\<close>

definition paid :: "('g \<Rightarrow> nat) \<Rightarrow> 'g \<Rightarrow> host_state \<Rightarrow> (wasm_error + i32) \<times> 'g \<times> host_state \<Rightarrow> bool" where
  "paid mu g h res \<longleftrightarrow> (case res of (r, g', h') \<Rightarrow> isl r \<or> host_output h' + mu g' \<le> host_output h + mu g)"

lemma paid_mono:
  "paid mu g1 h1 res \<Longrightarrow> host_output h1 + mu g1 \<le> host_output h + mu g \<Longrightarrow> paid mu g h res"
  by (auto simp: paid_def split: prod.splits)

lemma metered_le:
  assumes "metered gm mu"
  shows "mu (gm_resume gm v g) \<le> mu g" and "mu (gm_call gm f args g) \<le> mu g" and "mu (gm_set_memory gm mem g) \<le> mu g"
    and "gm_run gm g = (Calls c, g') \<Longrightarrow> mu g' < mu g" and "gm_run gm g = (Returned x, g') \<Longrightarrow> mu g' \<le> mu g"
  using assms by (auto simp: metered_def)

text \<open>Each step uses some of the bound or, at a return, takes a waiting buffer off the stack.\<close>

lemma run_guest_returns:
  assumes "metered gm mu"
  shows "\<exists>res. run_guest dec gm pending g h = Some res \<and> paid mu g h res"
proof (induction "(mu g, length pending)" arbitrary: pending g h
    rule: wf_induct_rule [OF wf_lex_prod [OF wf_less_than wf_less_than]])
  case 1
  have again: "\<exists>res. run_guest dec gm p x k = Some res \<and> paid mu g h res"
    if "mu x < mu g \<or> mu x \<le> mu g \<and> length p < length pending"
      "host_output k + mu x \<le> host_output h + mu g" for p x k
    using 1 [of x p k] that paid_mono [of mu x k _ h g] by (auto simp: le_less)
  note le = metered_le [OF assms]
  obtain a g1 where run: "gm_run gm g = (a, g1)" by force
  show ?case
  proof (cases a)
    case (Trapped e)
    then show ?thesis by (simp add: run_guest.simps [of dec gm _ g] run paid_def)
  next
    case (Returned v)
    note fuel = le(5) [OF run [unfolded Returned]]
    show ?thesis
    proof (cases pending)
      case Nil
      then show ?thesis using fuel by (simp add: run_guest.simps [of dec gm _ g] run Returned paid_def)
    next
      case (Cons bytes rest)
      show ?thesis
      proof (cases "write_guest (gm_memory gm g1) v bytes")
        case (Some mem)
        let ?x = "gm_resume gm (pack_buffer v (int (length bytes))) (gm_set_memory gm mem g1)"
        have "mu ?x \<le> mu g"
          using le(1) [of "pack_buffer v (int (length bytes))" "gm_set_memory gm mem g1"] le(3) [of mem g1] fuel by linarith
        then show ?thesis
          using again [of ?x rest h] by (simp add: run_guest.simps [of dec gm _ g] run Returned Cons Some)
      qed (simp add: run_guest.simps [of dec gm _ g] run Returned Cons paid_def)
    qed
  next
    case (Calls c)
    note fuel = le(4) [OF run [unfolded Calls]]
    obtain ans h1 where c: "host_call dec (gm_memory gm g1) c h = (ans, h1)" by force
    have step: "\<exists>res. run_guest dec gm p x h1 = Some res \<and> paid mu g h res" if "mu x \<le> mu g1" for x p
      using that fuel host_call_output [OF c] by (intro again) linarith+
    show ?thesis
      using step [OF le(1)] step [OF le(2)]
      by (cases ans) (simp_all add: run_guest.simps [of dec gm _ g] run Calls c paid_def)
  qed
qed

lemma run_guest_some: "metered gm mu \<Longrightarrow> run_guest dec gm pending g h \<noteq> None"
  using run_guest_returns [of gm mu dec pending g h] by auto

lemma call_handler_returns: "metered (mr_module rt) mu \<Longrightarrow> call_handler en rt handler input len g h \<noteq> None"
  using run_guest_some by (fastforce simp: call_handler_def Let_def split: option.split sum.split prod.split)

lemma dispatch_inner_returns: "metered (mr_module rt) mu \<Longrightarrow> dispatch_inner en rt ev h \<noteq> None"
  using run_guest_some call_handler_returns
  by (fastforce simp: dispatch_inner_def Let_def split: option.split sum.split prod.split)

lemma mapping_returns: "metered (mr_module rt) mu \<Longrightarrow> \<exists>r. dispatch_with_entities en rt ev entities = Some r"
  unfolding dispatch_with_entities_def using dispatch_inner_returns by blast

text \<open>What a dispatch reports when it ends with an outcome.\<close>

definition within_fuel :: "u64 \<Rightarrow> mapping_error + dispatch_outcome \<Rightarrow> bool" where
  "within_fuel limit r \<longleftrightarrow> (case r of
     Inl e \<Rightarrow> True
   | Inr out \<Rightarrow> length (do_logs out) + length (do_entity_ops out) \<le> unat (do_fuel out) \<and> do_fuel out \<le> limit)"

lemma finish_dispatch_within:
  assumes "paid (fuel_left (mr_module rt)) g h res" "host_output h + fuel_left (mr_module rt) g \<le> unat (mr_fuel_limit rt)"
  shows "within_fuel (mr_fuel_limit rt) (finish_dispatch rt handler res)"
proof -
  obtain r g' h' where res: "res = (r, g', h')" by (cases res)
  show ?thesis
  proof (cases r)
    case (Inr v)
    then have "host_output h' + fuel_left (mr_module rt) g' \<le> unat (mr_fuel_limit rt)"
      using assms by (simp add: paid_def res)
    then show ?thesis
      by (simp add: res Inr finish_dispatch_def within_fuel_def unat_saturating_sub word_le_nat_alt host_output_def)
  qed (simp add: res finish_dispatch_def within_fuel_def)
qed

lemma call_handler_within:
  assumes m: "fuel_metered (mr_module rt)" and fits: "host_output h + fuel_left (mr_module rt) g \<le> unat (mr_fuel_limit rt)"
  shows "\<exists>r. call_handler en rt handler input len g h = Some r \<and> within_fuel (mr_fuel_limit rt) r"
proof -
  let ?gm = "mr_module rt"
  note le = metered_le [OF fuel_metered [OF m]]
  obtain r1 g1 h1 where alloc: "run_guest (en_decode_op en) ?gm [] (gm_call ?gm ''kasgraph_alloc'' [len] g) h = Some (r1, g1, h1)"
      "paid (fuel_left ?gm) (gm_call ?gm ''kasgraph_alloc'' [len] g) h (r1, g1, h1)"
    using run_guest_returns [OF fuel_metered [OF m]] by (metis prod_cases3)
  show ?thesis
  proof (cases r1)
    case (Inr ptr)
    then have left: "host_output h1 + fuel_left ?gm g1 \<le> unat (mr_fuel_limit rt)"
      using alloc(2) fits le(2) [of "''kasgraph_alloc''" "[len]" g] by (simp add: paid_def)
    show ?thesis
    proof (cases "write_guest (gm_memory ?gm g1) ptr input")
      case (Some mem)
      let ?g = "gm_call ?gm handler [ptr, len] (gm_set_memory ?gm mem g1)"
      obtain res where res: "run_guest (en_decode_op en) ?gm [] ?g h1 = Some res" "paid (fuel_left ?gm) ?g h1 res"
        using run_guest_returns [OF fuel_metered [OF m]] by blast
      have "host_output h1 + fuel_left ?gm ?g \<le> unat (mr_fuel_limit rt)"
        using left le(2) [of handler "[ptr, len]" "gm_set_memory ?gm mem g1"] le(3) [of mem g1] by linarith
      from finish_dispatch_within [OF res(2) this] res(1) show ?thesis
        by (simp add: call_handler_def alloc(1) Inr Some)
    qed (simp add: call_handler_def alloc(1) Inr within_fuel_def)
  qed (simp add: call_handler_def alloc(1) within_fuel_def)
qed

lemma dispatch_inner_within:
  assumes m: "fuel_metered (mr_module rt)" and fresh: "host_output h = 0"
  shows "\<exists>r. dispatch_inner en rt ev h = Some r \<and> within_fuel (mr_fuel_limit rt) r"
proof -
  let ?gm = "mr_module rt"
  obtain r1 g1 h1 where start: "run_guest (en_decode_op en) ?gm [] (gm_instantiate ?gm (mr_fuel_limit rt)) h = Some (r1, g1, h1)"
      "paid (fuel_left ?gm) (gm_instantiate ?gm (mr_fuel_limit rt)) h (r1, g1, h1)"
    using run_guest_returns [OF fuel_metered [OF m]] by (metis prod_cases3)
  show ?thesis
  proof (cases r1)
    case (Inr v)
    then have "host_output h1 + fuel_left ?gm g1 \<le> unat (mr_fuel_limit rt)"
      using start(2) m fresh by (simp add: paid_def fuel_metered_def)
    note handled = call_handler_within [OF m this]
    show ?thesis
      using handled by (auto simp: dispatch_inner_def Let_def start(1) Inr within_fuel_def split: option.split)
  qed (simp add: dispatch_inner_def start(1) within_fuel_def)
qed

text \<open>C26: the fuel limit stops a mapping. If the engine counts fuel, starting an instance with what it is given and using some
  before each call of a host function, then a dispatch of any event with any snapshot returns an outcome or an error; and
  an outcome reports no more fuel than the limit, and no more logs and entity writes than the fuel it reports.\<close>

theorem mapping_dispatch_returns:
  assumes "fuel_metered (mr_module rt)"
  shows "\<exists>r. dispatch_with_entities en rt ev entities = Some r \<and>
    (case r of
       Inl e \<Rightarrow> True
     | Inr out \<Rightarrow> length (do_logs out) + length (do_entity_ops out) \<le> unat (do_fuel out) \<and> do_fuel out \<le> mr_fuel_limit rt)"
  using dispatch_inner_within [OF assms, of _ en ev]
  unfolding dispatch_with_entities_def within_fuel_def by (simp add: host_output_def empty_host_def)

text \<open>A guest that plays a list of actions on a budget, for concrete runs: its handler reads the entity named in
  its memory and writes back what it was given.\<close>

type_synonym player = "u64 \<times> guest_action list \<times> u8 list"

definition player_run :: "player \<Rightarrow> guest_action \<times> player" where
  "player_run p = (case p of (n, acts, mem) \<Rightarrow>
     (case acts of [] \<Rightarrow> (Trapped OutOfFuel, p)
      | a # acts \<Rightarrow> if n = 0 then (Trapped OutOfFuel, p) else (a, (n - 1, acts, mem))))"

definition player_call :: "string \<Rightarrow> i32 list \<Rightarrow> player \<Rightarrow> player" where
  "player_call f args p = (case p of (n, acts, mem) \<Rightarrow>
     if f = ''kasgraph_alloc'' then (n, Returned 8 # acts, mem)
     else (n, [Calls (Import_store_get 0 1 1 1), Calls (Import_store_set 8 2), Returned 0], mem))"

definition player_module :: "player guest_module" where
  "player_module = \<lparr>gm_exports = {''memory'', ''kasgraph_alloc'', ''handle''}, gm_memory_error = False,
     gm_alloc_error = None, gm_handlers = {''handle''}, gm_instantiate = (\<lambda>fuel. (fuel, [Returned 0], [66, 98] @ replicate 14 0)),
     gm_run = player_run, gm_call = player_call, gm_resume = (\<lambda>_ p. p), gm_memory = (\<lambda>(n, acts, mem). mem),
     gm_set_memory = (\<lambda>mem (n, acts, _). (n, acts, mem)), gm_fuel = fst,
     gm_text = (\<lambda>_. ''trap''), gm_access_error = ''out of bounds memory access''\<rparr>"

definition player_engine :: "player engine" where
  "player_engine = \<lparr>en_compile = (\<lambda>_. Inr player_module),
     en_decode_op = (\<lambda>b. Inr \<lparr>eo_entity = ''B'', eo_id = ''b'', eo_data = JString (string_of_bytes b)\<rparr>),
     en_to_vec = (\<lambda>v. case v of JNull \<Rightarrow> [110, 117] | _ \<Rightarrow> [123])\<rparr>"

definition player_event :: mapping_event where
  "player_event = \<lparr>me_daa = 5, me_block_hash = ''a'', me_payload = JNull, me_handler = ''handle''\<rparr>"

lemma player_metered: "fuel_metered player_module"
proof -
  have "n - 1 < n" if "n \<noteq> 0" for n :: u64
    using that by (simp add: word_less_nat_alt unat_minus_one unat_gt_0)
  then show ?thesis
    by (auto simp: fuel_metered_def player_module_def player_run_def player_call_def less_imp_le split: list.splits if_splits)
qed

lemma mapping_dispatch_returns_witness:
  "\<exists>out. dispatch_with_entities player_engine \<lparr>mr_module = player_module, mr_fuel_limit = 9\<rparr> player_event
      [(''B'', ''b'') \<mapsto> JNull] = Some (Inr out) \<and>
    map eo_data (do_entity_ops out) = [JString ''nu''] \<and> length (do_logs out) + length (do_entity_ops out) \<le> unat (do_fuel out)"
proof -
  let ?rt = "\<lparr>mr_module = player_module, mr_fuel_limit = 9\<rparr>"
  have "fuel_metered (mr_module ?rt)" by (simp add: player_metered)
  then obtain r where r: "dispatch_with_entities player_engine ?rt player_event [(''B'', ''b'') \<mapsto> JNull] = Some r"
      "\<forall>out. r = Inr out \<longrightarrow> length (do_logs out) + length (do_entity_ops out) \<le> unat (do_fuel out)"
    using mapping_dispatch_returns [of ?rt] by fastforce
  moreover have "case dispatch_with_entities player_engine ?rt player_event [(''B'', ''b'') \<mapsto> JNull] of
      Some (Inr out) \<Rightarrow> map eo_data (do_entity_ops out) = [JString ''nu''] | _ \<Rightarrow> False"
    by code_simp
  ultimately show ?thesis by (auto split: sum.splits)
qed

section \<open>Memory\<close>

lemma write_guest_inside:
  assumes "0 \<le> ptr" "nat ptr + length bytes \<le> length mem"
  shows "\<exists>mem'. write_guest mem ptr bytes = Some mem' \<and> length mem' = length mem \<and>
    take (nat ptr) mem' = take (nat ptr) mem \<and> take (length bytes) (drop (nat ptr) mem') = bytes \<and>
    drop (nat ptr + length bytes) mem' = drop (nat ptr + length bytes) mem"
  using assms by (simp add: write_guest_def Let_def)

lemma pack_buffer_eq:
  assumes "0 \<le> len" "len < 2 ^ 32"
  shows "pack_buffer ptr len = ptr * 2 ^ 32 + len"
proof -
  have "len AND 4294967295 = len"
    using assms take_bit_int_eq_self [of len 32] by (simp add: take_bit_eq_mask mask_eq_exp_minus_1)
  moreover have "push_bit 32 ptr AND len = 0"
  proof (rule bit_eqI)
    fix n
    show "bit (push_bit 32 ptr AND len) n \<longleftrightarrow> bit (0 :: int) n"
    proof (cases "n < 32")
      case False
      have "bit len n \<longleftrightarrow> bit (take_bit 32 len) n" using assms by (simp add: take_bit_int_eq_self)
      then show ?thesis using False by (simp add: bit_simps)
    qed (simp add: bit_simps)
  qed
  then have "push_bit 32 ptr OR len = push_bit 32 ptr + len"
    by (simp add: disjunctive_add_eq_or)
  ultimately show ?thesis by (simp add: pack_buffer_def push_bit_eq_mult)
qed

text \<open>C24: \<open>store_get\<close> hands over exactly the committed entity. When a guest asks for an entity, it is resumed
  with 0 if the snapshot has none. Otherwise, if its allocator returns a buffer that fits, it is resumed
  with a non-zero value from which it reads back the buffer's pointer and length, the buffer holds the
  entity's bytes, and the rest of its memory is as it was.\<close>

theorem store_get_delivers:
  assumes "gm_run gm g = (Calls (Import_store_get ep el ip il), g1)"
    and "read_guest_string (gm_memory gm g1) ep el = Inr entity" "read_guest_string (gm_memory gm g1) ip il = Inr i"
  shows "case hs_entities h (entity, i) of
      None \<Rightarrow> run_guest dec gm pending g h = run_guest dec gm pending (gm_resume gm 0 g1) h
    | Some bytes \<Rightarrow>
        \<forall>p g2. gm_run gm (gm_call gm ''kasgraph_alloc'' [int (length bytes)] g1) = (Returned p, g2) \<and> 0 \<le> p \<and>
          nat p + length bytes \<le> length (gm_memory gm g2) \<and> 0 < length bytes \<and> length bytes < 2 ^ 31 \<longrightarrow>
          (\<exists>v mem. run_guest dec gm pending g h = run_guest dec gm pending (gm_resume gm v (gm_set_memory gm mem g2)) h \<and>
            v \<noteq> 0 \<and> v div 2 ^ 32 = p \<and> v mod 2 ^ 32 = int (length bytes) \<and>
            take (length bytes) (drop (nat p) mem) = bytes \<and> length mem = length (gm_memory gm g2) \<and>
            take (nat p) mem = take (nat p) (gm_memory gm g2) \<and>
            drop (nat p + length bytes) mem = drop (nat p + length bytes) (gm_memory gm g2))"
proof (cases "hs_entities h (entity, i)")
  case None
  then show ?thesis using assms by (simp add: run_guest.simps [of dec gm _ g])
next
  case (Some bytes)
  have "\<exists>v mem. run_guest dec gm pending g h = run_guest dec gm pending (gm_resume gm v (gm_set_memory gm mem g2)) h \<and>
      v \<noteq> 0 \<and> v div 2 ^ 32 = p \<and> v mod 2 ^ 32 = int (length bytes) \<and>
      take (length bytes) (drop (nat p) mem) = bytes \<and> length mem = length (gm_memory gm g2) \<and>
      take (nat p) mem = take (nat p) (gm_memory gm g2) \<and>
      drop (nat p + length bytes) mem = drop (nat p + length bytes) (gm_memory gm g2)"
    if alloc: "gm_run gm (gm_call gm ''kasgraph_alloc'' [int (length bytes)] g1) = (Returned p, g2)"
      and p: "0 \<le> p" "nat p + length bytes \<le> length (gm_memory gm g2)" "0 < length bytes" "length bytes < 2 ^ 31" for p g2
  proof -
    obtain mem where mem: "write_guest (gm_memory gm g2) p bytes = Some mem" "length mem = length (gm_memory gm g2)"
        "take (nat p) mem = take (nat p) (gm_memory gm g2)" "take (length bytes) (drop (nat p) mem) = bytes"
        "drop (nat p + length bytes) mem = drop (nat p + length bytes) (gm_memory gm g2)"
      using write_guest_inside [OF p(1,2)] by blast
    have "run_guest dec gm pending g h = run_guest dec gm (bytes # pending) (gm_call gm ''kasgraph_alloc'' [int (length bytes)] g1) h"
      using assms Some p(4) by (simp add: run_guest.simps [of dec gm _ g] i32_try_from_len_def)
    also have "\<dots> = run_guest dec gm pending
        (gm_resume gm (pack_buffer p (int (length bytes))) (gm_set_memory gm mem g2)) h"
      by (simp add: run_guest.simps [of dec gm "bytes # pending"] alloc mem(1))
    finally have run: "run_guest dec gm pending g h = \<dots>" .
    have len: "0 \<le> int (length bytes)" "int (length bytes) < 2 ^ 32" using p(4) by simp_all
    have "pack_buffer p (int (length bytes)) = p * 2 ^ 32 + int (length bytes)" using pack_buffer_eq [OF len] .
    moreover have "0 < p * 2 ^ 32 + int (length bytes)" using p(1,3) by (intro add_nonneg_pos) simp_all
    ultimately have "pack_buffer p (int (length bytes)) \<noteq> 0" by (metis less_irrefl)
    moreover have "pack_buffer p (int (length bytes)) div 2 ^ 32 = p"
        "pack_buffer p (int (length bytes)) mod 2 ^ 32 = int (length bytes)"
      using pack_buffer_eq [OF len, of p] len by simp_all
    ultimately show ?thesis using run mem by blast
  qed
  then show ?thesis by (simp add: Some)
qed

lemma store_get_delivers_witness:
  "\<exists>v mem. run_guest (en_decode_op player_engine) player_module [] (9, [Calls (Import_store_get 0 1 1 1), Returned 0], [66, 98] @ replicate 14 0)
      (empty_host\<lparr>hs_entities := [(''B'', ''b'') \<mapsto> [110, 117]]\<rparr>) =
    run_guest (en_decode_op player_engine) player_module [] (7, [Returned 0], mem) (empty_host\<lparr>hs_entities := [(''B'', ''b'') \<mapsto> [110, 117]]\<rparr>) \<and>
    v div 2 ^ 32 = (8 :: int) \<and> take 2 (drop 8 mem) = [110, 117]"
proof -
  let ?g = "(9, [Calls (Import_store_get 0 1 1 1), Returned 0], [66, 98] @ replicate 14 0) :: player"
    and ?g1 = "(8, [Returned 0], [66, 98] @ replicate 14 0) :: player"
  have run: "gm_run player_module ?g = (Calls (Import_store_get 0 1 1 1), ?g1)" by code_simp
  have entity: "read_guest_string (gm_memory player_module ?g1) 0 1 = Inr ''B''" by code_simp
  have i: "read_guest_string (gm_memory player_module ?g1) 1 1 = Inr ''b''" by code_simp
  have alloc: "gm_run player_module (gm_call player_module ''kasgraph_alloc'' [int (length ([110, 117] :: u8 list))] ?g1) =
      (Returned 8, (7, [Returned 0], [66, 98] @ replicate 14 0))" by code_simp
  have fits: "(0 :: int) \<le> 8" "nat 8 + length ([110, 117] :: u8 list) \<le> length (gm_memory player_module (7, [Returned 0], [66, 98] @ replicate 14 0))"
    by (simp_all add: player_module_def)
  from store_get_delivers [OF run entity i, where h = "empty_host\<lparr>hs_entities := [(''B'', ''b'') \<mapsto> [110, 117]]\<rparr>"
      and dec = "en_decode_op player_engine" and pending = "[]"]
  have "\<exists>v mem. run_guest (en_decode_op player_engine) player_module [] ?g (empty_host\<lparr>hs_entities := [(''B'', ''b'') \<mapsto> [110, 117]]\<rparr>) =
      run_guest (en_decode_op player_engine) player_module []
        (gm_resume player_module v (gm_set_memory player_module mem (7, [Returned 0], [66, 98] @ replicate 14 0)))
        (empty_host\<lparr>hs_entities := [(''B'', ''b'') \<mapsto> [110, 117]]\<rparr>) \<and>
      v div 2 ^ 32 = 8 \<and> take (length ([110, 117] :: u8 list)) (drop (nat 8) mem) = [110, 117]"
    using alloc fits by fastforce
  moreover have "gm_resume player_module v (gm_set_memory player_module mem (7, [Returned 0], [66, 98] @ replicate 14 0)) =
      (7, [Returned 0], mem)" for v mem
    by (simp add: player_module_def)
  moreover have "length ([110, 117] :: u8 list) = 2" "nat 8 = 8" by simp_all
  ultimately show ?thesis by metis
qed

section \<open>Isolation\<close>

text \<open>What one call of a host function is to leave behind, read off the memory it is made with: the log it adds, the
  entity write it adds, or the error of a malformed write.\<close>

fun call_logs :: "u8 list \<times> host_import \<Rightarrow> mapping_log list" where
  "call_logs (mem, Import_log level ptr len) =
     (case read_guest_string mem ptr len of Inl e \<Rightarrow> [] | Inr msg \<Rightarrow> [\<lparr>ml_level = level, ml_message = msg\<rparr>])"
| "call_logs (mem, c) = []"

fun call_writes :: "(u8 list \<Rightarrow> string + entity_op) \<Rightarrow> u8 list \<times> host_import \<Rightarrow> entity_op list" where
  "call_writes dec (mem, Import_store_set ptr len) =
     (case read_guest_bytes mem ptr len of
        Inl e \<Rightarrow> [] | Inr bytes \<Rightarrow> (case dec bytes of Inl e \<Rightarrow> [] | Inr op \<Rightarrow> [op]))"
| "call_writes dec (mem, c) = []"

fun malformed_write :: "(u8 list \<Rightarrow> string + entity_op) \<Rightarrow> u8 list \<times> host_import \<Rightarrow> string option" where
  "malformed_write dec (mem, Import_store_set ptr len) =
     (case read_guest_bytes mem ptr len of
        Inl e \<Rightarrow> None | Inr bytes \<Rightarrow> (case dec bytes of Inl e \<Rightarrow> Some e | Inr op \<Rightarrow> None))"
| "malformed_write dec (mem, c) = None"

text \<open>The host functions a run calls, each with the memory it finds, in order.\<close>

inductive calls_made ::
  "(u8 list \<Rightarrow> string + entity_op) \<Rightarrow> 'g guest_module \<Rightarrow> u8 list list \<Rightarrow> 'g \<Rightarrow> host_state \<Rightarrow> (u8 list \<times> host_import) list \<Rightarrow> bool"
  for dec gm where
  trap: "gm_run gm g = (Trapped e, g1) \<Longrightarrow> calls_made dec gm pending g h []"
| return: "gm_run gm g = (Returned v, g1) \<Longrightarrow> calls_made dec gm [] g h []"
| misplaced: "gm_run gm g = (Returned v, g1) \<Longrightarrow> write_guest (gm_memory gm g1) v bytes = None \<Longrightarrow>
    calls_made dec gm (bytes # pending) g h []"
| buffer: "gm_run gm g = (Returned v, g1) \<Longrightarrow> write_guest (gm_memory gm g1) v bytes = Some mem \<Longrightarrow>
    calls_made dec gm pending (gm_resume gm (pack_buffer v (int (length bytes))) (gm_set_memory gm mem g1)) h cs \<Longrightarrow>
    calls_made dec gm (bytes # pending) g h cs"
| failed: "gm_run gm g = (Calls c, g1) \<Longrightarrow> host_call dec (gm_memory gm g1) c h = (Failed msg, h1) \<Longrightarrow>
    calls_made dec gm pending g h [(gm_memory gm g1, c)]"
| resumed: "gm_run gm g = (Calls c, g1) \<Longrightarrow> host_call dec (gm_memory gm g1) c h = (Resume v, h1) \<Longrightarrow>
    calls_made dec gm pending (gm_resume gm v g1) h1 cs \<Longrightarrow> calls_made dec gm pending g h ((gm_memory gm g1, c) # cs)"
| allocating: "gm_run gm g = (Calls c, g1) \<Longrightarrow> host_call dec (gm_memory gm g1) c h = (Allocate bytes, h1) \<Longrightarrow>
    calls_made dec gm (bytes # pending) (gm_call gm ''kasgraph_alloc'' [int (length bytes)] g1) h1 cs \<Longrightarrow>
    calls_made dec gm pending g h ((gm_memory gm g1, c) # cs)"

definition malformed_text :: "string \<Rightarrow> string" where
  "malformed_text e = ''store_set received malformed entity-op JSON: '' @ e"

definition last_malformed :: "(u8 list \<Rightarrow> string + entity_op) \<Rightarrow> (u8 list \<times> host_import) list \<Rightarrow> string option" where
  "last_malformed dec cs = (if cs = [] then None else malformed_write dec (last cs))"

text \<open>What a run that made the calls \<open>cs\<close> leaves.\<close>

definition left_by ::
  "(u8 list \<Rightarrow> string + entity_op) \<Rightarrow> host_state \<Rightarrow> (u8 list \<times> host_import) list \<Rightarrow> wasm_error + i32 \<Rightarrow> host_state \<Rightarrow> bool" where
  "left_by dec h cs r h' \<longleftrightarrow>
     hs_entities h' = hs_entities h \<and> hs_logs h' = hs_logs h @ concat (map call_logs cs) \<and>
     hs_entity_ops h' = hs_entity_ops h @ concat (map (call_writes dec) cs) \<and>
     (\<forall>c \<in> set (butlast cs). malformed_write dec c = None) \<and>
     (case last_malformed dec cs of
        None \<Rightarrow> hs_decode_error h' = hs_decode_error h
      | Some e \<Rightarrow> r = Inl (Wasm_error (malformed_text e)) \<and> hs_decode_error h' = Some (malformed_text e))"

lemma left_by_Nil: "left_by dec h [] r h"
  by (simp add: left_by_def last_malformed_def)

lemma left_by_failed: "host_call dec mem c h = (Failed msg, h1) \<Longrightarrow> left_by dec h [(mem, c)] (Inl (Wasm_error msg)) h1"
  by (cases c) (auto simp: left_by_def last_malformed_def malformed_text_def Let_def split: sum.splits option.splits)

lemma left_by_Cons:
  assumes "host_call dec mem c h = (ans, h1)" "\<forall>msg. ans \<noteq> Failed msg" "left_by dec h1 cs r h'"
  shows "left_by dec h ((mem, c) # cs) r h'"
proof -
  have "malformed_write dec (mem, c) = None \<and> hs_entities h1 = hs_entities h \<and> hs_logs h1 = hs_logs h @ call_logs (mem, c) \<and>
      hs_entity_ops h1 = hs_entity_ops h @ call_writes dec (mem, c) \<and> hs_decode_error h1 = hs_decode_error h"
    using assms(1,2) by (cases c) (auto simp: Let_def split: sum.splits option.splits)
  moreover from this have "last_malformed dec ((mem, c) # cs) = last_malformed dec cs" by (simp add: last_malformed_def)
  ultimately show ?thesis using assms(3) by (auto simp: left_by_def split: option.splits)
qed

lemma run_guest_calls:
  assumes "run_guest dec gm pending g h = Some res"
  shows "\<exists>cs. calls_made dec gm pending g h cs \<and> left_by dec h cs (fst res) (snd (snd res))"
  using assms
proof (rule run_guest.raw_induct [where P = "\<lambda>dec gm pending g h res. \<exists>cs. calls_made dec gm pending g h cs \<and>
      left_by dec h cs (fst res) (snd (snd res))", rotated])
  fix run dec gm pending g h res
  assume IH: "\<And>dec gm pending g h res. run dec gm pending g h = Some res \<Longrightarrow>
      \<exists>cs. calls_made dec gm pending g h cs \<and> left_by dec h cs (fst res) (snd (snd res))"
    and step: "(case gm_run gm g of
        (Returned v, g) \<Rightarrow>
          (case pending of
             [] \<Rightarrow> Some (Inr v, g, h)
           | bytes # pending \<Rightarrow>
               (case write_guest (gm_memory gm g) v bytes of
                  None \<Rightarrow> Some (Inl (Wasm_error (''store_get write out of bounds: '' @ gm_access_error gm)), g, h)
                | Some mem \<Rightarrow> run dec gm pending (gm_resume gm (pack_buffer v (int (length bytes))) (gm_set_memory gm mem g)) h))
      | (Trapped e, g) \<Rightarrow> Some (Inl e, g, h)
      | (Calls c, g) \<Rightarrow>
          (case host_call dec (gm_memory gm g) c h of
             (Failed msg, h) \<Rightarrow> Some (Inl (Wasm_error msg), g, h)
           | (Resume v, h) \<Rightarrow> run dec gm pending (gm_resume gm v g) h
           | (Allocate bytes, h) \<Rightarrow> run dec gm (bytes # pending) (gm_call gm ''kasgraph_alloc'' [int (length bytes)] g) h)) = Some res"
  obtain a g1 where g1: "gm_run gm g = (a, g1)" by force
  show "\<exists>cs. calls_made dec gm pending g h cs \<and> left_by dec h cs (fst res) (snd (snd res))"
  proof (cases a)
    case (Calls c)
    note run = g1 [unfolded Calls]
    obtain ans h1 where c: "host_call dec (gm_memory gm g1) c h = (ans, h1)" by force
    show ?thesis
    proof (cases ans)
      case (Failed msg)
      then have "res = (Inl (Wasm_error msg), g1, h1)" using step by (simp add: run c)
      then show ?thesis using calls_made.failed [OF run c [unfolded Failed]] left_by_failed [OF c [unfolded Failed]] by auto
    next
      case (Resume v)
      then have "run dec gm pending (gm_resume gm v g1) h1 = Some res" using step by (simp add: g1 Calls c)
      from IH [OF this] show ?thesis
        using calls_made.resumed [OF run c [unfolded Resume]] left_by_Cons [OF c] Resume by blast
    next
      case (Allocate bytes)
      then have "run dec gm (bytes # pending) (gm_call gm ''kasgraph_alloc'' [int (length bytes)] g1) h1 = Some res"
        using step by (simp add: g1 Calls c)
      from IH [OF this] show ?thesis
        using calls_made.allocating [OF run c [unfolded Allocate]] left_by_Cons [OF c] Allocate by blast
    qed
  next
    case (Trapped e)
    then have "res = (Inl e, g1, h)" using step by (simp add: g1)
    then show ?thesis using calls_made.trap [OF g1 [unfolded Trapped]] left_by_Nil by fastforce
  next
    case (Returned v)
    note run = g1 [unfolded Returned]
    show ?thesis
    proof (cases pending)
      case Nil
      then have "res = (Inr v, g1, h)" using step by (simp add: run)
      then show ?thesis using calls_made.return [OF run] left_by_Nil by (fastforce simp: Nil)
    next
      case (Cons bytes rest)
      show ?thesis
      proof (cases "write_guest (gm_memory gm g1) v bytes")
        case None
        then have "snd (snd res) = h" using step by (auto simp: run Cons)
        then show ?thesis using calls_made.misplaced [OF run None] left_by_Nil by (fastforce simp: Cons)
      next
        case (Some mem)
        then have "run dec gm rest (gm_resume gm (pack_buffer v (int (length bytes))) (gm_set_memory gm mem g1)) h = Some res"
          using step by (simp add: g1 Returned Cons)
        from IH [OF this] show ?thesis using calls_made.buffer [OF run Some] unfolding Cons by blast
      qed
    qed
  qed
qed



end
