(* ===== verification/Subgraph_Dir.thy ===== *)
theory Subgraph_Dir
  imports Wasm_Facts Node_Runtime
begin

text \<open>
  Writing a deployment to disk and loading a mapping from it: \<open>materialize_subgraph_dir\<close> and
  \<open>LoadedMapping::load\<close> of \<open>mapping_host.rs\<close> and \<open>BuildDescriptor::load\<close> of \<open>subgraph_manifest.rs\<close>. The disk
  is a map from paths to contents; which of its operations fail, and with what text, is a parameter, and so
  are printing the manifest and deserialising the descriptor (\<open>serde_json\<close>).
\<close>

section \<open>Paths and files\<close>

text \<open>\<open>Path::join\<close>: an absolute path replaces the one it is joined to.\<close>

definition path_join :: "string \<Rightarrow> string \<Rightarrow> string" where
  "path_join a b =
     (if b \<noteq> [] \<and> hd b = CHR ''/'' then b
      else if a = [] \<or> last a = CHR ''/'' then a @ b
      else a @ ''/'' @ b)"

record disk =
  dk_files :: "string \<Rightarrow> u8 list option"
  dk_error :: "string \<Rightarrow> string \<Rightarrow> string option"

definition create_dir_all :: "string \<Rightarrow> disk \<Rightarrow> string option" where
  "create_dir_all path d = dk_error d ''create_dir_all'' path"

definition write_file :: "string \<Rightarrow> u8 list \<Rightarrow> disk \<Rightarrow> string option \<times> disk" where
  "write_file path bytes d =
     (case dk_error d ''write'' path of
        Some e \<Rightarrow> (Some e, d)
      | None \<Rightarrow> (None, d\<lparr>dk_files := (dk_files d)(path \<mapsto> bytes)\<rparr>))"

definition read_file :: "string \<Rightarrow> disk \<Rightarrow> string + u8 list" where
  "read_file path d =
     (case dk_error d ''read'' path of
        Some e \<Rightarrow> Inl e
      | None \<Rightarrow> ok_or (dk_files d path) ''No such file or directory (os error 2)'')"

definition path_exists :: "string \<Rightarrow> disk \<Rightarrow> bool" where
  "path_exists path d \<longleftrightarrow> dk_error d ''stat'' path = None \<and> dk_files d path \<noteq> None"

definition read_to_string :: "string \<Rightarrow> disk \<Rightarrow> string + string" where
  "read_to_string path d =
     attempt (read_file path d) (\<lambda>bytes.
       if utf8_ok bytes then Inr (string_of_bytes bytes) else Inl ''stream did not contain valid UTF-8'')"

section \<open>The descriptor\<close>

datatype manifest_error = Manifest_not_found string | Manifest_read string string | Manifest_parse string string

text \<open>\<open>from_json\<close> is the derived deserialisation of \<open>BuildDescriptor\<close>.\<close>

definition descriptor_load ::
  "(string \<Rightarrow> string + build_descriptor) \<Rightarrow> string \<Rightarrow> disk \<Rightarrow> manifest_error + build_descriptor" where
  "descriptor_load from_json dir d =
     (let path = path_join (path_join dir ''build'') ''manifest.json'' in
      if \<not> path_exists path d then Inl (Manifest_not_found path)
      else (case read_to_string path d of
              Inl e \<Rightarrow> Inl (Manifest_read path e)
            | Inr json \<Rightarrow> (case from_json json of Inl e \<Rightarrow> Inl (Manifest_parse path e) | Inr desc \<Rightarrow> Inr desc)))"

definition wasm_path :: "build_descriptor \<Rightarrow> string \<Rightarrow> string" where
  "wasm_path desc dir = path_join (path_join dir ''build'') (bd_wasm desc)"

section \<open>Materializing and loading\<close>

text \<open>The files written before an error stay.\<close>

definition materialize_subgraph_dir ::
  "(json \<Rightarrow> u8 list) \<Rightarrow> subgraph_deployment \<Rightarrow> string \<Rightarrow> disk \<Rightarrow> (string + string) \<times> disk" where
  "materialize_subgraph_dir pretty dep base d =
     (case get_str (sd_manifest dep) ''wasm'' of
        None \<Rightarrow> (Inl ''deployed manifest has no `wasm` field'', d)
      | Some wasm_name \<Rightarrow>
     (case sd_wasm_bytes dep of
        None \<Rightarrow> (Inl ''deployment carries no wasm bytes to materialize'', d)
      | Some wasm_bytes \<Rightarrow>
          (let dir = path_join base (sd_subgraph dep); build = path_join dir ''build'' in
           case create_dir_all build d of
             Some e \<Rightarrow> (Inl e, d)
           | None \<Rightarrow>
          (case write_file (path_join build ''manifest.json'') (pretty (sd_manifest dep)) d of
             (Some e, d) \<Rightarrow> (Inl e, d)
           | (None, d) \<Rightarrow>
          (case write_file (path_join build wasm_name) wasm_bytes d of
             (Some e, d) \<Rightarrow> (Inl e, d)
           | (None, d) \<Rightarrow>
          (case write_file (path_join dir ''schema.graphql'') (as_bytes (sd_schema_sdl dep)) d of
             (Some e, d) \<Rightarrow> (Inl e, d)
           | (None, d) \<Rightarrow> (Inr dir, d)))))))"

datatype load_error = Load_manifest manifest_error | Read_wasm string string | Compile_wasm string mapping_error

text \<open>The runtime of a loaded mapping is what a dispatch to its module returns.\<close>

definition load_mapping ::
  "'g engine \<Rightarrow> (string \<Rightarrow> string + build_descriptor) \<Rightarrow> string \<Rightarrow> string \<Rightarrow> disk \<Rightarrow> load_error + loaded_mapping" where
  "load_mapping en from_json sg dir d =
     (case descriptor_load from_json dir d of
        Inl e \<Rightarrow> Inl (Load_manifest e)
      | Inr desc \<Rightarrow>
          (let path = wasm_path desc dir in
           case read_file path d of
             Inl e \<Rightarrow> Inl (Read_wasm path e)
           | Inr bytes \<Rightarrow>
               (case from_wasm en bytes of
                  Inl e \<Rightarrow> Inl (Compile_wasm path e)
                | Inr rt \<Rightarrow> Inr \<lparr>lm_subgraph = sg, lm_descriptor = desc,
                    lm_runtime = (\<lambda>ev snapshot. the (dispatch_with_entities en rt ev snapshot))\<rparr>)))"

text \<open>The loader of a node whose work directory is \<open>base\<close> on a disk \<open>d\<close>.\<close>

definition disk_loader ::
  "'g engine \<Rightarrow> (string \<Rightarrow> string + build_descriptor) \<Rightarrow> (json \<Rightarrow> u8 list) \<Rightarrow> string \<Rightarrow> string \<Rightarrow> disk \<Rightarrow> loader" where
  "disk_loader en from_json pretty base configured d =
     \<lparr>ld_deployment = (\<lambda>dep. case materialize_subgraph_dir pretty dep base d of
          (Inl e, d') \<Rightarrow> Inl Load_failed
        | (Inr dir, d') \<Rightarrow> (case load_mapping en from_json (sd_subgraph dep) dir d' of
            Inl e \<Rightarrow> Inl Load_failed | Inr m \<Rightarrow> Inr m)),
      ld_dir = (\<lambda>dir. case load_mapping en from_json configured dir d of Inl e \<Rightarrow> Inl Load_failed | Inr m \<Rightarrow> Inr m)\<rparr>"

section \<open>What is written is what is loaded\<close>

lemma path_join_relative:
  "b \<noteq> [] \<Longrightarrow> hd b \<noteq> CHR ''/'' \<Longrightarrow> path_join a b = path_join a '''' @ b"
  by (simp add: path_join_def)

text \<open>An absolute module name replaces the build directory.\<close>

lemma path_join_absolute: "path_join a (CHR ''/'' # b) = CHR ''/'' # b"
  by (simp add: path_join_def)

lemma written_paths_distinct:
  assumes "name \<noteq> []" "CHR ''/'' \<notin> set name" "name \<noteq> ''manifest.json''"
  shows "path_join (path_join dir ''build'') name \<noteq> path_join (path_join dir ''build'') ''manifest.json''"
    "path_join (path_join dir ''build'') name \<noteq> path_join dir ''schema.graphql''"
    "path_join (path_join dir ''build'') ''manifest.json'' \<noteq> path_join dir ''schema.graphql''"
proof -
  have name: "hd name \<noteq> CHR ''/''" using assms(1,2) by (cases name) auto
  have build: "path_join dir ''build'' = path_join dir '''' @ ''build''"
      "path_join dir ''schema.graphql'' = path_join dir '''' @ ''schema.graphql''"
    by (simp_all add: path_join_relative)
  have inside: "path_join (path_join dir ''build'') n = path_join dir '''' @ ''build/'' @ n" if "n \<noteq> []" "hd n \<noteq> CHR ''/''" for n
    using that by (simp add: build(1)) (simp add: path_join_def)
  show "path_join (path_join dir ''build'') name \<noteq> path_join (path_join dir ''build'') ''manifest.json''"
      "path_join (path_join dir ''build'') name \<noteq> path_join dir ''schema.graphql''"
      "path_join (path_join dir ''build'') ''manifest.json'' \<noteq> path_join dir ''schema.graphql''"
    using assms(3) by (simp_all add: inside [OF assms(1) name] inside build(2))
qed

lemma write_file_ok: "dk_error d = (\<lambda>_ _. None) \<Longrightarrow> write_file p b d = (None, d\<lparr>dk_files := (dk_files d)(p \<mapsto> b)\<rparr>)"
  by (simp add: write_file_def)

text \<open>C25: a deployment travels through the disk unchanged. If no operation on the disk fails and the module has
  a plain file name, materializing a deployment and loading the directory it returns gives the mapping of
  its manifest and module, whatever was on the disk before; and with a metered module the loaded
  runtime answers every event with what a dispatch to the module returns.\<close>

theorem materialize_load_roundtrip:
  assumes "dk_error d = (\<lambda>_ _. None)" "get_str (sd_manifest dep) ''wasm'' = Some name" "sd_wasm_bytes dep = Some bytes"
    and "name \<noteq> []" "CHR ''/'' \<notin> set name" "name \<noteq> ''manifest.json''"
    and "utf8_ok (pretty (sd_manifest dep))" "from_json (string_of_bytes (pretty (sd_manifest dep))) = Inr desc" "bd_wasm desc = name"
    and "from_wasm en bytes = Inr rt" "metered (mr_module rt) mu"
  shows "\<exists>d' m. materialize_subgraph_dir pretty dep base d = (Inr (path_join base (sd_subgraph dep)), d') \<and>
    load_mapping en from_json (sd_subgraph dep) (path_join base (sd_subgraph dep)) d' = Inr m \<and>
    ld_deployment (disk_loader en from_json pretty base configured d) dep = Inr m \<and>
    lm_subgraph m = sd_subgraph dep \<and> lm_descriptor m = desc \<and>
    (\<forall>ev snapshot. dispatch_with_entities en rt ev snapshot = Some (lm_runtime m ev snapshot))"
proof -
  let ?dir = "path_join base (sd_subgraph dep)"
  let ?mf = "path_join (path_join ?dir ''build'') ''manifest.json''" and ?wf = "path_join (path_join ?dir ''build'') name"
    and ?sf = "path_join ?dir ''schema.graphql''"
  let ?d' = "d\<lparr>dk_files := (dk_files d)(?mf \<mapsto> pretty (sd_manifest dep), ?wf \<mapsto> bytes, ?sf \<mapsto> as_bytes (sd_schema_sdl dep))\<rparr>"
  let ?m = "\<lparr>lm_subgraph = sd_subgraph dep, lm_descriptor = desc,
    lm_runtime = (\<lambda>ev snapshot. the (dispatch_with_entities en rt ev snapshot))\<rparr>"
  note ne = written_paths_distinct [OF assms(4-6), of ?dir]
  have written: "materialize_subgraph_dir pretty dep base d = (Inr ?dir, ?d')"
    using assms(1-3) by (simp add: materialize_subgraph_dir_def create_dir_all_def write_file_ok Let_def)
  have files: "dk_files ?d' ?mf = Some (pretty (sd_manifest dep))" "dk_files ?d' ?wf = Some bytes"
    using ne by simp_all
  have "descriptor_load from_json ?dir ?d' = Inr desc"
    using files(1) assms(1,7,8)
    by (simp add: descriptor_load_def Let_def path_exists_def read_to_string_def read_file_def ok_or_def)
  moreover have "read_file (wasm_path desc ?dir) ?d' = Inr bytes"
    using files(2) assms(1,9) by (simp add: wasm_path_def read_file_def ok_or_def)
  ultimately have loaded: "load_mapping en from_json (sd_subgraph dep) ?dir ?d' = Inr ?m"
    using assms(10) by (simp add: load_mapping_def Let_def)
  have "\<forall>ev snapshot. dispatch_with_entities en rt ev snapshot = Some (lm_runtime ?m ev snapshot)"
    using mapping_returns [OF assms(11), of en] by fastforce
  then show ?thesis
    using written loaded by (intro exI [of _ ?d'] exI [of _ ?m]) (simp add: disk_loader_def)
qed

definition play_deployment :: subgraph_deployment where
  "play_deployment = \<lparr>sd_subgraph = ''play'', sd_schema_sdl = ''type A'',
     sd_manifest = JObject [(''wasm'', JString ''play.wasm'')], sd_wasm_sha256 = None, sd_wasm_bytes = Some [0, 97]\<rparr>"

definition play_descriptor :: build_descriptor where
  "play_descriptor = \<lparr>bd_name = ''play'', bd_wasm = ''play.wasm'', bd_data_sources = []\<rparr>"

lemma materialize_load_roundtrip_witness:
  "\<exists>m. ld_deployment (disk_loader player_engine (\<lambda>s. if s = ''{}'' then Inr play_descriptor else Inl ''eof'')
      (\<lambda>_. [123, 125]) ''/work'' ''main'' \<lparr>dk_files = Map.empty, dk_error = (\<lambda>_ _. None)\<rparr>) play_deployment = Inr m \<and>
    lm_descriptor m = play_descriptor"
proof -
  let ?from = "\<lambda>s. if s = ''{}'' then Inr play_descriptor else Inl ''eof''" and ?pretty = "\<lambda>_ :: json. [123, 125] :: u8 list"
    and ?rt = "\<lparr>mr_module = player_module, mr_fuel_limit = DEFAULT_FUEL\<rparr>"
  have "get_str (sd_manifest play_deployment) ''wasm'' = Some ''play.wasm''" "sd_wasm_bytes play_deployment = Some [0, 97]"
    by code_simp+
  moreover have "(''play.wasm'' :: string) \<noteq> []" "CHR ''/'' \<notin> set ''play.wasm''" "(''play.wasm'' :: string) \<noteq> ''manifest.json''"
    by simp_all
  moreover have "utf8_ok [123, 125]" by code_simp
  moreover have "?from (string_of_bytes [123, 125]) = Inr play_descriptor" by code_simp
  moreover have "bd_wasm play_descriptor = ''play.wasm''" by (simp add: play_descriptor_def)
  moreover have "from_wasm player_engine [0, 97] = Inr ?rt"
    by (simp add: from_wasm_def player_engine_def player_module_def)
  moreover have "metered (mr_module ?rt) (fuel_left player_module)" using fuel_metered [OF player_metered] by simp
  ultimately show ?thesis
    using materialize_load_roundtrip [of "\<lparr>dk_files = Map.empty, dk_error = (\<lambda>_ _. None)\<rparr>" play_deployment "''play.wasm''" "[0, 97]"
        ?pretty ?from play_descriptor player_engine ?rt "fuel_left player_module" "''/work''" "''main''"]
    by auto
qed

end
