(* ===== verification/Spec2Isabelle.thy ===== *)
theory Spec2Isabelle
  imports Legacy_Replay Kcc20_Operation Event_Hub Gap_Recovery Mapped_Run Soak_Monitor Smoke_Tools Subgraph_Dir
begin

text \<open>
  KasGraph indexes the Kaspa block DAG. A node follows the chain over RPC, recognises covenant patterns in
  transaction outputs, writes them with the lineage of each covenant to a database, hands them to a
  subgraph's mapping program, and publishes a hash chain over what it indexed. This library models the Rust
  workspace under \<open>src/crates\<close> and proves what its parts promise each other.

  \<^bold>\<open>The parts and how they work together.\<close> The RPC client (\<open>kasgraph-rpc\<close>) turns what a node sends into
  notifications: a block was added, the virtual chain changed, or scores may be missing. The node
  (\<open>kasgraph-node\<close>) hands each one to every subgraph runtime. A runtime's ingestion state keeps blocks
  that may still be reorganised apart from committed ones and reports which to write and which to unwind.
  For every block it writes, the node stores the hits of the detectors (\<open>kasgraph-detectors\<close>), publishes
  them (\<open>kasgraph-stream\<close>), classifies each covenant's lineage, dispatches the mapping, records spends
  and extends the proof of indexing (\<open>kasgraph-poi\<close>), all through the store (\<open>kasgraph-store\<close>).

  \<^bold>\<open>Theories and the code they model.\<close>
  \<^item> \<open>Kas_Prelude\<close>, \<open>Ordered_Map\<close>, \<open>Rust_Str\<close>, \<open>Json_Value\<close>: machine integers and their casts, panics as a
    result type, \<open>BTreeMap\<close> as a sorted list behind a locale, the string functions of the standard library
    and \<open>serde_json::Value\<close>. \<open>Kas_Prelude\<close> also holds the locale of a ledger of operations.
  \<^item> \<open>Krc20\<close>, \<open>Krc721\<close>: envelope parsers and ledgers of the legacy inscriptions (\<open>krc20.rs\<close>,
    \<open>krc20_ledger.rs\<close>, \<open>krc721.rs\<close>, \<open>krc721_ledger.rs\<close>); \<open>Store_Legacy\<close>, \<open>Legacy_Replay\<close>: their journals in the
    store and the replay (\<open>legacy_ledger.rs\<close>).
  \<^item> \<open>Fingerprint\<close>, \<open>Covenant_Patterns\<close>, \<open>Registry\<close>, \<open>Pattern_Facts\<close>, \<open>Detectors\<close>: script fingerprints, the
    seventeen patterns with their bytes, the registry and detection (\<open>fingerprint.rs\<close>, \<open>opensilver_*.rs\<close>,
    \<open>kcc20_*.rs\<close>, \<open>registry.rs\<close>, \<open>lib.rs\<close>); \<open>Kcc20_Operation\<close>: what a spend of KCC20 receipts does.
  \<^item> \<open>Poi\<close>: the hash chain and the canonical bytes it covers. \<open>Stream_Hub\<close>, \<open>Event_Hub\<close>:
    filters, and the hub with its subscriptions over a broadcast channel.
  \<^item> \<open>Sql_Table\<close>, \<open>Store_Db\<close>: tables with keys, and every statement of \<open>kasgraph-store\<close> on them;
    \<open>Store_Facts\<close>: unwinding and snapshots, through the locale of a table whose rows carry a score.
  \<^item> \<open>Chain_Types\<close>, \<open>Ingestion\<close>: blocks, notifications and the ingestion state machine of \<open>main.rs\<close>.
  \<^item> \<open>Mapping_Host\<close>, \<open>Lineage\<close>, \<open>Node_Persist\<close>, \<open>Node_Facts\<close>: dispatch to a mapping (\<open>mapping_host.rs\<close>,
    \<open>subgraph_manifest.rs\<close>), covenant lineage, and \<open>apply_and_persist_notification\<close> with what it guarantees;
    \<open>Node_Equiv\<close>: it does not depend on how added blocks are grouped. \<open>Store_Steps\<close>: the contract between a notification and
    the statements it runs, as two locales: what every statement for a subgraph keeps of the database, the
    notification keeps; what all but those of a recorded hit keep, a notification without such a hit keeps.
  \<^item> \<open>Utf8\<close>, \<open>Wasm_Runtime\<close>, \<open>Wasm_Facts\<close>: bytes read as text, and the mapping runtime (\<open>kasgraph-mapping\<close>) over an
    abstract guest; \<open>Subgraph_Dir\<close>: writing a deployment to disk and loading its mapping, which gives
    the node its loader.
  \<^item> \<open>Rpc_Parse\<close>, \<open>Rpc_Client\<close>, \<open>Subscription\<close>, \<open>Rpc_Facts\<close>: the parsers, the client with its failover,
    the reconnecting subscription and their properties.
  \<^item> \<open>Node_Config\<close>, \<open>Node_Runtime\<close>: the environment, the runtimes and their reload, fan-out, the bootstrap
    pass and the continuous loop. \<open>Store_Invariant\<close>, \<open>Runtime_Facts\<close>: the constraints of the database as an
    invariant of a whole run, and the exact effect of a reload.
  \<^item> \<open>Poi_Ledger\<close>, \<open>Isolation\<close>, \<open>Gap_Recovery\<close>: the node as a whole. The checkpoints through commits,
    reorganisations and restarts; several subgraphs on one database; and a gap from the driver's request to
    the ingestion of every runtime. \<open>Schema_Index\<close>, \<open>Mapped_Index\<close>, \<open>Mapped_Run\<close>: the tables of a mapped subgraph. The
    reference indexer with the rules that show a block of the node writes what it writes; the fold of it over
    a run with its reorganisations; and the room in which such a run never fails.
  \<^item> \<open>Soak_Monitor\<close>: the monitor that watches a live subscription (\<open>examples/continuous_wrpc_smoke.rs\<close>).
    \<open>Smoke_Tools\<close>: the smoke run (\<open>examples/live_wrpc_smoke.rs\<close>) and the dump of the registry (\<open>bin/dump-registry.rs\<close>).

  \<^bold>\<open>How state and effects appear.\<close> A struct is a record, an enum a datatype. A method that takes
  \<open>&mut self\<close> returns the new state. A fallible function returns a sum, its error on the left; a step of the
  node is \<open>act\<close>, which returns the state on errors too, since rows written before an error stay written.
  A panic is \<open>Panics\<close>, and \<open>Panicked\<close> once it ends a step. Words keep their width: \<open>u64\<close>, \<open>u32\<close> and bytes
  are machine words, \<open>i64\<close> and \<open>i32\<close> are integers with their casts written out. The database is a record
  of tables, a table a list of rows in insertion order; unique and foreign keys are checked by the statements.

  \<^bold>\<open>Parameters.\<close> What is not in the repository is an argument: the hash, the \<open>hex\<close> crate and \<open>serde_json\<close>
  (\<open>node_env\<close>, \<open>wire\<close>), the answers of the network to the \<open>n\<close>-th request (\<open>network\<close>), what a websocket yields
  (\<open>ws_connection\<close>), the WASM engine and the guest (\<open>engine\<close>, \<open>guest_module\<close>), what disk operations fail (\<open>disk\<close>), the
  channel and what the select of the main loop yields (lists of events). Where a theorem needs a law of a
  parameter, the law is a hypothesis: that decoding inverts encoding, that a hash has 32 bytes, or that
  the engine's fuel counter starts at what it is set to, pays for each call of a host function and never grows.

  \<^bold>\<open>What the properties say.\<close> The ledgers refine rules over unbounded numbers, conserve supply and mint a token
  once; recording an operation in the journal and replaying it is applying the operation, whatever order the fetch takes,
  and an unwind leaves the fetch with the rows below it. Fingerprints extract what was written,
  match nothing else, and no script matches two patterns. The proof of indexing accepts exactly the chains that
  hash, commits to the history up to a hash collision, and its canonical bytes determine the entities and their state if
  the serializer tells JSON values apart. Ingestion loses no block and commits only what is final, or at a score not above zero; the scores rise
  among the blocks one arriving block promotes, but not from one arriving block to the next; and the committed map is the
  ledger of the writes it reports.

  Where each covenant is recorded by one subgraph, the head of its lineage names the last row after any steps and unwinds, and the numbers
  grow; they have no gap where no step came at a score below an earlier one, which the order of commits does not ensure
  (\<open>Lineage.lower_step_leaves_gap\<close>). An unwind leaves the entity versions of a schema as if the later writes never happened, and its
  outputs and spends too unless one was recorded on both sides of the score (\<open>Store_Facts.relocked_output_lost\<close>). A reorganisation of a mapped subgraph leaves,
  in every table it records to, exactly the rows named in \<open>Node_Facts.reorg_leaves_no_trace\<close>, audit rows and lineage included; and a chain change is its removal followed by
  its blocks one at a time. Over any run,
  the checkpoints of a subgraph are the POI chain of the blocks that survive, on top of those it was started with;
  with a mapping, its whole schema (entities, tracked covenant outputs and spends) is what a reference indexer makes
  of these blocks, spend handlers included; while scores and depths leave room no notification of such a node fails;
  and no notification touches the rows of another subgraph, but for the position of a lineage head the two share, which only a
  recorded step moves (\<open>Isolation.foreign_head_overwritten\<close>).

  A fetch succeeds if any endpoint answers, a reconnect
  announces exactly the scores it may have missed, the loop that receives this leaves every fetched block of them
  and the new block covered in every runtime, and the driver waits after each failure as the backoff says, reconnects at once after a clean
  end, and gives up after its attempts. A subscriber polls exactly
  the matching events published. The soak monitor's report counts what it consumed, and the dump of the registry
  describes exactly what a hit carries. A dispatch to a mapping returns within its fuel, reads committed entities exactly,
  leaves exactly the logs and writes of the host functions it called, and fails on a malformed write; a deployment is loaded back as it was written. A whole run keeps the database's
  constraints and every runtime well formed. Several theorems record what the code does where its comments say more:
  which filters a published event can match, a mapped subgraph without a schema, an inverted range.

  \<^bold>\<open>Bounds and fuel.\<close> No definition uses fuel. Loops over received data recurse on the list received, and the
  driver and the main loop recurse on the connections and events given, so a longer run is a longer list;
  every recursion is structural or has its termination proved. Two functions are partial: running a guest, which returns if
  its fuel is counted, and polling a subscription, which returns if the channel behaves as documented.

  \<^bold>\<open>Not modelled.\<close> Logging and tracing; the sockets, timers and tasks themselves; connecting to Postgres,
  its failures and the migration runner, and columns filled by its clock; the WASM engine; aliases of a path,
  as paths are compared as text; the tests; and everything that is not
  Rust: the GraphQL API, the command line, the SDK, the site and the example mappings.

  \<^bold>\<open>Left open.\<close> The properties of whole runs start from runtimes without blocks, as a started process does; that
  no notification fails is shown for one mapped subgraph, since a lineage head another subgraph opened can go stale
  or block the next step (\<open>Lineage.foreign_head_left_stale\<close>, \<open>Lineage.foreign_rows_block_lineage\<close>); nothing in the repository writes the
  journals, so their property is about one record at a time; and the driver and the main loop meet at one notification after a reconnect.
\<close>

end
